(* ===== verification/Insomni_Prelude.thy ===== *)
theory Insomni_Prelude
  imports Main "HOL-Library.Word"
begin

text \<open>
  Prelude of the insomnilog development: the machine integers the crate uses, the build
  configuration (overflow checks and debug assertions, byte order), fallible computations as
  sums, and the generic lemmas on byte slices and on lists of chunks that the wire format and
  the ring buffer share. Nothing here models code of the crate by itself.
\<close>



section \<open>Machine integers and the build configuration\<close>

type_synonym u8 = "8 word"
type_synonym u16 = "16 word"
type_synonym u32 = "32 word"
type_synonym u64 = "64 word"
type_synonym u128 = "128 word"

text \<open>The crate is modelled for a 64-bit target: \<open>usize\<close> and pointers are 64 bits wide.\<close>

type_synonym usize = "64 word"
type_synonym bytes = "8 word list"

datatype endianness = Little | Big

text \<open>
  \<open>checks\<close> is true in a debug build: \<open>debug_assert!\<close> is compiled in and integer overflow
  panics. In a release build both are off and arithmetic wraps. \<open>endian\<close> is the byte order
  behind \<open>to_ne_bytes\<close> and \<open>from_ne_bytes\<close>.
\<close>

record target =
  checks :: bool
  endian :: endianness

definition dev_build :: target where
  "dev_build = \<lparr>checks = True, endian = Little\<rparr>"

definition release_build :: target where
  "release_build = \<lparr>checks = False, endian = Little\<rparr>"

lemma build_simps [simp]:
  "checks dev_build" "endian dev_build = Little" "\<not> checks release_build" "endian release_build = Little"
  by (simp_all add: dev_build_def release_build_def)


section \<open>Fallible computations\<close>

text \<open>
  The ways a computation of the crate can end other than by returning: the panics its code can
  raise, and the two kinds of undefined behaviour its unsafe blocks must avoid. \<open>PanicAssert\<close> is
  a failed \<open>assert!\<close> or, with \<open>checks\<close>, \<open>debug_assert!\<close>; \<open>PanicOverflow\<close> a failed overflow check;
  \<open>PanicBorrow\<close> a second \<open>borrow_mut\<close> of
  a \<open>RefCell\<close>; \<open>PanicDecoder\<close> a panic of a user-supplied decoder; \<open>UbOutOfBounds\<close> an access outside an
  allocation; \<open>UbDangling\<close> the use of a pointer that points to nothing of the expected type.
\<close>

datatype fault =
    PanicAssert
  | PanicOverflow
  | PanicNotStarted
  | PanicReentrant
  | PanicBorrow
  | PanicDecoder
  | PanicExpect
  | PanicUnreachable
  | UbOutOfBounds
  | UbDangling

definition rbind :: "'e + 'a \<Rightarrow> ('a \<Rightarrow> 'e + 'b) \<Rightarrow> 'e + 'b" where
  "rbind m f = (case m of Inl e \<Rightarrow> Inl e | Inr x \<Rightarrow> f x)"

lemma rbind_Inl [simp]: "rbind (Inl e) f = Inl e"
  by (simp add: rbind_def)

lemma rbind_Inr [simp]: "rbind (Inr x) f = f x"
  by (simp add: rbind_def)

lemma rbind_eq_Inr [simp]: "rbind m f = Inr y \<longleftrightarrow> (\<exists>x. m = Inr x \<and> f x = Inr y)"
  by (cases m) auto

lemma rbind_cong [fundef_cong]:
  "m = m' \<Longrightarrow> (\<And>x. m' = Inr x \<Longrightarrow> f x = f' x) \<Longrightarrow> rbind m f = rbind m' f'"
  by (cases m') auto

text \<open>Runs the steps of a list in order and joins their outputs; stops at the first failure.\<close>

fun rconcat :: "('e + 'a list) list \<Rightarrow> 'e + 'a list" where
  "rconcat [] = Inr []"
| "rconcat (m # ms) = rbind m (\<lambda>xs. rbind (rconcat ms) (\<lambda>ys. Inr (xs @ ys)))"

lemma rconcat_Inr [simp]: "rconcat (map (\<lambda>x. Inr (f x)) xs) = Inr (concat (map f xs))"
  by (induction xs) auto

text \<open>
  Computations on a state \<open>'w\<close> that may panic. A panic keeps the state reached: unwinding undoes
  nothing, and the thread or another one may go on with it.
\<close>

type_synonym ('w, 'a) act = "'w \<Rightarrow> (fault + 'a) \<times> 'w"

definition ret_act :: "'a \<Rightarrow> ('w, 'a) act" where
  "ret_act x = (\<lambda>w. (Inr x, w))"

definition fail_act :: "fault \<Rightarrow> ('w, 'a) act" where
  "fail_act f = (\<lambda>w. (Inl f, w))"

definition lift_act :: "fault + 'a \<Rightarrow> ('w, 'a) act" where
  "lift_act r = (\<lambda>w. (r, w))"

definition bind_act :: "('w, 'a) act \<Rightarrow> ('a \<Rightarrow> ('w, 'b) act) \<Rightarrow> ('w, 'b) act" where
  "bind_act m k = (\<lambda>w. case m w of (Inl f, w') \<Rightarrow> (Inl f, w') | (Inr x, w') \<Rightarrow> k x w')"

lemma act_simps [simp]:
  "ret_act x w = (Inr x, w)" "fail_act f w = (Inl f, w)" "lift_act r w = (r, w)"
  "m w = (Inr x, w') \<Longrightarrow> bind_act m k w = k x w'" "m w = (Inl f, w') \<Longrightarrow> bind_act m k w = (Inl f, w')"
  by (simp_all add: ret_act_def fail_act_def lift_act_def bind_act_def)

lemma bind_lift [simp]: "bind_act (lift_act (Inr x)) k = k x" "bind_act (ret_act x) k = k x"
  by (simp_all add: fun_eq_iff)


section \<open>Slices\<close>

text \<open>\<open>subslice off n xs\<close> reads \<open>n\<close> elements from \<open>off\<close>; \<open>blit off ys xs\<close> overwrites from \<open>off\<close>.\<close>

definition subslice :: "nat \<Rightarrow> nat \<Rightarrow> 'a list \<Rightarrow> 'a list" where
  "subslice off n xs = take n (drop off xs)"

definition blit :: "nat \<Rightarrow> 'a list \<Rightarrow> 'a list \<Rightarrow> 'a list" where
  "blit off ys xs = take off xs @ ys @ drop (off + length ys) xs"

lemma length_subslice [simp]: "off + n \<le> length xs \<Longrightarrow> length (subslice off n xs) = n"
  by (simp add: subslice_def)

lemma length_blit [simp]: "off + length ys \<le> length xs \<Longrightarrow> length (blit off ys xs) = length xs"
  by (simp add: blit_def)

lemma slice_0 [simp]: "subslice off 0 xs = []"
  by (simp add: subslice_def)

lemma blit_Nil [simp]: "blit off [] xs = xs"
  by (simp add: blit_def)

lemma nth_slice: "off + n \<le> length xs \<Longrightarrow> i < n \<Longrightarrow> subslice off n xs ! i = xs ! (off + i)"
  by (simp add: subslice_def)

lemma nth_blit:
  "off + length ys \<le> length xs \<Longrightarrow> i < length xs \<Longrightarrow>
   blit off ys xs ! i =
     (if off \<le> i \<and> i < off + length ys then ys ! (i - off) else xs ! i)"
  by (auto simp: blit_def nth_append)

lemma slice_blit_same: "off + length ys \<le> length xs \<Longrightarrow> subslice off (length ys) (blit off ys xs) = ys"
  by (simp add: subslice_def blit_def)

lemma slice_blit_disjoint:
  assumes "off + length ys \<le> length xs" "k + n \<le> length xs"
    and "k + n \<le> off \<or> off + length ys \<le> k"
  shows "subslice k n (blit off ys xs) = subslice k n xs"
  using assms by (intro nth_equalityI) (auto simp: nth_slice nth_blit)

section \<open>Lists of chunks\<close>

definition total_len :: "'a list list \<Rightarrow> nat" where
  "total_len cs = sum_list (map length cs)"

lemma total_len_simps [simp]:
  "total_len [] = 0" "total_len (c # cs) = length c + total_len cs" "total_len (cs @ ds) = total_len cs + total_len ds"
  by (simp_all add: total_len_def)

lemma total_len_take_le: "total_len (take k cs) \<le> total_len cs"
  using total_len_simps(3) [of "take k cs" "drop k cs"] by simp

end
