(* ===== verification/Rust_Str.thy ===== *)
theory Rust_Str
  imports Insomni_Prelude
begin

text \<open>
  What the crate uses of Rust's strings: a \<open>str\<close> is a list of Unicode scalar values (code points),
  stored as UTF-8. The theory models the conversions of the standard library the crate calls:
  \<open>str::as_bytes\<close>, \<open>str::from_utf8\<close>, integer \<open>Display\<close> and \<open>str::parse::<usize>\<close>, and
  proves that they are inverse to each other where the crate relies on it.
\<close>


section \<open>Strings of code points\<close>

type_synonym uchar = nat
type_synonym ustr = "nat list"

definition ch :: "char \<Rightarrow> uchar" where
  "ch c = of_char c"

definition lit :: "string \<Rightarrow> ustr" where
  "lit s = map ch s"

lemma lit_Nil [simp]: "lit [] = []"
  by (simp add: lit_def)

lemma lit_eq_Nil [simp]: "lit s = [] \<longleftrightarrow> s = []"
  by (simp add: lit_def)

lemma inj_ch: "inj ch"
  by (auto simp: inj_on_def ch_def of_char_eq_iff)

lemma lit_eq_iff [simp]: "lit s = lit t \<longleftrightarrow> s = t"
  by (simp add: lit_def inj_map_eq_map [OF inj_ch])

text \<open>A Rust \<open>char\<close> is a Unicode scalar value: any code point except the surrogates.\<close>

definition is_scalar :: "uchar \<Rightarrow> bool" where
  "is_scalar c \<longleftrightarrow> c < 0xD800 \<or> (0xE000 \<le> c \<and> c \<le> 0x10FFFF)"

definition str_ok :: "ustr \<Rightarrow> bool" where
  "str_ok s \<longleftrightarrow> list_all is_scalar s"

lemma ch_lt: "ch c < 256"
  by (simp add: ch_def)

lemma is_scalar_ch [simp]: "is_scalar (ch c)"
  using ch_lt [of c] by (simp add: is_scalar_def)

lemma str_ok_lit [simp]: "str_ok (lit s)"
  by (simp add: str_ok_def lit_def list_all_iff)

lemma str_ok_append [simp]: "str_ok (s @ t) \<longleftrightarrow> str_ok s \<and> str_ok t"
  by (simp add: str_ok_def)

lemma str_ok_Nil [simp]: "str_ok []"
  by (simp add: str_ok_def)

lemma str_ok_Cons [simp]: "str_ok (c # s) \<longleftrightarrow> is_scalar c \<and> str_ok s"
  by (simp add: str_ok_def)


section \<open>UTF-8\<close>

definition utf8_char :: "uchar \<Rightarrow> nat list" where
  "utf8_char c =
     (if c < 0x80 then [c]
      else if c < 0x800 then [0xC0 + c div 64, 0x80 + c mod 64]
      else if c < 0x10000 then [0xE0 + c div 4096, 0x80 + (c div 64) mod 64, 0x80 + c mod 64]
      else [0xF0 + c div 262144, 0x80 + (c div 4096) mod 64,
            0x80 + (c div 64) mod 64, 0x80 + c mod 64])"

definition as_bytes :: "ustr \<Rightarrow> bytes" where
  "as_bytes s = map of_nat (concat (map utf8_char s))"

definition is_cont :: "nat \<Rightarrow> bool" where
  "is_cont b \<longleftrightarrow> 0x80 \<le> b \<and> b \<le> 0xBF"

text \<open>
  The second byte of a three or four byte sequence is restricted so that overlong encodings,
  surrogates and values above \<open>0x10FFFF\<close> are refused.
\<close>

definition second_of_3 :: "nat \<Rightarrow> nat \<Rightarrow> bool" where
  "second_of_3 b0 b1 \<longleftrightarrow>
     (b0 = 0xE0 \<and> 0xA0 \<le> b1 \<and> b1 \<le> 0xBF) \<or>
     (0xE1 \<le> b0 \<and> b0 \<le> 0xEC \<and> is_cont b1) \<or>
     (b0 = 0xED \<and> 0x80 \<le> b1 \<and> b1 \<le> 0x9F) \<or>
     (0xEE \<le> b0 \<and> b0 \<le> 0xEF \<and> is_cont b1)"

definition second_of_4 :: "nat \<Rightarrow> nat \<Rightarrow> bool" where
  "second_of_4 b0 b1 \<longleftrightarrow>
     (b0 = 0xF0 \<and> 0x90 \<le> b1 \<and> b1 \<le> 0xBF) \<or>
     (0xF1 \<le> b0 \<and> b0 \<le> 0xF3 \<and> is_cont b1) \<or>
     (b0 = 0xF4 \<and> 0x80 \<le> b1 \<and> b1 \<le> 0x8F)"

fun utf8_dec :: "nat list \<Rightarrow> ustr option" where
  "utf8_dec [] = Some []"
| "utf8_dec (b0 # r) =
     (if b0 < 0x80 then map_option (Cons b0) (utf8_dec r)
      else if 0xC2 \<le> b0 \<and> b0 \<le> 0xDF then
        (case r of
           b1 # r1 \<Rightarrow>
             if is_cont b1
             then map_option (Cons ((b0 - 0xC0) * 64 + (b1 - 0x80))) (utf8_dec r1) else None
         | _ \<Rightarrow> None)
      else if 0xE0 \<le> b0 \<and> b0 \<le> 0xEF then
        (case r of
           b1 # b2 # r2 \<Rightarrow>
             if second_of_3 b0 b1 \<and> is_cont b2
             then map_option (Cons ((b0 - 0xE0) * 4096 + (b1 - 0x80) * 64 + (b2 - 0x80)))
                    (utf8_dec r2) else None
         | _ \<Rightarrow> None)
      else
        (case r of
           b1 # b2 # b3 # r3 \<Rightarrow>
             if second_of_4 b0 b1 \<and> is_cont b2 \<and> is_cont b3
             then map_option (Cons ((b0 - 0xF0) * 262144 + (b1 - 0x80) * 4096
                    + (b2 - 0x80) * 64 + (b3 - 0x80))) (utf8_dec r3) else None
         | _ \<Rightarrow> None))"

declare utf8_dec.simps(2) [simp del]

definition from_utf8 :: "bytes \<Rightarrow> ustr option" where
  "from_utf8 bs = utf8_dec (map unat bs)"

lemma utf8_char_bound: "is_scalar c \<Longrightarrow> b \<in> set (utf8_char c) \<Longrightarrow> b < 256"
  by (auto simp: utf8_char_def is_scalar_def split: if_splits)

lemma unat_of_nat_byte [simp]: "b < 256 \<Longrightarrow> unat (of_nat b :: 8 word) = b"
  by (simp add: unat_of_nat take_bit_eq_mod)

lemma unat_as_bytes: "str_ok s \<Longrightarrow> map unat (as_bytes s) = concat (map utf8_char s)"
proof -
  assume ok: "str_ok s"
  have "map (unat \<circ> (of_nat :: nat \<Rightarrow> 8 word)) (concat (map utf8_char s)) = concat (map utf8_char s)"
    using ok utf8_char_bound by (intro map_idI) (auto simp: str_ok_def list_all_iff)
  then show ?thesis by (simp add: as_bytes_def del: map_concat)
qed

text \<open>One sequence decodes back, whatever follows it: one lemma per length.\<close>

lemma utf8_dec_seq2:
  assumes "2 \<le> a" "a < 32" "b < 64"
  shows "utf8_dec ((0xC0 + a) # (0x80 + b) # r) = map_option (Cons (a * 64 + b)) (utf8_dec r)"
  using assms by (simp add: utf8_dec.simps is_cont_def)

lemma utf8_dec_seq3:
  assumes "a < 16" "b < 64" "d < 64" "a = 0 \<longrightarrow> 32 \<le> b" "a = 13 \<longrightarrow> b < 32"
  shows "utf8_dec ((0xE0 + a) # (0x80 + b) # (0x80 + d) # r) =
           map_option (Cons (a * 4096 + b * 64 + d)) (utf8_dec r)"
proof -
  have "second_of_3 (0xE0 + a) (0x80 + b)"
    using assms unfolding second_of_3_def is_cont_def by presburger
  then show ?thesis using assms by (simp add: utf8_dec.simps is_cont_def)
qed

lemma utf8_dec_seq4:
  assumes "a < 5" "b < 64" "d < 64" "e < 64" "a = 0 \<longrightarrow> 16 \<le> b" "a = 4 \<longrightarrow> b < 16"
  shows "utf8_dec ((0xF0 + a) # (0x80 + b) # (0x80 + d) # (0x80 + e) # r) =
           map_option (Cons (a * 262144 + b * 4096 + d * 64 + e)) (utf8_dec r)"
proof -
  have "second_of_4 (0xF0 + a) (0x80 + b)"
    using assms unfolding second_of_4_def is_cont_def by presburger
  then show ?thesis using assms by (simp add: utf8_dec.simps is_cont_def)
qed

text \<open>The base 64 digits of a number, as the encoder splits them.\<close>

lemma base64_3: "c div 4096 * 4096 + c div 64 mod 64 * 64 + c mod 64 = (c::nat)"
  using div_mult_mod_eq [of c 64] div_mult_mod_eq [of "c div 64" 64]
  unfolding div_mult2_eq [of c 64 64, simplified] by linarith

lemma base64_4:
  "c div 262144 * 262144 + c div 4096 mod 64 * 4096 + c div 64 mod 64 * 64 + c mod 64 = (c::nat)"
  using base64_3 [of c] div_mult_mod_eq [of "c div 4096" 64]
  unfolding div_mult2_eq [of c 4096 64, simplified] by linarith

lemma utf8_dec_char:
  assumes "is_scalar c"
  shows "utf8_dec (utf8_char c @ r) = map_option (Cons c) (utf8_dec r)"
proof -
  consider (one) "c < 0x80" | (two) "0x80 \<le> c" "c < 0x800" | (three) "0x800 \<le> c" "c < 0x10000"
    | (four) "0x10000 \<le> c" "c \<le> 0x10FFFF"
    using assms unfolding is_scalar_def by linarith
  then show ?thesis
  proof cases
    case one
    then show ?thesis by (simp add: utf8_char_def utf8_dec.simps)
  next
    case two
    have "c div 64 * 64 + c mod 64 = c" by simp
    moreover have "2 \<le> c div 64" "c div 64 < 32" using two by auto
    ultimately show ?thesis
      using two utf8_dec_seq2 [of "c div 64" "c mod 64" r] by (simp add: utf8_char_def)
  next
    case three
    define a b d where abd: "a = c div 4096" "b = c div 64 mod 64" "d = c mod 64"
    have eq: "a * 4096 + b * 64 + d = c" by (simp only: abd base64_3)
    have bd: "b < 64" "d < 64" by (simp_all add: abd)
    have a: "a < 16" using three eq by linarith
    have lo: "a = 0 \<longrightarrow> 32 \<le> b"
    proof
      assume "a = 0"
      then show "32 \<le> b" using three(1) eq bd by linarith
    qed
    have sur: "a = 13 \<longrightarrow> b < 32"
    proof
      assume "a = 13"
      moreover from assms have "c < 55296 \<or> 57344 \<le> c" by (auto simp: is_scalar_def)
      ultimately show "b < 32" using eq bd by linarith
    qed
    from three have "utf8_char c = [0xE0 + a, 0x80 + b, 0x80 + d]"
      by (simp add: utf8_char_def abd)
    then show ?thesis using utf8_dec_seq3 [OF a bd lo sur, of r] eq by simp
  next
    case four
    define a b d e where abd: "a = c div 262144" "b = c div 4096 mod 64"
      "d = c div 64 mod 64" "e = c mod 64"
    have eq: "a * 262144 + b * 4096 + d * 64 + e = c" by (simp only: abd base64_4)
    have bd: "b < 64" "d < 64" "e < 64" by (simp_all add: abd)
    have a: "a < 5" using four eq by linarith
    have lo: "a = 0 \<longrightarrow> 16 \<le> b"
    proof
      assume "a = 0"
      then show "16 \<le> b" using four(1) eq bd by linarith
    qed
    have hi: "a = 4 \<longrightarrow> b < 16"
    proof
      assume "a = 4"
      then show "b < 16" using four(2) eq bd by linarith
    qed
    from four have "utf8_char c = [0xF0 + a, 0x80 + b, 0x80 + d, 0x80 + e]"
      by (simp add: utf8_char_def abd)
    then show ?thesis using utf8_dec_seq4 [OF a bd lo hi, of r] eq by simp
  qed
qed

lemma utf8_dec_encode: "str_ok s \<Longrightarrow> utf8_dec (concat (map utf8_char s)) = Some s"
  by (induction s) (auto simp: utf8_dec_char)

theorem from_utf8_as_bytes: "str_ok s \<Longrightarrow> from_utf8 (as_bytes s) = Some s"
  by (simp add: from_utf8_def unat_as_bytes utf8_dec_encode)

lemma length_as_bytes: "length (as_bytes s) = sum_list (map (\<lambda>c. length (utf8_char c)) s)"
  by (simp add: as_bytes_def length_concat comp_def)

text \<open>
  Conversely, whatever decodes is the encoding of a list of scalar values: no overlong form, no
  surrogate and no value above \<open>0x10FFFF\<close> is accepted.
\<close>

lemma mod64: "e < 64 \<Longrightarrow> (y * 64 + e) mod 64 = (e::nat)"
  by simp

lemma div64: "e < 64 \<Longrightarrow> (y * 64 + e) div 64 = (y::nat)"
  by simp

lemma utf8_char_seq2:
  "2 \<le> a \<Longrightarrow> a < 32 \<Longrightarrow> b < 64 \<Longrightarrow> utf8_char (a * 64 + b) = [0xC0 + a, 0x80 + b]"
  by (simp add: utf8_char_def)

lemma utf8_char_seq3:
  assumes "a < 16" "b < 64" "d < 64" "a = 0 \<longrightarrow> 32 \<le> b"
  shows "utf8_char (a * 4096 + b * 64 + d) = [0xE0 + a, 0x80 + b, 0x80 + d]"
proof -
  define x where "x = (a * 64 + b) * 64 + d"
  have "x div 64 = a * 64 + b" "x mod 64 = d" "x div 4096 = a"
    unfolding x_def div_mult2_eq [of _ 64 64, simplified]
    by (simp_all only: mod64 div64 assms)
  moreover have "\<not> x < 0x800" "x < 0x10000" using assms by (auto simp: x_def)
  ultimately have "utf8_char x = [0xE0 + a, 0x80 + b, 0x80 + d]"
    using assms(2) by (simp add: utf8_char_def)
  then show ?thesis by (simp add: x_def algebra_simps)
qed

lemma utf8_char_seq4:
  assumes "a < 5" "b < 64" "d < 64" "e < 64" "a = 0 \<longrightarrow> 16 \<le> b"
  shows "utf8_char (a * 262144 + b * 4096 + d * 64 + e) =
           [0xF0 + a, 0x80 + b, 0x80 + d, 0x80 + e]"
proof -
  define x where "x = ((a * 64 + b) * 64 + d) * 64 + e"
  have "x div 64 mod 64 = d" "x mod 64 = e" "x div 4096 mod 64 = b" "x div 262144 = a"
    unfolding x_def div_mult2_eq [of _ 4096 64, simplified] div_mult2_eq [of _ 64 64, simplified]
    by (simp_all only: mod64 div64 assms)
  moreover have "\<not> x < 0x10000" using assms by (auto simp: x_def)
  ultimately have "utf8_char x = [0xF0 + a, 0x80 + b, 0x80 + d, 0x80 + e]"
    by (simp add: utf8_char_def)
  then show ?thesis by (simp add: x_def algebra_simps)
qed

definition utf8_inv :: "nat list \<Rightarrow> ustr \<Rightarrow> bool" where
  "utf8_inv ns s \<longleftrightarrow> str_ok s \<and> concat (map utf8_char s) = ns"

lemma utf8_inv_Cons:
  "utf8_inv r s \<Longrightarrow> is_scalar c \<Longrightarrow> ns = utf8_char c @ r \<Longrightarrow> utf8_inv ns (c # s)"
  by (simp add: utf8_inv_def)

lemma utf8_inv_seq2:
  assumes "utf8_inv r s" "0xC2 \<le> b0" "b0 \<le> 0xDF" "is_cont b1"
  shows "utf8_inv (b0 # b1 # r) (((b0 - 0xC0) * 64 + (b1 - 0x80)) # s)"
proof (rule utf8_inv_Cons [OF assms(1)])
  let ?c = "(b0 - 0xC0) * 64 + (b1 - 0x80)"
  have "?c \<le> 31 * 64 + 63"
    using assms(2-) by (intro add_mono mult_mono) (auto simp: is_cont_def)
  then show "is_scalar ?c" by (simp add: is_scalar_def)
  show "b0 # b1 # r = utf8_char ?c @ r"
    using assms(2-) by (subst utf8_char_seq2) (auto simp: is_cont_def)
qed

lemma utf8_inv_seq3:
  assumes "utf8_inv r s" "second_of_3 b0 b1" "is_cont b2"
  shows "utf8_inv (b0 # b1 # b2 # r)
           (((b0 - 0xE0) * 4096 + (b1 - 0x80) * 64 + (b2 - 0x80)) # s)"
proof (rule utf8_inv_Cons [OF assms(1)])
  let ?a = "b0 - 0xE0" and ?b = "b1 - 0x80" and ?d = "b2 - 0x80"
  have b: "?a < 16" "?b < 64" "?d < 64" "?a = 0 \<longrightarrow> 32 \<le> ?b" "?a = 13 \<longrightarrow> ?b < 32"
    and ge: "0xE0 \<le> b0" "0x80 \<le> b1" "0x80 \<le> b2"
    using assms(2,3) by (auto simp: second_of_3_def is_cont_def)
  show "is_scalar (?a * 4096 + ?b * 64 + ?d)"
  proof (cases "?a \<le> 13")
    case True
    then have "?a * 4096 + ?b * 64 + ?d < 0xD800"
      using b by (cases "?a = 13") linarith+
    then show ?thesis by (simp add: is_scalar_def)
  next
    case False
    then show ?thesis using b unfolding is_scalar_def by linarith
  qed
  show "b0 # b1 # b2 # r = utf8_char (?a * 4096 + ?b * 64 + ?d) @ r"
    unfolding utf8_char_seq3 [OF b(1-4)] using ge by simp
qed

lemma utf8_inv_seq4:
  assumes "utf8_inv r s" "second_of_4 b0 b1" "is_cont b2" "is_cont b3"
  shows "utf8_inv (b0 # b1 # b2 # b3 # r)
           (((b0 - 0xF0) * 262144 + (b1 - 0x80) * 4096 + (b2 - 0x80) * 64 + (b3 - 0x80)) # s)"
proof (rule utf8_inv_Cons [OF assms(1)])
  let ?a = "b0 - 0xF0" and ?b = "b1 - 0x80" and ?d = "b2 - 0x80" and ?e = "b3 - 0x80"
  have b: "?a < 5" "?b < 64" "?d < 64" "?e < 64" "?a = 0 \<longrightarrow> 16 \<le> ?b" "?a = 4 \<longrightarrow> ?b < 16"
    and ge: "0xF0 \<le> b0" "0x80 \<le> b1" "0x80 \<le> b2" "0x80 \<le> b3"
    using assms(2-) by (auto simp: second_of_4_def is_cont_def)
  have lo: "0xE000 \<le> ?a * 262144 + ?b * 4096 + ?d * 64 + ?e"
    using b by (cases "?a = 0") linarith+
  have hi: "?a * 262144 + ?b * 4096 + ?d * 64 + ?e \<le> 0x10FFFF"
    using b by (cases "?a = 4") linarith+
  from lo hi show "is_scalar (?a * 262144 + ?b * 4096 + ?d * 64 + ?e)"
    by (simp add: is_scalar_def)
  show "b0 # b1 # b2 # b3 # r = utf8_char (?a * 262144 + ?b * 4096 + ?d * 64 + ?e) @ r"
    unfolding utf8_char_seq4 [OF b(1-5)] using ge by simp
qed

lemma utf8_dec_inv: "utf8_dec ns = Some s \<Longrightarrow> utf8_inv ns s"
proof (induction ns arbitrary: s rule: utf8_dec.induct)
  case 1
  then show ?case by (simp add: utf8_inv_def)
next
  case (2 b0 r)
  consider (one) "b0 < 0x80" | (two) "\<not> b0 < 0x80" "0xC2 \<le> b0 \<and> b0 \<le> 0xDF"
    | (three) "\<not> b0 < 0x80" "\<not> (0xC2 \<le> b0 \<and> b0 \<le> 0xDF)" "0xE0 \<le> b0 \<and> b0 \<le> 0xEF"
    | (four) "\<not> b0 < 0x80" "\<not> (0xC2 \<le> b0 \<and> b0 \<le> 0xDF)" "\<not> (0xE0 \<le> b0 \<and> b0 \<le> 0xEF)"
    by blast
  then show ?case
  proof cases
    case one
    then obtain s' where "utf8_dec r = Some s'" "s = b0 # s'"
      using "2.prems" by (auto simp: utf8_dec.simps)
    then show ?thesis
      using one "2.IH"(1) by (auto intro!: utf8_inv_Cons simp: is_scalar_def utf8_char_def)
  next
    case two
    with "2.prems" obtain b1 r1 s' where "r = b1 # r1" "is_cont b1" "utf8_dec r1 = Some s'"
      and s: "s = ((b0 - 0xC0) * 64 + (b1 - 0x80)) # s'"
      by (auto simp: utf8_dec.simps split: list.splits if_splits)
    then show ?thesis using two "2.IH"(2) utf8_inv_seq2 by blast
  next
    case three
    with "2.prems" obtain b1 b2 r2 s' where "r = b1 # b2 # r2" "second_of_3 b0 b1" "is_cont b2"
      "utf8_dec r2 = Some s'" and s: "s = ((b0 - 0xE0) * 4096 + (b1 - 0x80) * 64 + (b2 - 0x80)) # s'"
      by (auto simp: utf8_dec.simps split: list.splits if_splits)
    then show ?thesis using three "2.IH"(3) utf8_inv_seq3 by blast
  next
    case four
    with "2.prems" obtain b1 b2 b3 r3 s' where "r = b1 # b2 # b3 # r3" "second_of_4 b0 b1"
      "is_cont b2" "is_cont b3" "utf8_dec r3 = Some s'"
      and s: "s = ((b0 - 0xF0) * 262144 + (b1 - 0x80) * 4096 + (b2 - 0x80) * 64 + (b3 - 0x80)) # s'"
      by (auto simp: utf8_dec.simps split: list.splits if_splits)
    then show ?thesis using four "2.IH"(4) utf8_inv_seq4 by blast
  qed
qed

theorem as_bytes_from_utf8:
  assumes "from_utf8 bs = Some s"
  shows "str_ok s \<and> as_bytes s = bs"
proof -
  from assms have "utf8_inv (map unat bs) s"
    unfolding from_utf8_def by (rule utf8_dec_inv)
  then have ok: "str_ok s" and "map unat (as_bytes s) = map unat bs"
    by (auto simp: utf8_inv_def unat_as_bytes)
  moreover have "inj (unat :: 8 word \<Rightarrow> nat)" by (rule injI) (simp add: word_unat_eq_iff)
  ultimately have "as_bytes s = bs" by (simp add: inj_map_eq_map)
  with ok show ?thesis by simp
qed

end
