(* ===== verification/Rust_Num.thy ===== *)
theory Rust_Num
  imports Rust_Str
begin

text \<open>
  What the crate uses of Rust's number formatting: integer \<open>Display\<close>, \<open>bool\<close>'s \<open>Display\<close>
  and \<open>str::parse::<usize>\<close>. The decimal rendering is injective and parses back, which the
  backup names of the rotating sink and the width field of the pattern formatter rest on.
\<close>

section \<open>Decimal rendering\<close>

fun show_nat :: "nat \<Rightarrow> ustr" where
  "show_nat n = (if n < 10 then [48 + n] else show_nat (n div 10) @ [48 + n mod 10])"

declare show_nat.simps [simp del]

definition show_int :: "int \<Rightarrow> ustr" where
  "show_int i = (if i < 0 then ch (CHR ''-'') # show_nat (nat (- i)) else show_nat (nat i))"

definition show_bool :: "bool \<Rightarrow> ustr" where
  "show_bool b = (if b then lit ''true'' else lit ''false'')"

definition is_digit :: "uchar \<Rightarrow> bool" where
  "is_digit c \<longleftrightarrow> 48 \<le> c \<and> c \<le> 57"

fun digits_val :: "nat \<Rightarrow> ustr \<Rightarrow> nat" where
  "digits_val acc [] = acc"
| "digits_val acc (c # cs) = digits_val (acc * 10 + (c - 48)) cs"

lemma digits_val_append: "digits_val acc (s @ t) = digits_val (digits_val acc s) t"
  by (induction s arbitrary: acc) auto

lemma digits_val_show_nat: "digits_val 0 (show_nat n) = n"
proof (induction n rule: show_nat.induct)
  case (1 n)
  show ?case
  proof (cases "n < 10")
    case True
    then show ?thesis by (simp add: show_nat.simps [of n])
  next
    case False
    then have "digits_val 0 (show_nat (n div 10)) = n div 10" by (rule 1)
    with False show ?thesis by (simp add: show_nat.simps [of n] digits_val_append)
  qed
qed

lemma show_nat_inj [simp]: "show_nat m = show_nat n \<longleftrightarrow> m = n"
  by (metis digits_val_show_nat)

lemma show_nat_digits: "list_all is_digit (show_nat n)"
proof (induction n rule: show_nat.induct)
  case (1 n)
  then show ?case
    by (cases "n < 10") (simp_all add: show_nat.simps [of n] is_digit_def)
qed

lemma show_nat_nonempty [simp]: "show_nat n \<noteq> []"
  by (subst show_nat.simps) simp

lemma str_ok_show_nat [simp]: "str_ok (show_nat n)"
  using show_nat_digits [of n]
  by (auto simp: str_ok_def list_all_iff is_digit_def is_scalar_def)


section \<open>\<open>str::parse::<usize>\<close>\<close>

text \<open>
  The accumulator is multiplied by ten and the digit added with overflow checks; any character
  that is not an ASCII digit refuses the whole string.
\<close>

fun parse_digits :: "nat \<Rightarrow> ustr \<Rightarrow> nat option" where
  "parse_digits acc [] = Some acc"
| "parse_digits acc (c # cs) =
     (if is_digit c then
        (if acc * 10 + (c - 48) < 2 ^ 64 then parse_digits (acc * 10 + (c - 48)) cs else None)
      else None)"

text \<open>One leading plus sign is accepted, a lone sign is not, a minus sign never is.\<close>

definition parse_usize :: "ustr \<Rightarrow> nat option" where
  "parse_usize s =
     (case s of
        [] \<Rightarrow> None
      | c # cs \<Rightarrow>
          if c = ch (CHR ''+'') then (if cs = [] then None else parse_digits 0 cs)
          else parse_digits 0 s)"

lemma digits_val_mono: "acc \<le> digits_val acc s"
proof (induction s arbitrary: acc)
  case (Cons c s)
  have "acc \<le> acc * 10 + (c - 48)" by simp
  also have "\<dots> \<le> digits_val acc (c # s)" using Cons by simp
  finally show ?case .
qed simp

lemma parse_digits_eq:
  "acc < 2 ^ 64 \<Longrightarrow> parse_digits acc s =
     (if list_all is_digit s \<and> digits_val acc s < 2 ^ 64 then Some (digits_val acc s) else None)"
proof (induction s arbitrary: acc)
  case (Cons c s)
  let ?acc = "acc * 10 + (c - 48)"
  have "?acc \<le> digits_val ?acc s" by (rule digits_val_mono)
  then show ?case
    using Cons.IH [of ?acc] by (cases "?acc < 2 ^ 64") auto
qed simp

lemma parse_usize_bound: "parse_usize s = Some n \<Longrightarrow> n < 2 ^ 64"
  by (auto simp: parse_usize_def parse_digits_eq split: list.splits if_splits)

lemma not_digit_plus [simp]: "\<not> is_digit (ch (CHR ''+''))"
  by (simp add: is_digit_def ch_def)

theorem parse_show_nat: "n < 2 ^ 64 \<Longrightarrow> parse_usize (show_nat n) = Some n"
proof -
  assume n: "n < 2 ^ 64"
  obtain c cs where s: "show_nat n = c # cs" by (cases "show_nat n") auto
  then have "c \<noteq> ch (CHR ''+'')"
    using show_nat_digits [of n] not_digit_plus by (auto simp del: not_digit_plus)
  then have "parse_usize (show_nat n) = parse_digits 0 (show_nat n)"
    by (simp add: parse_usize_def s)
  then show ?thesis
    using n by (simp add: parse_digits_eq show_nat_digits digits_val_show_nat)
qed

end
