(* ===== verification/Wire_Bytes.thy ===== *)
theory Wire_Bytes
  imports Rust_Num
begin

text \<open>
  \<open>to_ne_bytes\<close> and \<open>from_ne_bytes\<close> of the fixed-width integers, as the codec uses them.
  The byte order is the target's.
\<close>

fun le_bytes :: "nat \<Rightarrow> nat \<Rightarrow> bytes" where
  "le_bytes 0 x = []"
| "le_bytes (Suc k) x = of_nat (x mod 256) # le_bytes k (x div 256)"

fun le_nat :: "bytes \<Rightarrow> nat" where
  "le_nat [] = 0"
| "le_nat (b # bs) = unat b + 256 * le_nat bs"

definition reorder :: "endianness \<Rightarrow> 'a list \<Rightarrow> 'a list" where
  "reorder e bs = (case e of Little \<Rightarrow> bs | Big \<Rightarrow> rev bs)"

text \<open>\<open>k\<close> is \<open>size_of\<close> of the integer type.\<close>

definition to_ne :: "endianness \<Rightarrow> nat \<Rightarrow> 'a::len word \<Rightarrow> bytes" where
  "to_ne e k w = reorder e (le_bytes k (unat w))"

definition from_ne :: "endianness \<Rightarrow> bytes \<Rightarrow> 'a::len word" where
  "from_ne e bs = of_nat (le_nat (reorder e bs))"

lemma length_le_bytes [simp]: "length (le_bytes k x) = k"
  by (induction k arbitrary: x) auto

lemma length_reorder [simp]: "length (reorder e bs) = length bs"
  by (cases e) (simp_all add: reorder_def)

lemma reorder_reorder [simp]: "reorder e (reorder e bs) = bs"
  by (cases e) (simp_all add: reorder_def)

lemma length_to_ne [simp]: "length (to_ne e k w) = k"
  by (simp add: to_ne_def)

lemma le_nat_le_bytes: "le_nat (le_bytes k x) = x mod 256 ^ k"
proof (induction k arbitrary: x)
  case (Suc k)
  have "x mod (256 * 256 ^ k) = 256 * (x div 256 mod 256 ^ k) + x mod 256"
    by (rule mod_mult2_eq)
  with Suc show ?case by simp
qed simp

theorem from_ne_to_ne:
  "LENGTH('a) = 8 * k \<Longrightarrow> from_ne e (to_ne e k w) = (w :: 'a::len word)"
proof -
  assume len: "LENGTH('a) = 8 * k"
  have "(256::nat) ^ k = 2 ^ LENGTH('a)" by (simp add: len power_mult)
  then have "unat w mod 256 ^ k = unat w" using unsigned_less [of w, where ?'a = nat] by simp
  then show ?thesis by (simp add: from_ne_def to_ne_def le_nat_le_bytes)
qed

lemma le_nat_bound: "le_nat bs < 256 ^ length bs"
proof (induction bs)
  case (Cons b bs)
  have "unat b < 256" using unsigned_less [of b, where ?'a = nat] by simp
  with Cons have "unat b + 256 * le_nat bs < 256 * 256 ^ length bs" by linarith
  then show ?case by simp
qed simp

lemma le_bytes_le_nat: "le_bytes (length bs) (le_nat bs) = bs"
proof (induction bs)
  case (Cons b bs)
  have "unat b < 256" using unsigned_less [of b, where ?'a = nat] by simp
  with Cons show ?case by simp
qed simp

theorem to_ne_from_ne:
  "LENGTH('a) = 8 * length bs \<Longrightarrow> to_ne e (length bs) (from_ne e bs :: 'a::len word) = bs"
proof -
  assume len: "LENGTH('a) = 8 * length bs"
  have "(256::nat) ^ length bs = 2 ^ LENGTH('a)" by (simp add: len power_mult)
  moreover have "le_nat (reorder e bs) < 256 ^ length bs" using le_nat_bound [of "reorder e bs"] by simp
  ultimately have "unat (from_ne e bs :: 'a word) = le_nat (reorder e bs)"
    by (simp add: from_ne_def unat_of_nat take_bit_eq_mod)
  then show ?thesis using le_bytes_le_nat [of "reorder e bs"] by (simp add: to_ne_def)
qed

lemma to_ne_from_ne_len:
  "length bs = k \<Longrightarrow> LENGTH('a) = 8 * k \<Longrightarrow> to_ne e k (from_ne e bs :: 'a::len word) = bs"
  using to_ne_from_ne [of bs e] by simp

lemma from_ne_to_ne_sizes [simp]:
  "from_ne e (to_ne e 1 (w8 :: 8 word)) = w8"
  "from_ne e (to_ne e (Suc 0) w8) = w8"
  "from_ne e (to_ne e 2 (w16 :: 16 word)) = w16"
  "from_ne e (to_ne e 4 (w32 :: 32 word)) = w32"
  "from_ne e (to_ne e 8 (w64 :: 64 word)) = w64"
  "from_ne e (to_ne e 16 (w128 :: 128 word)) = w128"
  by (simp_all add: from_ne_to_ne)

end
