(* ===== verification/Chunk_Fifo.thy ===== *)
theory Chunk_Fifo
  imports Insomni_Prelude
begin

text \<open>
  The interface the rest of the library relies on: a bounded FIFO of byte chunks. A client writes
  a chunk, peeks at a prefix of the oldest one and reads the oldest one whole; it may not split or
  merge chunks (the read granularity invariant of \<open>queue.rs\<close>). The locale states the laws, and
  from them that every sequence of operations behaves like the obvious list queue; \<open>Byte_Queue\<close>
  interprets it on the ring buffer.
\<close>

section \<open>Sequences of operations and their specification\<close>

datatype queue_op = OpWrite bytes | OpPeek nat | OpRead nat

datatype 'e queue_obs = ObsWritten | ObsRefused 'e | ObsBytes bytes

text \<open>
  The specification: a list of chunks of at most \<open>c\<close> bytes in all. \<open>None\<close> is a client that breaks
  the granularity rule, by peeking past the oldest chunk or by reading another length.
\<close>

fun spec_run :: "'e \<Rightarrow> 'e \<Rightarrow> nat \<Rightarrow> bytes list \<Rightarrow> queue_op list \<Rightarrow> ('e queue_obs list \<times> bytes list) option"
  where
  "spec_run over full c cs [] = Some ([], cs)"
| "spec_run over full c cs (OpWrite d # ops) =
     (if \<not> length d < 2 ^ 64 then None
      else if c < length d then
        map_option (apfst (Cons (ObsRefused over))) (spec_run over full c cs ops)
      else if c < total_len cs + length d then
        map_option (apfst (Cons (ObsRefused full))) (spec_run over full c cs ops)
      else map_option (apfst (Cons ObsWritten)) (spec_run over full c (cs @ [d]) ops))"
| "spec_run over full c cs (OpPeek n # ops) =
     (case cs of
        [] \<Rightarrow> None
      | d # _ \<Rightarrow> if n \<le> length d
                 then map_option (apfst (Cons (ObsBytes (take n d)))) (spec_run over full c cs ops)
                 else None)"
| "spec_run over full c cs (OpRead n # ops) =
     (case cs of
        [] \<Rightarrow> None
      | d # ds \<Rightarrow> if n = length d
                  then map_option (apfst (Cons (ObsBytes d))) (spec_run over full c ds ops)
                  else None)"

text \<open>The same sequence on an implementation given by its three operations.\<close>

fun fifo_run :: "(bytes \<Rightarrow> 's \<Rightarrow> fault + ('e + unit) \<times> 's) \<Rightarrow> (nat \<Rightarrow> 's \<Rightarrow> fault + bytes \<times> 's) \<Rightarrow>
    (nat \<Rightarrow> 's \<Rightarrow> fault + bytes \<times> 's) \<Rightarrow> 's \<Rightarrow> queue_op list \<Rightarrow> fault + 'e queue_obs list \<times> 's" where
  "fifo_run enq pk deq s [] = Inr ([], s)"
| "fifo_run enq pk deq s (OpWrite d # ops) =
     rbind (enq d s) (\<lambda>(r, s'). rbind (fifo_run enq pk deq s' ops) (\<lambda>(os, s'').
       Inr ((case r of Inl e \<Rightarrow> ObsRefused e | Inr _ \<Rightarrow> ObsWritten) # os, s'')))"
| "fifo_run enq pk deq s (OpPeek n # ops) =
     rbind (pk n s) (\<lambda>(b, s'). rbind (fifo_run enq pk deq s' ops) (\<lambda>(os, s'').
       Inr (ObsBytes b # os, s'')))"
| "fifo_run enq pk deq s (OpRead n # ops) =
     rbind (deq n s) (\<lambda>(b, s'). rbind (fifo_run enq pk deq s' ops) (\<lambda>(os, s'').
       Inr (ObsBytes b # os, s'')))"


section \<open>The interface\<close>

locale chunk_fifo =
  fixes rel :: "'s \<Rightarrow> bytes list \<Rightarrow> bool"
    and cap :: "'s \<Rightarrow> nat"
    and enq :: "bytes \<Rightarrow> 's \<Rightarrow> fault + ('e + unit) \<times> 's"
    and pk :: "nat \<Rightarrow> 's \<Rightarrow> fault + bytes \<times> 's"
    and deq :: "nat \<Rightarrow> 's \<Rightarrow> fault + bytes \<times> 's"
    and avail :: "'s \<Rightarrow> nat \<times> 's"
    and over :: 'e
    and full :: 'e
  assumes enq_over: "rel s cs \<Longrightarrow> length d < 2 ^ 64 \<Longrightarrow> cap s < length d \<Longrightarrow>
            \<exists>s'. enq d s = Inr (Inl over, s') \<and> rel s' cs \<and> cap s' = cap s"
    and enq_full: "rel s cs \<Longrightarrow> length d < 2 ^ 64 \<Longrightarrow> length d \<le> cap s \<Longrightarrow>
            cap s < total_len cs + length d \<Longrightarrow>
            \<exists>s'. enq d s = Inr (Inl full, s') \<and> rel s' cs \<and> cap s' = cap s"
    and enq_ok: "rel s cs \<Longrightarrow> length d < 2 ^ 64 \<Longrightarrow> total_len cs + length d \<le> cap s \<Longrightarrow>
            \<exists>s'. enq d s = Inr (Inr (), s') \<and> rel s' (cs @ [d]) \<and> cap s' = cap s"
    and pk_head: "rel s (d # ds) \<Longrightarrow> n \<le> length d \<Longrightarrow>
            \<exists>s'. pk n s = Inr (take n d, s') \<and> rel s' (d # ds) \<and> cap s' = cap s"
    and deq_head: "rel s (d # ds) \<Longrightarrow>
            \<exists>s'. deq (length d) s = Inr (d, s') \<and> rel s' ds \<and> cap s' = cap s"
    and avail_spec: "rel s cs \<Longrightarrow>
            \<exists>n s'. avail s = (n, s') \<and> rel s' cs \<and> cap s' = cap s \<and>
                   (n = 0 \<longleftrightarrow> total_len cs = 0)"
    and rel_cap: "rel s cs \<Longrightarrow> total_len cs \<le> cap s"
begin

text \<open>Every disciplined sequence of operations is the list queue's.\<close>

lemma run_refines:
  assumes "rel s cs" "spec_run over full (cap s) cs ops = Some (os, cs')"
  shows "\<exists>s'. fifo_run enq pk deq s ops = Inr (os, s') \<and> rel s' cs' \<and> cap s' = cap s"
  using assms
proof (induction ops arbitrary: s cs os)
  case Nil
  then show ?case by auto
next
  case (Cons x ops)
  show ?case
  proof (cases x)
    case (OpWrite d)
    note prem = Cons.prems(2) [unfolded OpWrite]
    have len: "length d < 2 ^ 64" using prem by (auto split: if_splits)
    consider "cap s < length d" | "length d \<le> cap s" "cap s < total_len cs + length d"
      | "total_len cs + length d \<le> cap s" by linarith
    then obtain o1 os' cs1 s1 r where step: "enq d s = Inr (r, s1)" "rel s1 cs1" "cap s1 = cap s"
      "spec_run over full (cap s) cs1 ops = Some (os', cs')" "os = o1 # os'"
      "o1 = (case r of Inl e \<Rightarrow> ObsRefused e | Inr _ \<Rightarrow> ObsWritten)"
    proof cases
      case 1
      with prem enq_over [OF Cons.prems(1) len] that show thesis by (fastforce split: if_splits)
    next
      case 2
      with prem enq_full [OF Cons.prems(1) len] that show thesis by (fastforce split: if_splits)
    next
      case 3
      with prem enq_ok [OF Cons.prems(1) len] that show thesis by (fastforce split: if_splits)
    qed
    then show ?thesis using Cons.IH [of s1 cs1 os'] OpWrite by auto
  next
    case (OpPeek n)
    with Cons.prems(2) obtain d ds os' where "cs = d # ds" "n \<le> length d"
      "spec_run over full (cap s) cs ops = Some (os', cs')" "os = ObsBytes (take n d) # os'"
      by (auto split: list.splits if_splits)
    then show ?thesis
      using pk_head [of s d ds n] Cons.prems(1) Cons.IH [of _ cs os'] OpPeek by fastforce
  next
    case (OpRead n)
    with Cons.prems(2) obtain d ds os' where "cs = d # ds" "n = length d"
      "spec_run over full (cap s) ds ops = Some (os', cs')" "os = ObsBytes d # os'"
      by (auto split: list.splits if_splits)
    then show ?thesis
      using deq_head [of s d ds] Cons.prems(1) Cons.IH [of _ ds os'] OpRead by fastforce
  qed
qed

text \<open>Chunks written one after the other are read back whole and in order.\<close>

lemma fifo_roundtrip:
  assumes "rel s cs" "\<forall>d\<in>set ds. length d < 2 ^ 64" "total_len cs + total_len ds \<le> cap s"
  shows "\<exists>s'. fifo_run enq pk deq s
           (map OpWrite ds @ map (OpRead \<circ> length) (cs @ ds))
         = Inr (map (\<lambda>_. ObsWritten) ds @ map ObsBytes (cs @ ds), s') \<and> rel s' [] \<and> cap s' = cap s"
proof -
  have reads: "spec_run over full c xs (map (OpRead \<circ> length) xs) = Some (map ObsBytes xs, [])" for c xs
    by (induction xs) auto
  have "spec_run over full (cap s) cs (map OpWrite ds @ map (OpRead \<circ> length) (cs @ ds)) =
      Some (map (\<lambda>_. ObsWritten) ds @ map ObsBytes (cs @ ds), [])"
    using assms(2,3)
  proof (induction ds arbitrary: cs)
    case Nil
    then show ?case using reads by (simp add: comp_def)
  next
    case (Cons d ds)
    have "spec_run over full (cap s) (cs @ [d]) (map OpWrite ds @ map (OpRead \<circ> length) ((cs @ [d]) @ ds))
        = Some (map (\<lambda>_. ObsWritten) ds @ map ObsBytes ((cs @ [d]) @ ds), [])"
      using Cons.prems by (intro Cons.IH) auto
    then show ?case using Cons.prems by (simp add: comp_def)
  qed
  then show ?thesis by (rule run_refines [OF assms(1)])
qed

end

end
