(* ===== verification/Byte_Queue.thy ===== *)
theory Byte_Queue
  imports Wire_Bytes Chunk_Fifo
begin

unbundle bit_operations_syntax

text \<open>
  \<open>queue.rs\<close>: the bounded single-producer single-consumer byte queue. The shared state holds the
  ring buffer (allocated at twice the capacity) and the two published positions; each half keeps
  its own position and a cached copy of the other's. Positions are 64-bit words and wrap. This
  theory models every operation as a function on that state and proves that, used by one thread at
  a time, the queue implements a bounded FIFO of chunks; \<open>Spsc\<close> adds the interleaving.
\<close>

section \<open>State\<close>

datatype write_error = OversizedWrite | QueueFull

record queue_inner =
  buf :: bytes
  capacity :: usize
  pos_mask :: usize
  write_pos :: usize
  read_pos :: usize

record producer =
  cached_read :: usize
  p_write :: usize

record consumer =
  cached_write :: usize
  c_read :: usize


section \<open>Checked arithmetic\<close>

definition sub_chk :: "target \<Rightarrow> usize \<Rightarrow> usize \<Rightarrow> fault + usize" where
  "sub_chk T a b = (if checks T \<and> a < b then Inl PanicOverflow else Inr (a - b))"

definition mul_chk :: "target \<Rightarrow> usize \<Rightarrow> usize \<Rightarrow> fault + usize" where
  "mul_chk T a b =
     (if checks T \<and> 2 ^ 64 \<le> unat a * unat b then Inl PanicOverflow else Inr (a * b))"

text \<open>
  \<open>usize::next_power_of_two\<close>: with overflow checks it panics when the result does not fit, without
  them it returns 0.
\<close>

function pow2_from :: "nat \<Rightarrow> nat \<Rightarrow> nat" where
  "pow2_from p n = (if 0 < p \<and> p < n then pow2_from (2 * p) n else p)"
  by pat_completeness auto
termination
  by (relation "measure (\<lambda>(p, n). n - p)") auto

declare pow2_from.simps [simp del]

definition next_power_of_two :: "target \<Rightarrow> usize \<Rightarrow> fault + usize" where
  "next_power_of_two T n =
     (if unat n \<le> 2 ^ 63 then Inr (of_nat (pow2_from 1 (unat n)))
      else if checks T then Inl PanicOverflow else Inr 0)"


section \<open>Operations\<close>

text \<open>\<open>new\<close>: the buffer length is \<open>2 * capacity\<close>, evaluated like the other arithmetic.\<close>

definition new_queue :: "target \<Rightarrow> usize \<Rightarrow> fault + queue_inner \<times> producer \<times> consumer" where
  "new_queue T cap =
     (if cap = 0 then Inl PanicAssert
      else rbind (next_power_of_two T cap) (\<lambda>c.
           rbind (mul_chk T 2 c) (\<lambda>phys.
           rbind (sub_chk T c 1) (\<lambda>m.
             Inr (\<lparr>buf = replicate (unat phys) 0, capacity = c, pos_mask = m,
                   write_pos = 0, read_pos = 0\<rparr>,
                  \<lparr>cached_read = 0, p_write = 0\<rparr>,
                  \<lparr>cached_write = 0, c_read = 0\<rparr>)))))"

text \<open>\<open>Producer::try_reserve\<close> returns the offset the pointer is derived from.\<close>

definition try_reserve :: "target \<Rightarrow> queue_inner \<Rightarrow> producer \<Rightarrow> usize \<Rightarrow>
    fault + usize option \<times> producer" where
  "try_reserve T q p n =
     (if capacity q < n then Inr (None, p)
      else rbind (sub_chk T (capacity q) (p_write p - cached_read p)) (\<lambda>available.
        if available < n then
          let p' = p\<lparr>cached_read := read_pos q\<rparr> in
          rbind (sub_chk T (capacity q) (p_write p' - cached_read p')) (\<lambda>available.
            if available < n then Inr (None, p')
            else Inr (Some (p_write p' AND pos_mask q), p'))
        else Inr (Some (p_write p AND pos_mask q), p)))"

definition commit :: "queue_inner \<Rightarrow> producer \<Rightarrow> usize \<Rightarrow> queue_inner \<times> producer" where
  "commit q p n =
     (let p' = p\<lparr>p_write := p_write p + n\<rparr> in (q\<lparr>write_pos := p_write p'\<rparr>, p'))"

text \<open>
  \<open>Producer::write\<close>. The closure gets the \<open>n\<close> bytes at the reserved offset and leaves \<open>n\<close> bytes
  there, or panics; forming the subslice outside the allocation is undefined behaviour.
\<close>

definition write_queue :: "target \<Rightarrow> queue_inner \<Rightarrow> producer \<Rightarrow> usize \<Rightarrow>
    (bytes \<Rightarrow> fault + bytes) \<Rightarrow> fault + (write_error + unit) \<times> queue_inner \<times> producer" where
  "write_queue T q p n f =
     rbind (try_reserve T q p n) (\<lambda>(r, p').
       case r of
         None \<Rightarrow> Inr (Inl (if capacity q < n then OversizedWrite else QueueFull), q, p')
       | Some off \<Rightarrow>
           (if length (buf q) < unat off + unat n then Inl UbOutOfBounds
            else rbind (f (subslice (unat off) (unat n) (buf q))) (\<lambda>bs.
              let (q', p'') = commit (q\<lparr>buf := blit (unat off) bs (buf q)\<rparr>) p' n
              in Inr (Inr (), q', p''))))"

text \<open>\<open>Consumer::available\<close> refreshes the cached position only when the cache shows nothing.\<close>

definition available :: "queue_inner \<Rightarrow> consumer \<Rightarrow> usize \<times> consumer" where
  "available q c =
     (if c_read c < cached_write c then (cached_write c - c_read c, c)
      else let c' = c\<lparr>cached_write := write_pos q\<rparr> in (cached_write c' - c_read c', c'))"

definition queue_slice :: "queue_inner \<Rightarrow> consumer \<Rightarrow> usize \<Rightarrow> fault + bytes" where
  "queue_slice q c len =
     (let off = unat (c_read c AND pos_mask q)
      in if length (buf q) < off + unat len then Inl UbOutOfBounds
         else Inr (subslice off (unat len) (buf q)))"

definition peek :: "target \<Rightarrow> queue_inner \<Rightarrow> consumer \<Rightarrow> usize \<Rightarrow> fault + bytes \<times> consumer" where
  "peek T q c len =
     (let (avail, c') = available q c
      in if checks T \<and> \<not> len \<le> avail then Inl PanicAssert
         else rbind (queue_slice q c' len) (\<lambda>bs. Inr (bs, c')))"

definition advance :: "queue_inner \<Rightarrow> consumer \<Rightarrow> usize \<Rightarrow> queue_inner \<times> consumer" where
  "advance q c n =
     (let c' = c\<lparr>c_read := c_read c + n\<rparr> in (q\<lparr>read_pos := c_read c'\<rparr>, c'))"

text \<open>\<open>Consumer::read\<close>: the position advances only after the closure has returned.\<close>

definition read_queue :: "target \<Rightarrow> queue_inner \<Rightarrow> consumer \<Rightarrow> usize \<Rightarrow> (bytes \<Rightarrow> fault + 'r) \<Rightarrow>
    fault + 'r \<times> queue_inner \<times> consumer" where
  "read_queue T q c len f =
     (let (avail, c') = available q c
      in if checks T \<and> \<not> len \<le> avail then Inl PanicAssert
         else rbind (queue_slice q c' len) (\<lambda>bs.
              rbind (f bs) (\<lambda>result.
                let (q', c'') = advance q c' len in Inr (result, q', c''))))"


section \<open>The ring arithmetic\<close>

lemma pow2_from_spec:
  "0 < p \<Longrightarrow> \<exists>k. pow2_from p n = p * 2 ^ k \<and> n \<le> pow2_from p n \<and> (k = 0 \<or> p * 2 ^ (k - 1) < n)"
proof (induction p n rule: pow2_from.induct)
  case (1 p n)
  show ?case
  proof (cases "p < n")
    case True
    with 1 obtain k where k: "pow2_from (2 * p) n = 2 * p * 2 ^ k" "n \<le> pow2_from (2 * p) n"
      "k = 0 \<or> 2 * p * 2 ^ (k - 1) < n" by auto
    then show ?thesis
      using True "1.prems"
      by (intro exI [of _ "Suc k"]) (cases k, auto simp: pow2_from.simps [of p n])
  next
    case False
    then show ?thesis using "1.prems" by (intro exI [of _ 0]) (simp add: pow2_from.simps [of p n])
  qed
qed

text \<open>A queue as \<open>new\<close> builds it: capacity \<open>2^m\<close>, its mask, and a buffer of twice that length.\<close>

definition inner_wf :: "queue_inner \<Rightarrow> nat \<Rightarrow> bool" where
  "inner_wf q m \<longleftrightarrow> m < 63 \<and> capacity q = 2 ^ m \<and> pos_mask q = 2 ^ m - 1 \<and>
     length (buf q) = 2 * 2 ^ m"

lemma of_nat_diff_usize: "b \<le> a \<Longrightarrow> (of_nat a - of_nat b :: usize) = of_nat (a - b)"
  by (simp add: of_nat_diff)

lemma unat_of_nat_usize: "x < 2 ^ 64 \<Longrightarrow> unat (of_nat x :: usize) = x"
  by (simp add: unat_of_nat take_bit_eq_mod)

lemma unat_pow2 [simp]: "m < 64 \<Longrightarrow> unat (2 ^ m :: usize) = 2 ^ m"
proof -
  assume "m < 64"
  then have "(2::nat) ^ m < 2 ^ 64" by (rule power_strict_increasing) simp
  then have "unat (of_nat (2 ^ m) :: usize) = 2 ^ m" by (simp only: unat_of_nat_usize)
  then show ?thesis by simp
qed

lemma unat_and_mask:
  assumes "m < 63"
  shows "unat (of_nat x AND (2 ^ m - 1) :: usize) = x mod 2 ^ m"
proof -
  have "(of_nat x AND (2 ^ m - 1) :: usize) = take_bit m (of_nat x)"
    by (simp add: take_bit_eq_mask mask_eq_exp_minus_1)
  then have "unat (of_nat x AND (2 ^ m - 1) :: usize) = (x mod 2 ^ 64) mod 2 ^ m"
    by (simp only: unsigned_take_bit_eq unat_of_nat) (simp add: take_bit_eq_mod)
  moreover have "(2::nat) ^ m dvd 2 ^ 64" using assms by (intro le_imp_power_dvd) simp
  ultimately show ?thesis by (simp add: mod_mod_cancel)
qed

text \<open>
  Two windows of the logical byte sequence, the second after the first and both within one
  capacity, have disjoint places in the doubled buffer.
\<close>

lemma ring_disjoint:
  fixes s t n m c :: nat
  assumes "0 < c" "s + n \<le> t" "t + m \<le> s + c"
  shows "s mod c + n \<le> t mod c \<or> t mod c + m \<le> s mod c"
proof -
  define a x b y where defs: "a = s div c" "x = s mod c" "b = t div c" "y = t mod c"
  have s: "s = a * c + x" and t: "t = b * c + y" by (simp_all add: defs)
  have x: "x < c" and y: "y < c" using assms(1) by (simp_all add: defs)
  have "a \<le> b" using assms(2) by (simp add: defs div_le_mono)
  moreover have "b < a + 2"
  proof (rule ccontr)
    assume "\<not> b < a + 2"
    then have "(a + 2) * c \<le> b * c" by (intro mult_le_mono1) simp
    then show False using s t x assms(3) by (simp add: algebra_simps)
  qed
  ultimately have "b = a \<or> b = Suc a" by linarith
  then show ?thesis
    using s t assms(2,3) unfolding defs(2,4) [symmetric] by (auto simp: algebra_simps)
qed

text \<open>
  \<open>holds c b p cs\<close>: the buffer \<open>b\<close> holds the chunks \<open>cs\<close> from logical position \<open>p\<close> on, each
  contiguous from its start modulo \<open>c\<close>.
\<close>

fun holds :: "nat \<Rightarrow> bytes \<Rightarrow> nat \<Rightarrow> bytes list \<Rightarrow> bool" where
  "holds c b p [] \<longleftrightarrow> True"
| "holds c b p (d # ds) \<longleftrightarrow> subslice (p mod c) (length d) b = d \<and> holds c b (p + length d) ds"

lemma holds_append:
  "holds c b p (cs @ ds) \<longleftrightarrow> holds c b p cs \<and> holds c b (p + total_len cs) ds"
  by (induction cs arbitrary: p) (auto simp: add.assoc)

lemma holds_blit:
  assumes "0 < c" "length b = 2 * c" "p + total_len cs \<le> t" "t + length d \<le> p + c"
    and "holds c b p cs"
  shows "holds c (blit (t mod c) d b) p cs"
  using assms(3-5)
proof (induction cs arbitrary: p)
  case (Cons e es)
  have bounds: "t mod c + length d \<le> length b" "p mod c + length e \<le> length b"
    using assms(2) Cons.prems mod_less_divisor [OF assms(1), of t]
      mod_less_divisor [OF assms(1), of p] by (simp_all, linarith+)
  have "p mod c + length e \<le> t mod c \<or> t mod c + length d \<le> p mod c"
    using Cons.prems by (intro ring_disjoint [OF assms(1)]) auto
  then have "subslice (p mod c) (length e) (blit (t mod c) d b) = subslice (p mod c) (length e) b"
    using bounds by (intro slice_blit_disjoint)
  moreover have "holds c (blit (t mod c) d b) (p + length e) es"
    using Cons.prems by (intro Cons.IH) auto
  ultimately show ?case using Cons.prems by simp
qed simp

lemma holds_write:
  assumes "0 < c" "length b = 2 * c" "total_len cs + length d \<le> c" "holds c b p cs"
  shows "holds c (blit ((p + total_len cs) mod c) d b) p (cs @ [d])"
proof -
  have "(p + total_len cs) mod c + length d \<le> length b"
    using assms(1-3) mod_less_divisor [OF assms(1), of "p + total_len cs"] by linarith
  then show ?thesis
    using holds_blit [OF assms(1,2), of p cs "p + total_len cs" d] assms(3,4)
    by (simp add: holds_append slice_blit_same)
qed



section \<open>The queue as a FIFO of chunks\<close>

text \<open>
  \<open>q_inv q p c m r cr k cs\<close>: with unbounded read position \<open>r\<close>, cached read position \<open>cr\<close> and the
  first \<open>k\<close> chunks visible to the consumer's cache, the queue of capacity \<open>2^m\<close> holds the chunks
  \<open>cs\<close>. The words of the state are these positions modulo \<open>2^64\<close>.
\<close>

definition q_inv :: "queue_inner \<Rightarrow> producer \<Rightarrow> consumer \<Rightarrow> nat \<Rightarrow> nat \<Rightarrow> nat \<Rightarrow> nat \<Rightarrow> bytes list \<Rightarrow> bool"
  where
  "q_inv q p c m r cr k cs \<longleftrightarrow>
     inner_wf q m \<and> total_len cs \<le> 2 ^ m \<and> k \<le> length cs \<and>
     cr \<le> r \<and> r + total_len cs \<le> cr + 2 ^ m \<and>
     cached_read p = of_nat cr \<and> p_write p = of_nat (r + total_len cs) \<and> write_pos q = p_write p \<and>
     c_read c = of_nat r \<and> read_pos q = c_read c \<and>
     cached_write c = of_nat (r + total_len (take k cs)) \<and>
     holds (2 ^ m) (buf q) r cs"

text \<open>\<open>q_rel q p c cs\<close>: the queue state represents the pending chunks \<open>cs\<close>, oldest first.\<close>

definition q_rel :: "queue_inner \<Rightarrow> producer \<Rightarrow> consumer \<Rightarrow> bytes list \<Rightarrow> bool" where
  "q_rel q p c cs \<longleftrightarrow> (\<exists>m r cr k. q_inv q p c m r cr k cs)"

definition q_capacity :: "queue_inner \<Rightarrow> nat" where
  "q_capacity q = unat (capacity q)"

lemma pow_bounds: "m < 63 \<Longrightarrow> (2::nat) ^ m < 2 ^ 63" "m < 63 \<Longrightarrow> (2::nat) ^ m < 2 ^ 64"
  by (intro power_strict_increasing; simp)+

lemma inner_wf_capacity: "inner_wf q m \<Longrightarrow> q_capacity q = 2 ^ m"
  by (simp add: inner_wf_def q_capacity_def)

lemma word_diff_le:
  assumes "b \<le> a" "a \<le> b + 2 ^ m" "m < 63"
  shows "unat (of_nat a - of_nat b :: usize) = a - b"
proof -
  have "a - b < 2 ^ 64" using assms(2) pow_bounds(2) [OF assms(3)] by linarith
  then show ?thesis unfolding of_nat_diff_usize [OF assms(1)] by (rule unat_of_nat_usize)
qed

text \<open>The capacity check never overflows, and its result is the space the producer sees.\<close>

lemma free_space:
  assumes "inner_wf q m" "b \<le> a" "a \<le> b + 2 ^ m"
  shows "\<exists>v. sub_chk T (capacity q) (of_nat a - of_nat b) = Inr v \<and> unat v = 2 ^ m - (a - b)"
proof -
  have m: "m < 63" and cap: "capacity q = 2 ^ m" using assms(1) by (auto simp: inner_wf_def)
  have d: "unat (of_nat a - of_nat b :: usize) = a - b" using assms(2,3) m by (rule word_diff_le)
  have c: "unat (capacity q) = 2 ^ m" using m by (simp add: cap)
  have le: "(of_nat a - of_nat b :: usize) \<le> capacity q"
    unfolding word_le_nat_alt d c using assms(3) by linarith
  have "unat (capacity q - (of_nat a - of_nat b)) = 2 ^ m - (a - b)"
    by (simp only: unat_sub [OF le] c d)
  then show ?thesis using le by (simp add: sub_chk_def linorder_not_less)
qed

text \<open>
  \<open>try_reserve\<close> succeeds exactly when the chunk fits behind the pending ones, whatever the cache
  says, and returns the place of the next chunk.
\<close>

lemma try_reserve_spec:
  assumes inv: "q_inv q p c m r cr k cs"
  shows "if 2 ^ m < unat n then try_reserve T q p n = Inr (None, p)
         else \<exists>p' cr'. q_inv q p' c m r cr' k cs \<and>
           (if total_len cs + unat n \<le> 2 ^ m
            then \<exists>off. try_reserve T q p n = Inr (Some off, p') \<and>
                   unat off = (r + total_len cs) mod 2 ^ m \<and>
                   r + total_len cs + unat n \<le> cr' + 2 ^ m
            else try_reserve T q p n = Inr (None, p'))"
proof -
  have wf: "inner_wf q m" and m: "m < 63" and cap: "unat (capacity q) = 2 ^ m"
    and cr: "cached_read p = of_nat cr" "cr \<le> r" "r + total_len cs \<le> cr + 2 ^ m"
    and pw: "p_write p = of_nat (r + total_len cs)" and rp: "read_pos q = of_nat r"
    and tot: "total_len cs \<le> 2 ^ m"
    using inv by (auto simp: q_inv_def inner_wf_def)
  have off: "unat (p_write p AND pos_mask q) = (r + total_len cs) mod 2 ^ m"
    using wf by (simp only: pw) (simp add: inner_wf_def unat_and_mask del: of_nat_add)
  obtain v where v: "sub_chk T (capacity q) (p_write p - cached_read p) = Inr v"
      "unat v = 2 ^ m - (r + total_len cs - cr)"
    using free_space [OF wf, of cr "r + total_len cs" T] cr pw by auto
  obtain w where w: "sub_chk T (capacity q) (p_write p - read_pos q) = Inr w"
      "unat w = 2 ^ m - total_len cs"
    using free_space [OF wf, of r "r + total_len cs" T] tot pw rp by auto
  have inv': "q_inv q (p\<lparr>cached_read := read_pos q\<rparr>) c m r r k cs"
    using inv by (simp add: q_inv_def)
  show ?thesis
  proof (cases "2 ^ m < unat n")
    case True
    then show ?thesis by (simp add: try_reserve_def word_less_nat_alt cap)
  next
    case False
    then have small: "\<not> capacity q < n" by (simp add: word_less_nat_alt cap)
    show ?thesis
    proof (cases "v < n")
      case False
      then have fits: "r + total_len cs + unat n \<le> cr + 2 ^ m"
        using v(2) cr by (simp add: word_less_nat_alt)
      then have "total_len cs + unat n \<le> 2 ^ m" using cr(2) by linarith
      moreover have "try_reserve T q p n = Inr (Some (p_write p AND pos_mask q), p)"
        using small False by (simp add: try_reserve_def v(1))
      ultimately show ?thesis
        using \<open>\<not> 2 ^ m < unat n\<close> inv off fits by auto
    next
      case True
      have "try_reserve T q p n = Inr (if w < n then None else Some (p_write p AND pos_mask q),
          p\<lparr>cached_read := read_pos q\<rparr>)"
        using small True w(1) by (simp add: try_reserve_def v(1) Let_def)
      moreover have "w < n \<longleftrightarrow> \<not> total_len cs + unat n \<le> 2 ^ m"
        using w(2) tot by (auto simp: word_less_nat_alt)
      ultimately show ?thesis
        using \<open>\<not> 2 ^ m < unat n\<close> inv' off
        by (auto intro!: exI [of _ "p\<lparr>cached_read := read_pos q\<rparr>"] exI [of _ r])
    qed
  qed
qed

text \<open>Publishing the chunk that was written at the reserved place.\<close>

lemma commit_spec:
  assumes inv: "q_inv q p c m r cr k cs" and "length d = unat n"
    and fits: "total_len cs + unat n \<le> 2 ^ m" "r + total_len cs + unat n \<le> cr + 2 ^ m"
    and off: "off = (r + total_len cs) mod 2 ^ m"
    and res: "commit (q\<lparr>buf := blit off d (buf q)\<rparr>) p n = (q', p')"
  shows "q_inv q' p' c m r cr k (cs @ [d])"
proof -
  have len: "length (buf q) = 2 * 2 ^ m" and "m < 63"
    using inv by (auto simp: q_inv_def inner_wf_def)
  have "off < 2 ^ m" by (simp add: off)
  then have "off + length d \<le> length (buf q)" using fits(1) assms(2) len by linarith
  moreover have "holds (2 ^ m) (blit off d (buf q)) r (cs @ [d])"
    using inv len fits(1) assms(2) unfolding off by (intro holds_write) (auto simp: q_inv_def)
  moreover have "p_write p + n = of_nat (r + (total_len cs + length d))"
    using inv assms(2) by (simp add: q_inv_def)
  ultimately show ?thesis
    using inv fits assms(2) res
    by (auto simp: q_inv_def inner_wf_def commit_def Let_def add.assoc)
qed

text \<open>
  \<open>available\<close> reports whole chunks only, and reports something whenever anything is pending.
\<close>

lemma available_spec:
  assumes inv: "q_inv q p c m r cr k cs"
  obtains n c' k' where "available q c = (n, c')" "q_inv q p c' m r cr k' cs"
    "unat n = total_len (take k' cs)" "0 < total_len cs \<longrightarrow> 0 < unat n"
proof -
  have m: "m < 63" and tot: "total_len cs \<le> 2 ^ m"
    using inv by (auto simp: q_inv_def inner_wf_def)
  have diff: "unat (of_nat (r + total_len (take j cs)) - of_nat r :: usize) = total_len (take j cs)"
    for j
    using word_diff_le [of r "r + total_len (take j cs)" m] tot m total_len_take_le [of j cs]
    by (simp del: of_nat_add)
  show thesis
  proof (cases "c_read c < cached_write c")
    case True
    have n: "unat (cached_write c - c_read c) = total_len (take k cs)"
      using inv diff [of k] by (simp add: q_inv_def)
    have "cached_write c - c_read c \<noteq> 0" using True by auto
    then have "0 < unat (cached_write c - c_read c)" by (simp only: unat_gt_0 not_False_eq_True)
    then have pos: "0 < total_len cs \<longrightarrow> 0 < unat (cached_write c - c_read c)" by (rule impI)
    show thesis by (rule that [OF _ inv n pos]) (simp add: available_def True)
  next
    case False
    let ?c' = "c\<lparr>cached_write := write_pos q\<rparr>"
    have "q_inv q p ?c' m r cr (length cs) cs" using inv by (simp add: q_inv_def)
    moreover have n: "unat (cached_write ?c' - c_read ?c') = total_len (take (length cs) cs)"
      using inv diff [of "length cs"] by (simp add: q_inv_def)
    moreover have "available q c = (cached_write ?c' - c_read ?c', ?c')"
      using False by (simp add: available_def Let_def)
    moreover have "0 < total_len cs \<longrightarrow> 0 < unat (cached_write ?c' - c_read ?c')"
      unfolding n by simp
    ultimately show thesis by (intro that)
  qed
qed

lemma queue_slice_spec:
  assumes inv: "q_inv q p c m r cr k (d # ds)" and n: "n \<le> length d"
  shows "queue_slice q c (of_nat n) = Inr (take n d)"
proof -
  have len: "length (buf q) = 2 * 2 ^ m" and m: "m < 63" and "length d \<le> 2 ^ m"
    and d: "subslice (r mod 2 ^ m) (length d) (buf q) = d"
    using inv by (auto simp: q_inv_def inner_wf_def)
  then have un: "unat (of_nat n :: usize) = n"
    using n pow_bounds(2) [OF m] by (intro unat_of_nat_usize) linarith
  have off: "unat (c_read c AND pos_mask q) = r mod 2 ^ m"
    using inv m by (simp add: q_inv_def inner_wf_def unat_and_mask)
  have "r mod 2 ^ m < 2 ^ m" by simp
  then have "r mod 2 ^ m + n \<le> length (buf q)" using n \<open>length d \<le> 2 ^ m\<close> len by linarith
  moreover have "subslice (r mod 2 ^ m) n (buf q) = take n d"
    using arg_cong [OF d, of "take n"] n by (simp add: subslice_def min_def)
  ultimately show ?thesis unfolding queue_slice_def Let_def off un by simp
qed

text \<open>The pending bytes cover the head chunk as soon as they cover anything of it.\<close>

lemma avail_covers_head:
  "total_len (take k (d # ds)) = n \<Longrightarrow> 0 < total_len (d # ds) \<longrightarrow> 0 < n \<Longrightarrow> length d \<le> n"
  by (cases k) auto

lemma peek_spec:
  assumes inv: "q_inv q p c m r cr k (d # ds)" and n: "n \<le> length d"
  shows "\<exists>c' k'. peek T q c (of_nat n) = Inr (take n d, c') \<and> q_inv q p c' m r cr k' (d # ds)"
proof -
  obtain a c' k' where a: "available q c = (a, c')" and inv': "q_inv q p c' m r cr k' (d # ds)"
    and av: "unat a = total_len (take k' (d # ds))" "0 < total_len (d # ds) \<longrightarrow> 0 < unat a"
    by (rule available_spec [OF inv])
  have "length d \<le> unat a" using av by (metis avail_covers_head)
  then have "(of_nat n :: usize) \<le> a" using n by (simp add: word_le_nat_alt unat_of_nat take_bit_eq_mod)
  then show ?thesis
    using queue_slice_spec [OF inv' n] inv' by (auto simp: peek_def a)
qed

lemma read_spec:
  assumes inv: "q_inv q p c m r cr k (d # ds)"
  shows "\<exists>q' c' k'. q_inv q' p c' m (r + length d) cr k' ds \<and>
           read_queue T q c (of_nat (length d)) f = rbind (f d) (\<lambda>x. Inr (x, q', c'))"
proof -
  obtain a c' k' where a: "available q c = (a, c')" and inv': "q_inv q p c' m r cr k' (d # ds)"
    and av: "unat a = total_len (take k' (d # ds))" "0 < total_len (d # ds) \<longrightarrow> 0 < unat a"
    by (rule available_spec [OF inv])
  have "length d \<le> unat a" using av by (metis avail_covers_head)
  then have "(of_nat (length d) :: usize) \<le> a"
    by (simp add: word_le_nat_alt unat_of_nat take_bit_eq_mod)
  moreover have "queue_slice q c' (of_nat (length d)) = Inr d"
    using queue_slice_spec [OF inv', of "length d"] by simp
  ultimately have "read_queue T q c (of_nat (length d)) f =
      rbind (f d) (\<lambda>x. let (q', c'') = advance q c' (of_nat (length d)) in Inr (x, q', c''))"
    by (simp add: read_queue_def a)
  moreover have "cached_write c' = of_nat (r + length d + total_len (take (k' - 1) ds))"
    using inv' av by (cases k') (auto simp: q_inv_def)
  then have "q_inv (q\<lparr>read_pos := of_nat (r + length d)\<rparr>) p
      (c'\<lparr>c_read := of_nat (r + length d)\<rparr>) m (r + length d) cr (k' - 1) ds"
    using inv' by (auto simp: q_inv_def inner_wf_def add.assoc)
  moreover have "c_read c' = of_nat r" using inv' by (simp add: q_inv_def)
  ultimately show ?thesis
    by (intro exI [of _ "q\<lparr>read_pos := of_nat (r + length d)\<rparr>"]
        exI [of _ "c'\<lparr>c_read := of_nat (r + length d)\<rparr>"] exI [of _ "k' - 1"])
      (simp add: advance_def Let_def)
qed

text \<open>\<open>write\<close> on every branch.\<close>

lemma write_spec:
  assumes inv: "q_inv q p c m r cr k cs"
    and f: "\<And>old. length old = unat n \<Longrightarrow> f old = Inr (d old) \<and> length (d old) = unat n"
  shows "\<exists>q' p' cr'.
     if 2 ^ m < unat n then
       write_queue T q p n f = Inr (Inl OversizedWrite, q', p') \<and> q_inv q' p' c m r cr' k cs
     else if 2 ^ m < total_len cs + unat n then
       write_queue T q p n f = Inr (Inl QueueFull, q', p') \<and> q_inv q' p' c m r cr' k cs
     else \<exists>old. length old = unat n \<and>
       write_queue T q p n f = Inr (Inr (), q', p') \<and> q_inv q' p' c m r cr' k (cs @ [d old])"
proof -
  have cap: "unat (capacity q) = 2 ^ m" and len: "length (buf q) = 2 * 2 ^ m"
    using inv by (auto simp: q_inv_def inner_wf_def)
  note spec = try_reserve_spec [OF inv, of n T]
  consider (big) "2 ^ m < unat n"
    | (full) "\<not> 2 ^ m < unat n" "2 ^ m < total_len cs + unat n"
    | (fits) "\<not> 2 ^ m < unat n" "total_len cs + unat n \<le> 2 ^ m" by linarith
  then show ?thesis
  proof cases
    case big
    then have "write_queue T q p n f = Inr (Inl OversizedWrite, q, p)"
      using spec by (simp add: write_queue_def word_less_nat_alt cap)
    then show ?thesis using big inv by auto
  next
    case full
    then obtain p' cr' where "try_reserve T q p n = Inr (None, p')" "q_inv q p' c m r cr' k cs"
      using spec by auto
    moreover have "\<not> capacity q < n" using full by (simp add: word_less_nat_alt cap)
    ultimately show ?thesis using full by (auto simp: write_queue_def)
  next
    case fits
    then obtain p' cr' off where res: "try_reserve T q p n = Inr (Some off, p')"
      and inv': "q_inv q p' c m r cr' k cs" and off: "unat off = (r + total_len cs) mod 2 ^ m"
      and room: "r + total_len cs + unat n \<le> cr' + 2 ^ m"
      using spec by auto
    define old where "old = subslice (unat off) (unat n) (buf q)"
    have "unat off < 2 ^ m" by (simp add: off)
    then have bound: "unat off + unat n \<le> length (buf q)" using fits len by linarith
    then have old: "length old = unat n" by (simp add: old_def)
    obtain q' p'' where com: "commit (q\<lparr>buf := blit (unat off) (d old) (buf q)\<rparr>) p' n = (q', p'')"
      by (cases "commit (q\<lparr>buf := blit (unat off) (d old) (buf q)\<rparr>) p' n")
    have "q_inv q' p'' c m r cr' k (cs @ [d old])"
      using f [OF old] by (intro commit_spec [OF inv' _ fits(2) room off _]) (use com in auto)
    moreover have "write_queue T q p n f = Inr (Inr (), q', p'')"
      using bound f [OF old] by (simp add: write_queue_def res com flip: old_def)
    ultimately show ?thesis using fits old by auto
  qed
qed



section \<open>Construction\<close>

lemma pow2_from_1:
  assumes "0 < n" "n \<le> 2 ^ j"
  obtains m where "pow2_from 1 n = 2 ^ m" "n \<le> 2 ^ m" "m \<le> j" "2 ^ m < 2 * n"
proof -
  obtain m where m: "pow2_from 1 n = 2 ^ m" "n \<le> 2 ^ m" "m = 0 \<or> 2 ^ (m - 1) < n"
    using pow2_from_spec [of 1 n] by auto
  have "2 ^ m < 2 * n" using m(3) assms(1) by (cases m) auto
  then have "(2::nat) ^ m < 2 ^ Suc j" using assms(2) by simp
  then have "m < Suc j" by (rule power_less_imp_less_exp [rotated]) simp
  then show thesis using that [of m] m \<open>2 ^ m < 2 * n\<close> by simp
qed

text \<open>Up to half of the address space the queue is built, empty, with the rounded capacity.\<close>

lemma new_queue_ok:
  assumes "0 < unat cap" "unat cap \<le> 2 ^ 62"
  shows "\<exists>q p c. new_queue T cap = Inr (q, p, c) \<and> q_rel q p c [] \<and>
     unat cap \<le> q_capacity q \<and> q_capacity q < 2 * unat cap \<and> (\<exists>m. q_capacity q = 2 ^ m)"
proof -
  obtain m where m: "pow2_from 1 (unat cap) = 2 ^ m" "unat cap \<le> 2 ^ m" "m \<le> 62"
    "2 ^ m < 2 * unat cap"
    using assms by (rule pow2_from_1)
  have cap: "cap \<noteq> 0" using assms(1) by auto
  have np: "next_power_of_two T cap = Inr (2 ^ m)"
    using assms(2) by (simp add: next_power_of_two_def m(1) del: One_nat_def)
  have le: "(2::nat) ^ m \<le> 2 ^ 62" using m(3) by (intro power_increasing) auto
  have u: "unat (2 ^ m :: usize) = 2 ^ m" using m(3) by simp
  have u2: "unat (2 * 2 ^ m :: usize) = 2 * 2 ^ m"
    using unat_pow2 [of "Suc m"] m(3) by simp
  have mul: "mul_chk T 2 (2 ^ m) = Inr (2 * 2 ^ m)"
    using le by (simp add: mul_chk_def u)
  have "\<not> (2 ^ m :: usize) < 1" using u by (simp add: word_less_nat_alt)
  then have sub: "sub_chk T (2 ^ m) 1 = Inr (2 ^ m - 1)" by (simp add: sub_chk_def)
  let ?q = "\<lparr>buf = replicate (2 * 2 ^ m) 0, capacity = 2 ^ m, pos_mask = 2 ^ m - 1,
      write_pos = 0, read_pos = 0\<rparr>"
  let ?p = "\<lparr>cached_read = 0, p_write = 0\<rparr>" and ?c = "\<lparr>cached_write = 0, c_read = 0\<rparr>"
  have "new_queue T cap = Inr (?q, ?p, ?c)"
    using cap by (simp add: new_queue_def np mul sub u2)
  moreover have "q_inv ?q ?p ?c m 0 0 0 []"
    using m(3) by (simp add: q_inv_def inner_wf_def)
  moreover have "q_capacity ?q = 2 ^ m" by (simp add: q_capacity_def u)
  ultimately show ?thesis using m by (auto simp: q_rel_def)
qed

text \<open>Above that, a build with overflow checks panics, whatever the size.\<close>

lemma new_queue_checked_panics:
  assumes "checks T" "2 ^ 62 < unat cap"
  shows "new_queue T cap = Inl PanicOverflow"
proof (cases "unat cap \<le> 2 ^ 63")
  case True
  obtain m where m: "pow2_from 1 (unat cap) = 2 ^ m" "unat cap \<le> 2 ^ m" "m \<le> 63"
    using assms(2) True by (metis pow2_from_1 gr_zeroI not_less_zero)
  have "(2::nat) ^ 62 < 2 ^ m" using assms(2) m(2) by linarith
  then have "62 < m" by (rule power_less_imp_less_exp [rotated]) simp
  then have "m = 63" using m(3) by linarith
  then have "next_power_of_two T cap = Inr (2 ^ 63)"
    using True m(1) by (simp add: next_power_of_two_def del: One_nat_def)
  moreover have "mul_chk T 2 (2 ^ 63) = Inl PanicOverflow"
    using assms(1) by (simp add: mul_chk_def)
  moreover have "cap \<noteq> 0" using assms(2) by auto
  ultimately show ?thesis by (simp add: new_queue_def)
next
  case False
  then have "next_power_of_two T cap = Inl PanicOverflow" and "cap \<noteq> 0"
    using assms(1) by (auto simp: next_power_of_two_def)
  then show ?thesis by (simp add: new_queue_def)
qed

text \<open>
  Without overflow checks \<open>2 * capacity\<close> wraps: for a request above \<open>2^62\<close> and at most \<open>2^63\<close>
  bytes the queue reports a capacity of \<open>2^63\<close> over a buffer of no bytes at all.
\<close>

lemma new_queue_release_wraps:
  assumes "\<not> checks T" "2 ^ 62 < unat cap" "unat cap \<le> 2 ^ 63"
  shows "\<exists>q p c. new_queue T cap = Inr (q, p, c) \<and> buf q = [] \<and> capacity q = 2 ^ 63 \<and>
     pos_mask q = 2 ^ 63 - 1 \<and> cached_read p = 0 \<and> p_write p = 0"
proof -
  obtain m where m: "pow2_from 1 (unat cap) = 2 ^ m" "unat cap \<le> 2 ^ m" "m \<le> 63"
    using assms(2,3) by (metis pow2_from_1 gr_zeroI not_less_zero)
  have "(2::nat) ^ 62 < 2 ^ m" using assms(2) m(2) by linarith
  then have "62 < m" by (rule power_less_imp_less_exp [rotated]) simp
  then have "m = 63" using m(3) by linarith
  then have "next_power_of_two T cap = Inr (2 ^ 63)"
    using assms(3) m(1) by (simp add: next_power_of_two_def del: One_nat_def)
  moreover have "mul_chk T 2 (2 ^ 63) = Inr 0" using assms(1) by (simp add: mul_chk_def)
  moreover have "sub_chk T (2 ^ 63) 1 = Inr (2 ^ 63 - 1)" using assms(1) by (simp add: sub_chk_def)
  moreover have "cap \<noteq> 0" using assms(2) by auto
  ultimately show ?thesis by (simp add: new_queue_def)
qed

lemma release_write_out_of_bounds:
  assumes q: "buf q = []" "capacity q = 2 ^ 63" "pos_mask q = 2 ^ 63 - 1"
    and p: "cached_read p = 0" "p_write p = 0" and n: "0 < unat n" "unat n \<le> 2 ^ 63"
    and T: "\<not> checks T"
  shows "write_queue T q p n f = Inl UbOutOfBounds"
proof -
  have "\<not> capacity q < n" using n(2) q(2) by (simp add: word_less_nat_alt)
  moreover have "sub_chk T (capacity q) (p_write p - cached_read p) = Inr (2 ^ 63)"
    using T p q(2) by (simp add: sub_chk_def)
  moreover have "\<not> (2 ^ 63 :: usize) < n" using n(2) by (simp add: word_less_nat_alt)
  ultimately have "try_reserve T q p n = Inr (Some 0, p)"
    using p(2) by (simp add: try_reserve_def)
  then show ?thesis using q(1) n(1) by (simp add: write_queue_def)
qed



section \<open>The ring buffer implements the interface\<close>

type_synonym ring = "queue_inner \<times> producer \<times> consumer"

definition ring_rel :: "ring \<Rightarrow> bytes list \<Rightarrow> bool" where
  "ring_rel s cs \<longleftrightarrow> (case s of (q, p, c) \<Rightarrow> q_rel q p c cs)"

definition ring_cap :: "ring \<Rightarrow> nat" where
  "ring_cap s = q_capacity (fst s)"

definition ring_write :: "target \<Rightarrow> bytes \<Rightarrow> ring \<Rightarrow> fault + (write_error + unit) \<times> ring" where
  "ring_write T d s =
     (case s of (q, p, c) \<Rightarrow>
        rbind (write_queue T q p (of_nat (length d)) (\<lambda>_. Inr d)) (\<lambda>(r, q', p'). Inr (r, q', p', c)))"

definition ring_peek :: "target \<Rightarrow> nat \<Rightarrow> ring \<Rightarrow> fault + bytes \<times> ring" where
  "ring_peek T n s =
     (case s of (q, p, c) \<Rightarrow> rbind (peek T q c (of_nat n)) (\<lambda>(b, c'). Inr (b, q, p, c')))"

definition ring_read :: "target \<Rightarrow> nat \<Rightarrow> ring \<Rightarrow> fault + bytes \<times> ring" where
  "ring_read T n s =
     (case s of (q, p, c) \<Rightarrow>
        rbind (read_queue T q c (of_nat n) Inr) (\<lambda>(b, q', c'). Inr (b, q', p, c')))"

definition ring_available :: "ring \<Rightarrow> nat \<times> ring" where
  "ring_available s = (case s of (q, p, c) \<Rightarrow> let (n, c') = available q c in (unat n, q, p, c'))"

lemma ring_relI: "q_inv q p c m r cr k cs \<Longrightarrow> ring_rel (q, p, c) cs \<and> ring_cap (q, p, c) = 2 ^ m"
  by (auto simp: ring_rel_def q_rel_def ring_cap_def q_inv_def inner_wf_capacity)

lemma ring_relE:
  assumes "ring_rel s cs"
  obtains q p c m r cr k where "s = (q, p, c)" "q_inv q p c m r cr k cs" "ring_cap s = 2 ^ m"
  using assms ring_relI by (cases s) (fastforce simp: ring_rel_def q_rel_def)

lemma ring_write_spec:
  assumes "ring_rel s cs" "length d < 2 ^ 64"
  shows "\<exists>s'. ring_cap s' = ring_cap s \<and>
     (if ring_cap s < length d then
        ring_write T d s = Inr (Inl OversizedWrite, s') \<and> ring_rel s' cs
      else if ring_cap s < total_len cs + length d then
        ring_write T d s = Inr (Inl QueueFull, s') \<and> ring_rel s' cs
      else ring_write T d s = Inr (Inr (), s') \<and> ring_rel s' (cs @ [d]))"
proof -
  obtain q p c m r cr k where s: "s = (q, p, c)" and inv: "q_inv q p c m r cr k cs"
    and cap: "ring_cap s = 2 ^ m" using assms(1) by (rule ring_relE)
  let ?n = "of_nat (length d) :: usize"
  have n: "unat ?n = length d" using assms(2) by (rule unat_of_nat_usize)
  have f: "(Inr d :: fault + bytes) = Inr d \<and> length d = unat ?n" if "length old = unat ?n" for old :: bytes
    using n by simp
  have "\<exists>q' p' cr'.
     if 2 ^ m < unat ?n then
       write_queue T q p ?n (\<lambda>_. Inr d) = Inr (Inl OversizedWrite, q', p') \<and> q_inv q' p' c m r cr' k cs
     else if 2 ^ m < total_len cs + unat ?n then
       write_queue T q p ?n (\<lambda>_. Inr d) = Inr (Inl QueueFull, q', p') \<and> q_inv q' p' c m r cr' k cs
     else \<exists>old :: bytes. length old = unat ?n \<and>
       write_queue T q p ?n (\<lambda>_. Inr d) = Inr (Inr (), q', p') \<and> q_inv q' p' c m r cr' k (cs @ [d])"
    by (rule write_spec [OF inv, of ?n "\<lambda>_. Inr d" "\<lambda>_. d" T, OF f])
  then obtain q' p' cr' where w:
    "if 2 ^ m < length d then
       write_queue T q p ?n (\<lambda>_. Inr d) = Inr (Inl OversizedWrite, q', p') \<and> q_inv q' p' c m r cr' k cs
     else if 2 ^ m < total_len cs + length d then
       write_queue T q p ?n (\<lambda>_. Inr d) = Inr (Inl QueueFull, q', p') \<and> q_inv q' p' c m r cr' k cs
     else write_queue T q p ?n (\<lambda>_. Inr d) = Inr (Inr (), q', p') \<and> q_inv q' p' c m r cr' k (cs @ [d])"
    unfolding n by (auto split: if_splits)
  then have "ring_cap (q', p', c) = 2 ^ m" using ring_relI by (auto split: if_splits)
  then show ?thesis
    using w ring_relI unfolding cap
    by (intro exI [of _ "(q', p', c)"]) (auto simp: ring_write_def s split: if_splits)
qed

interpretation ring: chunk_fifo ring_rel ring_cap "ring_write T" "ring_peek T" "ring_read T"
  ring_available OversizedWrite QueueFull for T
proof unfold_locales
  fix s cs and d :: bytes
  assume s: "ring_rel s cs" and d: "length d < 2 ^ 64"
  note w = ring_write_spec [OF s d, of T]
  show "\<exists>s'. ring_write T d s = Inr (Inl OversizedWrite, s') \<and> ring_rel s' cs \<and> ring_cap s' = ring_cap s"
    if "ring_cap s < length d"
    using w that by auto
  show "\<exists>s'. ring_write T d s = Inr (Inl QueueFull, s') \<and> ring_rel s' cs \<and> ring_cap s' = ring_cap s"
    if "length d \<le> ring_cap s" "ring_cap s < total_len cs + length d"
    using w that by auto
  show "\<exists>s'. ring_write T d s = Inr (Inr (), s') \<and> ring_rel s' (cs @ [d]) \<and> ring_cap s' = ring_cap s"
    if "total_len cs + length d \<le> ring_cap s"
    using w that by auto
next
  fix s d ds and n :: nat
  assume s: "ring_rel s (d # ds)" and n: "n \<le> length d"
  obtain q p c m r cr k where s: "s = (q, p, c)" and inv: "q_inv q p c m r cr k (d # ds)"
    and cap: "ring_cap s = 2 ^ m" using s by (rule ring_relE)
  show "\<exists>s'. ring_peek T n s = Inr (take n d, s') \<and> ring_rel s' (d # ds) \<and> ring_cap s' = ring_cap s"
    using peek_spec [OF inv n, of T] ring_relI unfolding cap by (force simp: ring_peek_def s)
next
  fix s d ds
  assume s: "ring_rel s (d # ds)"
  obtain q p c m r cr k where s: "s = (q, p, c)" and inv: "q_inv q p c m r cr k (d # ds)"
    and cap: "ring_cap s = 2 ^ m" using s by (rule ring_relE)
  show "\<exists>s'. ring_read T (length d) s = Inr (d, s') \<and> ring_rel s' ds \<and> ring_cap s' = ring_cap s"
    using read_spec [OF inv, of T Inr] ring_relI unfolding cap by (force simp: ring_read_def s)
next
  fix s cs
  assume s: "ring_rel s cs"
  obtain q p c m r cr k where s: "s = (q, p, c)" and inv: "q_inv q p c m r cr k cs"
    and cap: "ring_cap s = 2 ^ m" using s by (rule ring_relE)
  obtain n c' k' where a: "available q c = (n, c')" and inv': "q_inv q p c' m r cr k' cs"
    and n: "unat n = total_len (take k' cs)" "0 < total_len cs \<longrightarrow> 0 < unat n"
    using available_spec [OF inv] .
  have "unat n = 0 \<longleftrightarrow> total_len cs = 0"
    using n total_len_take_le [of k' cs] by auto
  then show "\<exists>n s'. ring_available s = (n, s') \<and> ring_rel s' cs \<and> ring_cap s' = ring_cap s \<and>
      (n = 0 \<longleftrightarrow> total_len cs = 0)"
    using ring_relI [OF inv'] unfolding cap by (auto simp: ring_available_def s a)
  show "total_len cs \<le> ring_cap s"
    using inv unfolding cap by (simp add: q_inv_def)
qed

section \<open>Properties\<close>

text \<open>\<open>new\<close> with any capacity from 1 to \<open>2^62\<close> bytes returns an empty queue whose capacity is the
  smallest power of two that is enough, with and without overflow checks.\<close>

lemma new_queue_rounds_up:
  assumes "0 < unat cap" "unat cap \<le> 2 ^ 62"
  shows "\<exists>q p c. new_queue T cap = Inr (q, p, c) \<and> q_rel q p c [] \<and>
     unat cap \<le> q_capacity q \<and> q_capacity q < 2 * unat cap \<and> (\<exists>m. q_capacity q = 2 ^ m)"
  by (rule new_queue_ok [OF assms])

text \<open>C5. A write of \<open>n\<close> bytes reports \<open>OversizedWrite\<close> exactly when \<open>n\<close> exceeds the capacity,
  \<open>QueueFull\<close> exactly when it does not but the pending bytes leave too little room, whatever the
  producer's cached read position says, and otherwise appends the chunk; a refused write changes
  nothing that is pending.\<close>

theorem write_outcome_exact:
  assumes "ring_rel s cs" "length d < 2 ^ 64"
  shows "\<exists>s'. ring_cap s' = ring_cap s \<and>
     (if ring_cap s < length d then
        ring_write T d s = Inr (Inl OversizedWrite, s') \<and> ring_rel s' cs
      else if ring_cap s < total_len cs + length d then
        ring_write T d s = Inr (Inl QueueFull, s') \<and> ring_rel s' cs
      else ring_write T d s = Inr (Inr (), s') \<and> ring_rel s' (cs @ [d]))"
  by (rule ring_write_spec [OF assms])

lemma three_bytes: "length [1, 2, 3 :: u8] < 2 ^ 64"
  by simp

lemma ring_demo: "\<exists>s. new_queue T 8 = Inr s \<and> ring_rel s [] \<and> 8 \<le> ring_cap s"
proof -
  have "0 < unat (8 :: usize)" "unat (8 :: usize) \<le> 2 ^ 62" by simp_all
  from new_queue_ok [OF this, of T] obtain q p c where
    "new_queue T 8 = Inr (q, p, c)" "q_rel q p c []" "8 \<le> q_capacity q" by auto
  then show ?thesis by (intro exI [of _ "(q, p, c)"]) (simp add: ring_rel_def ring_cap_def)
qed

theorem write_outcome_exact_witness:
  "\<exists>s s'. new_queue dev_build 8 = Inr s \<and> ring_write dev_build [1, 2, 3] s = Inr (Inr (), s') \<and>
     ring_rel s' [[1, 2, 3]]"
proof -
  obtain s where s: "new_queue dev_build 8 = Inr s" "ring_rel s []" "8 \<le> ring_cap s"
    using ring_demo by blast
  have "\<not> ring_cap s < length [1, 2, 3 :: u8]" "\<not> ring_cap s < total_len [] + length [1, 2, 3 :: u8]"
    using s(3) by simp_all
  with write_outcome_exact [OF s(2), of "[1, 2, 3]" dev_build] s(1) show ?thesis
    by (metis (no_types) append_Nil three_bytes)
qed

text \<open>C4. Every sequence of writes, peeks and reads that respects the read granularity rule behaves on
  the ring buffer exactly as on a list of chunks: same results, same refusals, no panic and no access
  outside the buffer, with the positions wrapping modulo \<open>2^64\<close>.\<close>

theorem ring_refines_chunk_list:
  assumes "ring_rel s cs" "spec_run OversizedWrite QueueFull (ring_cap s) cs ops = Some (obs, cs')"
  shows "\<exists>s'. fifo_run (ring_write T) (ring_peek T) (ring_read T) s ops = Inr (obs, s') \<and>
     ring_rel s' cs' \<and> ring_cap s' = ring_cap s"
  using assms by (rule ring.run_refines)

theorem ring_refines_chunk_list_witness:
  "\<exists>s s'. new_queue dev_build 8 = Inr s \<and> fifo_run (ring_write dev_build) (ring_peek dev_build) (ring_read dev_build) s
       [OpWrite [1, 2, 3], OpPeek 2, OpWrite [4], OpRead 3, OpRead 1] =
     Inr ([ObsWritten, ObsBytes [1, 2], ObsWritten, ObsBytes [1, 2, 3], ObsBytes [4]], s') \<and> ring_rel s' []"
proof -
  obtain s where s: "new_queue dev_build 8 = Inr s" "ring_rel s []" "8 \<le> ring_cap s"
    using ring_demo by blast
  have "spec_run OversizedWrite QueueFull (ring_cap s) []
      [OpWrite [1, 2, 3], OpPeek 2, OpWrite [4], OpRead 3, OpRead 1] =
      Some ([ObsWritten, ObsBytes [1, 2], ObsWritten, ObsBytes [1, 2, 3], ObsBytes [4]], [])"
    using s(3) by simp
  from ring_refines_chunk_list [OF s(2) this, of dev_build] s(1) show ?thesis by blast
qed

text \<open>C38. In a build without overflow checks a capacity above \<open>2^62\<close> and up to \<open>2^63\<close> makes \<open>new\<close>
  return a queue over an empty buffer, on which the first write of any size up to its capacity forms
  a slice outside the allocation: the documented panic is missing there.\<close>

theorem new_queue_release_unsound:
  assumes "\<not> checks T" "2 ^ 62 < unat cap" "unat cap \<le> 2 ^ 63" "0 < unat n" "unat n \<le> 2 ^ 63"
  shows "\<exists>q p c. new_queue T cap = Inr (q, p, c) \<and> write_queue T q p n f = Inl UbOutOfBounds"
  using new_queue_release_wraps [OF assms(1-3)] release_write_out_of_bounds [OF _ _ _ _ _ assms(4,5,1)]
  by blast

theorem new_queue_release_unsound_witness:
  "\<exists>q p c. new_queue release_build (2 ^ 63) = Inr (q, p, c) \<and>
     write_queue release_build q p 1 Inr = Inl UbOutOfBounds"
  by (rule new_queue_release_unsound) simp_all

end
