(* ===== verification/Spsc.thy ===== *)
theory Spsc
  imports Byte_Queue
begin

unbundle bit_operations_syntax

text \<open>
  The concurrent use of \<open>queue.rs\<close>: one producer thread and one consumer thread interleaved at
  every access to the shared state. Writing and reading a chunk is split into the steps of the
  code: reserving (one load of \<open>read_pos\<close>), filling the buffer byte by byte, publishing (one store
  of \<open>write_pos\<close>), polling (one load of \<open>write_pos\<close>), copying byte by byte, advancing (one store of
  \<open>read_pos\<close>). Acquire loads may be stale: a load returns any value stored since the one the
  thread saw last. The granularity rule of the module documentation is the guard of
  \<open>spsc_begin\<close>.
\<close>

section \<open>States and steps\<close>

text \<open>What each thread is doing: its place in \<open>Producer::write\<close>, and in \<open>read\<close> or \<open>peek\<close>.\<close>

datatype write_pc = WIdle | WFilling nat bytes nat

datatype read_pc = RIdle | RCopying bool nat nat bytes

record spsc =
  shared :: queue_inner
  prd :: producer
  cns :: consumer
  wpc :: write_pc
  rpc :: read_pc
  w_hist :: "usize list"
  r_hist :: "usize list"
  w_seen :: nat
  r_seen :: nat
  sent :: "bytes list"
  recv :: "bytes list"

definition spsc_init :: "queue_inner \<Rightarrow> producer \<Rightarrow> consumer \<Rightarrow> spsc" where
  "spsc_init q p c =
     \<lparr>shared = q, prd = p, cns = c, wpc = WIdle, rpc = RIdle,
      w_hist = [write_pos q], r_hist = [read_pos q], w_seen = 0, r_seen = 0, sent = [], recv = []\<rparr>"

text \<open>The queue as a thread sees it whose load returns the \<open>j\<close>-th value stored.\<close>

definition see_read :: "spsc \<Rightarrow> nat \<Rightarrow> queue_inner" where
  "see_read s j = shared s\<lparr>read_pos := r_hist s ! j\<rparr>"

definition see_write :: "spsc \<Rightarrow> nat \<Rightarrow> queue_inner" where
  "see_write s j = shared s\<lparr>write_pos := w_hist s ! j\<rparr>"

inductive spsc_step :: "target \<Rightarrow> spsc \<Rightarrow> spsc \<Rightarrow> bool" for T where
  spsc_reserve: "wpc s = WIdle \<Longrightarrow> length d < 2 ^ 64 \<Longrightarrow> r_seen s \<le> j \<Longrightarrow> j < length (r_hist s) \<Longrightarrow>
    try_reserve T (see_read s j) (prd s) (of_nat (length d)) = Inr (Some off, p') \<Longrightarrow>
    spsc_step T s (s\<lparr>prd := p', wpc := WFilling (unat off) d 0, r_seen := j\<rparr>)"
| spsc_refuse: "wpc s = WIdle \<Longrightarrow> length (d :: bytes) < 2 ^ 64 \<Longrightarrow> r_seen s \<le> j \<Longrightarrow> j < length (r_hist s) \<Longrightarrow>
    try_reserve T (see_read s j) (prd s) (of_nat (length d)) = Inr (None, p') \<Longrightarrow>
    spsc_step T s (s\<lparr>prd := p', r_seen := j\<rparr>)"
| spsc_fill: "wpc s = WFilling off d i \<Longrightarrow> i < length d \<Longrightarrow>
    spsc_step T s (s\<lparr>shared := shared s\<lparr>buf := (buf (shared s))[off + i := d ! i]\<rparr>,
                     wpc := WFilling off d (Suc i)\<rparr>)"
| spsc_publish: "wpc s = WFilling off d (length d) \<Longrightarrow>
    commit (shared s) (prd s) (of_nat (length d)) = (q', p') \<Longrightarrow>
    spsc_step T s (s\<lparr>shared := q', prd := p', wpc := WIdle,
                     w_hist := w_hist s @ [write_pos q'], sent := sent s @ [d]\<rparr>)"
| spsc_poll: "rpc s = RIdle \<Longrightarrow> w_seen s \<le> j \<Longrightarrow> j < length (w_hist s) \<Longrightarrow>
    available (see_write s j) (cns s) = (n, c') \<Longrightarrow>
    spsc_step T s (s\<lparr>cns := c', w_seen := j\<rparr>)"
| spsc_begin: "rpc s = RIdle \<Longrightarrow> length (recv s) < length (sent s) \<Longrightarrow>
    len \<le> length (sent s ! length (recv s)) \<Longrightarrow> (adv \<longrightarrow> len = length (sent s ! length (recv s))) \<Longrightarrow>
    w_seen s \<le> j \<Longrightarrow> j < length (w_hist s) \<Longrightarrow>
    available (see_write s j) (cns s) = (n, c') \<Longrightarrow> len \<le> unat n \<Longrightarrow>
    spsc_step T s (s\<lparr>cns := c', w_seen := j,
                     rpc := RCopying adv (unat (c_read c' AND pos_mask (shared s))) len []\<rparr>)"
| spsc_copy: "rpc s = RCopying adv off len got \<Longrightarrow> length got < len \<Longrightarrow>
    spsc_step T s (s\<lparr>rpc := RCopying adv off len (got @ [buf (shared s) ! (off + length got)])\<rparr>)"
| spsc_peeked: "rpc s = RCopying False off len got \<Longrightarrow> length got = len \<Longrightarrow>
    spsc_step T s (s\<lparr>rpc := RIdle\<rparr>)"
| spsc_advance: "rpc s = RCopying True off len got \<Longrightarrow> length got = len \<Longrightarrow>
    advance (shared s) (cns s) (of_nat len) = (q', c') \<Longrightarrow>
    spsc_step T s (s\<lparr>shared := q', cns := c', rpc := RIdle,
                     r_hist := r_hist s @ [read_pos q'], recv := recv s @ [got]\<rparr>)"

inductive spsc_reachable :: "target \<Rightarrow> usize \<Rightarrow> spsc \<Rightarrow> bool" for T cap where
  spsc_start: "new_queue T cap = Inr (q, p, c) \<Longrightarrow> spsc_reachable T cap (spsc_init q p c)"
| spsc_next: "spsc_reachable T cap s \<Longrightarrow> spsc_step T s s' \<Longrightarrow> spsc_reachable T cap s'"


section \<open>Loads that may be stale\<close>

lemma try_reserve_stale:
  assumes wf: "inner_wf q m" and p: "cached_read p = of_nat a" "p_write p = of_nat w"
    and rp: "read_pos q = of_nat r" and le: "a \<le> r" "r \<le> w" "w \<le> a + 2 ^ m"
  shows "\<exists>a' res. try_reserve T q p n = Inr (res, p\<lparr>cached_read := of_nat a'\<rparr>) \<and> (a' = a \<or> a' = r) \<and>
     (case res of None \<Rightarrow> 2 ^ m < (w - r) + unat n
      | Some off \<Rightarrow> unat off = w mod 2 ^ m \<and> w + unat n \<le> a' + 2 ^ m)"
proof -
  have m: "m < 63" and cap: "unat (capacity q) = 2 ^ m" using wf by (auto simp: inner_wf_def)
  have off: "unat (p_write p AND pos_mask q) = w mod 2 ^ m"
    using wf by (simp add: p inner_wf_def unat_and_mask)
  have same: "p\<lparr>cached_read := of_nat a\<rparr> = p" using p by simp
  obtain v where v: "sub_chk T (capacity q) (p_write p - cached_read p) = Inr v" "unat v = 2 ^ m - (w - a)"
    using free_space [OF wf, of a w T] le p by auto
  obtain v' where v': "sub_chk T (capacity q) (p_write p - read_pos q) = Inr v'" "unat v' = 2 ^ m - (w - r)"
    using free_space [OF wf, of r w T] le p rp by auto
  consider "2 ^ m < unat n" | "unat n \<le> 2 ^ m" "\<not> v < n" | "unat n \<le> 2 ^ m" "v < n" by linarith
  then show ?thesis
  proof cases
    case 1
    then show ?thesis
      by (intro exI [of _ a] exI [of _ None]) (simp add: try_reserve_def word_less_nat_alt cap same)
  next
    case 2
    then have "w + unat n \<le> a + 2 ^ m" using v(2) le by (simp add: word_less_nat_alt)
    then show ?thesis using 2 off
      by (intro exI [of _ a] exI [of _ "Some (p_write p AND pos_mask q)"])
         (simp add: try_reserve_def word_less_nat_alt cap same v(1))
  next
    case 3
    have "try_reserve T q p n = Inr (if v' < n then None else Some (p_write p AND pos_mask q),
        p\<lparr>cached_read := of_nat r\<rparr>)"
      using 3 v'(1) by (simp add: try_reserve_def v(1) Let_def rp word_less_nat_alt cap)
    moreover have "v' < n \<longleftrightarrow> \<not> w + unat n \<le> r + 2 ^ m"
      using v'(2) le by (auto simp: word_less_nat_alt)
    ultimately show ?thesis using off le
      by (intro exI [of _ r] exI [of _ "if v' < n then None else Some (p_write p AND pos_mask q)"]) auto
  qed
qed

lemma available_stale:
  assumes m: "m < 63" and c: "c_read c = of_nat r" "cached_write c = of_nat b"
    and wp: "write_pos q = of_nat w" and le: "r \<le> b" "b \<le> w" "w \<le> r + 2 ^ m"
  shows "\<exists>b'. available q c = (of_nat (b' - r), c\<lparr>cached_write := of_nat b'\<rparr>) \<and> (b' = b \<or> b' = w) \<and>
     unat (of_nat (b' - r) :: usize) = b' - r \<and> (r < w \<longrightarrow> r < b')"
proof -
  have small: "unat (of_nat (x - r) :: usize) = x - r" if "x \<le> w" for x
    using that le pow_bounds(2) [OF m] by (intro unat_of_nat_usize) linarith
  show ?thesis
  proof (cases "c_read c < cached_write c")
    case True
    then have "r \<noteq> b" using c by auto
    then have "r < b" using le by simp
    moreover have "available q c = (of_nat (b - r), c\<lparr>cached_write := of_nat b\<rparr>)"
      using True by (simp add: available_def) (simp add: c of_nat_diff_usize [OF le(1)])
    ultimately show ?thesis using small [of b] le by blast
  next
    case False
    have "r \<le> w" using le by simp
    have "available q c = (of_nat (w - r), c\<lparr>cached_write := of_nat w\<rparr>)"
      using False by (simp add: available_def Let_def) (simp add: c wp of_nat_diff_usize [OF \<open>r \<le> w\<close>])
    then show ?thesis using small [of w] by blast
  qed
qed


section \<open>The invariant\<close>

text \<open>
  \<open>at s k\<close> is the unbounded position after the first \<open>k\<close> chunks sent. With the producer's cached
  read position standing for chunk \<open>a\<close> and the consumer's cached write position for chunk \<open>b\<close>,
  every word of the state is one of these positions modulo \<open>2^64\<close>.
\<close>

definition at :: "spsc \<Rightarrow> nat \<Rightarrow> nat" where
  "at s k = total_len (take k (sent s))"

definition positions_ok :: "nat \<Rightarrow> nat \<Rightarrow> nat \<Rightarrow> spsc \<Rightarrow> bool" where
  "positions_ok m a b s \<longleftrightarrow>
     w_hist s = map (\<lambda>k. of_nat (at s k)) [0..<Suc (length (sent s))] \<and>
     r_hist s = map (\<lambda>k. of_nat (at s k)) [0..<Suc (length (recv s))] \<and>
     recv s = take (length (recv s)) (sent s) \<and> length (recv s) \<le> length (sent s) \<and>
     a \<le> r_seen s \<and> r_seen s \<le> length (recv s) \<and> b \<le> w_seen s \<and> w_seen s \<le> length (sent s) \<and>
     cached_read (prd s) = of_nat (at s a) \<and> p_write (prd s) = of_nat (at s (length (sent s))) \<and>
     cached_write (cns s) = of_nat (at s b) \<and> c_read (cns s) = of_nat (at s (length (recv s))) \<and>
     at s (length (sent s)) \<le> at s a + 2 ^ m \<and> at s (length (recv s)) \<le> at s b"

definition writer_ok :: "nat \<Rightarrow> nat \<Rightarrow> spsc \<Rightarrow> bool" where
  "writer_ok m a s \<longleftrightarrow>
     (case wpc s of WIdle \<Rightarrow> True
      | WFilling off d i \<Rightarrow> i \<le> length d \<and> length d < 2 ^ 64 \<and> off = at s (length (sent s)) mod 2 ^ m \<and>
          at s (length (sent s)) + length d \<le> at s a + 2 ^ m \<and>
          subslice off i (buf (shared s)) = take i d)"

definition reader_ok :: "nat \<Rightarrow> nat \<Rightarrow> spsc \<Rightarrow> bool" where
  "reader_ok m b s \<longleftrightarrow>
     (case rpc s of RIdle \<Rightarrow> True
      | RCopying adv off len got \<Rightarrow> length (recv s) < length (sent s) \<and>
          off = at s (length (recv s)) mod 2 ^ m \<and> len \<le> length (sent s ! length (recv s)) \<and>
          (adv \<longrightarrow> len = length (sent s ! length (recv s))) \<and>
          at s (length (recv s)) + len \<le> at s b \<and> length got \<le> len \<and>
          got = take (length got) (sent s ! length (recv s)))"

definition spsc_inv :: "nat \<Rightarrow> nat \<Rightarrow> nat \<Rightarrow> spsc \<Rightarrow> bool" where
  "spsc_inv m a b s \<longleftrightarrow> inner_wf (shared s) m \<and> positions_ok m a b s \<and>
     holds (2 ^ m) (buf (shared s)) (at s (length (recv s))) (drop (length (recv s)) (sent s)) \<and>
     writer_ok m a s \<and> reader_ok m b s"

lemma at_mono: "j \<le> k \<Longrightarrow> at s j \<le> at s k"
  using total_len_take_le [of j "take k (sent s)"] by (simp add: at_def min_def)

lemma at_Suc: "k < length (sent s) \<Longrightarrow> at s (Suc k) = at s k + length (sent s ! k)"
  by (simp add: at_def take_Suc_conv_app_nth)

lemma at_all: "at s (length (sent s)) = total_len (sent s)"
  by (simp add: at_def)

lemma at_sent_cong: "sent s' = sent s \<Longrightarrow> at s' = at s"
  by (simp add: at_def fun_eq_iff)

text \<open>Bounds every state of the invariant satisfies.\<close>

lemma spsc_bounds:
  assumes "spsc_inv m a b s"
  shows "m < 63" "length (buf (shared s)) = 2 * 2 ^ m"
    "at s a \<le> at s (length (recv s))" "at s (length (recv s)) \<le> at s b"
    "at s b \<le> at s (length (sent s))" "at s (length (sent s)) \<le> at s a + 2 ^ m"
  using assms at_mono [of a "length (recv s)" s] at_mono [of b "length (sent s)" s]
  by (auto simp: spsc_inv_def inner_wf_def positions_ok_def)

lemma head_drop:
  "k < length cs \<Longrightarrow> drop k cs = cs ! k # drop (Suc k) cs"
  by (rule Cons_nth_drop_Suc [symmetric])

text \<open>The region being filled and the region being read never overlap.\<close>

lemma regions_disjoint:
  assumes inv: "spsc_inv m a b s" and w: "wpc s = WFilling off d i" and r: "rpc s = RCopying adv off' len got"
  shows "off + length d \<le> length (buf (shared s)) \<and> off' + len \<le> length (buf (shared s)) \<and>
     (off' + len \<le> off \<or> off + length d \<le> off')"
proof -
  note bd = spsc_bounds [OF inv]
  have W: "off = at s (length (sent s)) mod 2 ^ m" "at s (length (sent s)) + length d \<le> at s a + 2 ^ m"
    using inv w by (auto simp: spsc_inv_def writer_ok_def)
  have R: "off' = at s (length (recv s)) mod 2 ^ m" "at s (length (recv s)) + len \<le> at s b"
    using inv r by (auto simp: spsc_inv_def reader_ok_def)
  have "off' + len \<le> off \<or> off + length d \<le> off'"
    unfolding W(1) R(1) using W(2) R(2) bd by (intro ring_disjoint) auto
  moreover have "off < 2 ^ m" "off' < 2 ^ m" by (simp_all add: W R)
  ultimately show ?thesis using bd W(2) R(2) by simp
qed


section \<open>Every step keeps it\<close>

text \<open>The parts of the invariant do not see the fields the other thread owns.\<close>

lemma reader_ok_update [simp]:
  "reader_ok m b (s\<lparr>prd := p\<rparr>) = reader_ok m b s" "reader_ok m b (s\<lparr>wpc := w\<rparr>) = reader_ok m b s"
  "reader_ok m b (s\<lparr>r_seen := j\<rparr>) = reader_ok m b s" "reader_ok m b (s\<lparr>shared := q\<rparr>) = reader_ok m b s"
  "reader_ok m b (s\<lparr>cns := c\<rparr>) = reader_ok m b s" "reader_ok m b (s\<lparr>w_seen := j\<rparr>) = reader_ok m b s"
  by (simp_all add: reader_ok_def at_def split: read_pc.split)

lemma writer_ok_update [simp]:
  "writer_ok m a (s\<lparr>prd := p\<rparr>) = writer_ok m a s" "writer_ok m a (s\<lparr>rpc := r\<rparr>) = writer_ok m a s"
  "writer_ok m a (s\<lparr>r_seen := j\<rparr>) = writer_ok m a s" "writer_ok m a (s\<lparr>w_seen := j\<rparr>) = writer_ok m a s"
  "writer_ok m a (s\<lparr>cns := c\<rparr>) = writer_ok m a s" "writer_ok m a (s\<lparr>recv := rs\<rparr>) = writer_ok m a s"
  "writer_ok m a (s\<lparr>r_hist := h\<rparr>) = writer_ok m a s"
  "writer_ok m a (s\<lparr>shared := shared s\<lparr>read_pos := x\<rparr>\<rparr>) = writer_ok m a s"
  by (simp_all add: writer_ok_def at_def split: write_pc.split)

lemma idle_ok: "wpc s = WIdle \<Longrightarrow> writer_ok m a s" "rpc s = RIdle \<Longrightarrow> reader_ok m b s"
  by (simp_all add: writer_ok_def reader_ok_def)

lemma reserve_result:
  assumes inv: "spsc_inv m a b s" and j: "r_seen s \<le> j" "j < length (r_hist s)"
  shows "\<exists>a' res. try_reserve T (see_read s j) (prd s) n = Inr (res, prd s\<lparr>cached_read := of_nat (at s a')\<rparr>) \<and>
     a' \<le> j \<and> a \<le> a' \<and>
     (case res of None \<Rightarrow> 2 ^ m < (total_len (sent s) - at s j) + unat n
      | Some off \<Rightarrow> unat off = at s (length (sent s)) mod 2 ^ m \<and>
          at s (length (sent s)) + unat n \<le> at s a' + 2 ^ m)"
proof -
  note bd = spsc_bounds [OF inv]
  have pos: "positions_ok m a b s" using inv by (simp add: spsc_inv_def)
  then have jr: "j \<le> length (recv s)" "a \<le> j" "length (recv s) \<le> length (sent s)"
    using j by (auto simp: positions_ok_def)
  have hist: "read_pos (see_read s j) = of_nat (at s j)"
    using pos j(2) jr(1) by (auto simp: see_read_def positions_ok_def nth_append)
  have wf: "inner_wf (see_read s j) m"
    using inv by (simp add: spsc_inv_def see_read_def inner_wf_def)
  obtain x res where x: "try_reserve T (see_read s j) (prd s) n = Inr (res, prd s\<lparr>cached_read := of_nat x\<rparr>)"
    "x = at s a \<or> x = at s j"
    "case res of None \<Rightarrow> 2 ^ m < (at s (length (sent s)) - at s j) + unat n
      | Some off \<Rightarrow> unat off = at s (length (sent s)) mod 2 ^ m \<and> at s (length (sent s)) + unat n \<le> x + 2 ^ m"
    using try_reserve_stale [OF wf, of "prd s" "at s a" "at s (length (sent s))" "at s j" T n]
      pos hist at_mono [OF jr(2)] at_mono [of j "length (sent s)" s] jr bd(6)
    by (auto simp: positions_ok_def)
  obtain a' where "x = at s a'" "a' \<le> j" "a \<le> a'" using x(2) jr(2) by auto
  then show ?thesis
    using x(1,3) by (intro exI [of _ a'] exI [of _ res]) (simp add: at_all split: option.splits)
qed

lemma inv_reserve:
  assumes inv: "spsc_inv m a b s" and idle: "wpc s = WIdle" and d: "length d < 2 ^ 64"
    and j: "r_seen s \<le> j" "j < length (r_hist s)"
    and res: "try_reserve T (see_read s j) (prd s) (of_nat (length d)) = Inr (Some off, p')"
  shows "\<exists>a'. spsc_inv m a' b (s\<lparr>prd := p', wpc := WFilling (unat off) d 0, r_seen := j\<rparr>)"
proof -
  note un = unat_of_nat_usize [OF d]
  obtain a' where a': "p' = prd s\<lparr>cached_read := of_nat (at s a')\<rparr>" "a' \<le> j" "a \<le> a'"
    "unat off = at s (length (sent s)) mod 2 ^ m" "at s (length (sent s)) + length d \<le> at s a' + 2 ^ m"
    using reserve_result [OF inv j, of T "of_nat (length d)"] res unfolding un by auto
  let ?s = "s\<lparr>prd := p', wpc := WFilling (unat off) d 0, r_seen := j\<rparr>"
  have at: "at ?s = at s" by (rule at_sent_cong) simp
  have "positions_ok m a' b ?s"
    using inv a' j unfolding positions_ok_def spsc_inv_def at by auto
  moreover have "writer_ok m a' ?s" using a' d unfolding writer_ok_def at by simp
  ultimately show ?thesis
    using inv by (intro exI [of _ a']) (simp add: spsc_inv_def at)
qed

lemma inv_refuse:
  assumes inv: "spsc_inv m a b s" and idle: "wpc s = WIdle"
    and j: "r_seen s \<le> j" "j < length (r_hist s)"
    and res: "try_reserve T (see_read s j) (prd s) n = Inr (None, p')"
  shows "\<exists>a'. spsc_inv m a' b (s\<lparr>prd := p', r_seen := j\<rparr>)"
proof -
  obtain a' where a': "p' = prd s\<lparr>cached_read := of_nat (at s a')\<rparr>" "a' \<le> j" "a \<le> a'"
    using reserve_result [OF inv j, of T n] res by auto
  let ?s = "s\<lparr>prd := p', r_seen := j\<rparr>"
  have at: "at ?s = at s" by (rule at_sent_cong) simp
  have "positions_ok m a' b ?s"
    using inv a' j at_mono [OF a'(3), of s] unfolding positions_ok_def spsc_inv_def at by auto
  then show ?thesis
    using inv idle by (intro exI [of _ a']) (simp add: spsc_inv_def at idle_ok)
qed

lemma poll_result:
  assumes inv: "spsc_inv m a b s" and j: "w_seen s \<le> j" "j < length (w_hist s)"
  shows "\<exists>b' n. available (see_write s j) (cns s) = (n, cns s\<lparr>cached_write := of_nat (at s b')\<rparr>) \<and>
     b' \<le> j \<and> b \<le> b' \<and> unat n = at s b' - at s (length (recv s)) \<and>
     at s (length (recv s)) \<le> at s b' \<and> (at s (length (recv s)) < at s j \<longrightarrow> at s (length (recv s)) < at s b')"
proof -
  note bd = spsc_bounds [OF inv]
  have pos: "positions_ok m a b s" using inv by (simp add: spsc_inv_def)
  then have jw: "j \<le> length (sent s)" "b \<le> j" using j by (auto simp: positions_ok_def)
  have hist: "write_pos (see_write s j) = of_nat (at s j)"
    using pos j(2) jw(1) by (auto simp: see_write_def positions_ok_def nth_append)
  have "at s j \<le> at s (length (recv s)) + 2 ^ m"
    using at_mono [OF jw(1), of s] bd(3,6) by linarith
  then obtain x where x: "available (see_write s j) (cns s) =
      (of_nat (x - at s (length (recv s))), cns s\<lparr>cached_write := of_nat x\<rparr>)"
    "x = at s b \<or> x = at s j"
    "unat (of_nat (x - at s (length (recv s))) :: usize) = x - at s (length (recv s))"
    "at s (length (recv s)) < at s j \<longrightarrow> at s (length (recv s)) < x"
    using available_stale [of m "cns s" "at s (length (recv s))" "at s b" "see_write s j" "at s j"]
      pos hist at_mono [OF jw(2), of s] bd(1,4)
    by (auto simp: positions_ok_def)
  obtain b' where "x = at s b'" "b' \<le> j" "b \<le> b'" using x(2) jw(2) by auto
  then show ?thesis
    using x(1,3,4) bd(4) at_mono [OF \<open>b \<le> b'\<close>, of s] by (intro exI [of _ b'] exI) auto
qed

lemma inv_poll:
  assumes inv: "spsc_inv m a b s" and idle: "rpc s = RIdle"
    and j: "w_seen s \<le> j" "j < length (w_hist s)"
    and res: "available (see_write s j) (cns s) = (n, c')"
  shows "\<exists>b'. spsc_inv m a b' (s\<lparr>cns := c', w_seen := j\<rparr>)"
proof -
  obtain b' where b': "c' = cns s\<lparr>cached_write := of_nat (at s b')\<rparr>" "b' \<le> j"
    "at s (length (recv s)) \<le> at s b'"
    using poll_result [OF inv j] res by auto
  let ?s = "s\<lparr>cns := c', w_seen := j\<rparr>"
  have at: "at ?s = at s" by (rule at_sent_cong) simp
  have "j \<le> length (sent s)" using inv j by (auto simp: spsc_inv_def positions_ok_def)
  then have "positions_ok m a b' ?s"
    using inv b' j unfolding positions_ok_def spsc_inv_def at by auto
  then show ?thesis
    using inv idle by (intro exI [of _ b']) (simp add: spsc_inv_def at idle_ok)
qed

lemma inv_begin:
  assumes inv: "spsc_inv m a b s" and some: "length (recv s) < length (sent s)"
    and len: "len \<le> length (sent s ! length (recv s))"
      "adv \<longrightarrow> len = length (sent s ! length (recv s))"
    and j: "w_seen s \<le> j" "j < length (w_hist s)"
    and res: "available (see_write s j) (cns s) = (n, c')" "len \<le> unat n"
  shows "\<exists>b'. spsc_inv m a b' (s\<lparr>cns := c', w_seen := j,
           rpc := RCopying adv (unat (c_read c' AND pos_mask (shared s))) len []\<rparr>)"
proof -
  obtain b' where b': "c' = cns s\<lparr>cached_write := of_nat (at s b')\<rparr>" "b' \<le> j"
    "at s (length (recv s)) \<le> at s b'" "unat n = at s b' - at s (length (recv s))"
    using poll_result [OF inv j] res by auto
  let ?s = "s\<lparr>cns := c', w_seen := j, rpc := RCopying adv (unat (c_read c' AND pos_mask (shared s))) len []\<rparr>"
  have at: "at ?s = at s" by (rule at_sent_cong) simp
  have "j \<le> length (sent s)" using inv j by (auto simp: spsc_inv_def positions_ok_def)
  then have "positions_ok m a b' ?s"
    using inv b' j unfolding positions_ok_def spsc_inv_def at by auto
  moreover have "unat (c_read c' AND pos_mask (shared s)) = at s (length (recv s)) mod 2 ^ m"
    using inv b'(1) by (simp add: spsc_inv_def positions_ok_def inner_wf_def unat_and_mask)
  then have "reader_ok m b' ?s"
    using some len b' res(2) unfolding reader_ok_def at by simp
  ultimately show ?thesis
    using inv by (intro exI [of _ b']) (simp add: spsc_inv_def at)
qed


lemma slice_extend:
  assumes "off + Suc i \<le> length b"
  shows "subslice off (Suc i) (b[off + i := x]) = subslice off i b @ [x]"
proof -
  have "i < length (drop off (b[off + i := x]))" using assms by simp
  then have "take (Suc i) (drop off (b[off + i := x])) =
      take i (drop off (b[off + i := x])) @ [drop off (b[off + i := x]) ! i]"
    by (rule take_Suc_conv_app_nth)
  moreover have "take i (drop off (b[off + i := x])) = take i (drop off b)"
    by (simp add: drop_update_swap)
  ultimately show ?thesis using assms by (simp add: subslice_def)
qed

lemma blit_extend:
  assumes "off + Suc i \<le> length b"
  shows "b[off + i := x] = blit off (subslice off i b @ [x]) b"
  using assms by (simp add: blit_def subslice_def upd_conv_take_nth_drop take_add min_def)

lemma inv_fill:
  assumes inv: "spsc_inv m a b s" and w: "wpc s = WFilling off d i" and i: "i < length d"
  shows "spsc_inv m a b (s\<lparr>shared := shared s\<lparr>buf := (buf (shared s))[off + i := d ! i]\<rparr>,
           wpc := WFilling off d (Suc i)\<rparr>)"
proof -
  note bd = spsc_bounds [OF inv]
  let ?b = "buf (shared s)" and ?P = "at s (length (sent s))"
  let ?s = "s\<lparr>shared := shared s\<lparr>buf := ?b[off + i := d ! i]\<rparr>, wpc := WFilling off d (Suc i)\<rparr>"
  have at: "at ?s = at s" by (rule at_sent_cong) simp
  have W: "length d < 2 ^ 64" "off = ?P mod 2 ^ m" "?P + length d \<le> at s a + 2 ^ m"
    "subslice off i ?b = take i d"
    using inv w by (auto simp: spsc_inv_def writer_ok_def)
  have "off < 2 ^ m" by (simp add: W)
  then have fits: "off + length d \<le> length ?b" using W(3) bd by simp
  have "subslice off (Suc i) (?b[off + i := d ! i]) = take (Suc i) d"
    using slice_extend [of off i ?b "d ! i"] fits i W(4) by (simp add: take_Suc_conv_app_nth)
  then have wr: "writer_ok m a ?s" using W(1-3) i unfolding writer_ok_def at by simp
  let ?d = "take i d @ [d ! i]"
  have "?b[off + i := d ! i] = blit off ?d ?b"
    using blit_extend [of off i ?b "d ! i"] fits i W(4) by simp
  moreover have "holds (2 ^ m) (blit (?P mod 2 ^ m) ?d ?b) (at s (length (recv s))) (drop (length (recv s)) (sent s))"
  proof (rule holds_blit)
    have "at s (length (recv s)) + total_len (drop (length (recv s)) (sent s)) = total_len (sent s)"
      by (simp add: at_def flip: total_len_simps(3))
    then show "at s (length (recv s)) + total_len (drop (length (recv s)) (sent s)) \<le> ?P"
      by (simp add: at_all)
    show "?P + length ?d \<le> at s (length (recv s)) + 2 ^ m" using W(3) bd(3) i by simp
    show "holds (2 ^ m) ?b (at s (length (recv s))) (drop (length (recv s)) (sent s))"
      using inv by (simp add: spsc_inv_def)
  qed (use bd in auto)
  ultimately have "holds (2 ^ m) (?b[off + i := d ! i]) (at s (length (recv s))) (drop (length (recv s)) (sent s))"
    using W(2) by simp
  then show ?thesis
    using inv wr by (simp add: spsc_inv_def at inner_wf_def positions_ok_def)
qed


lemma inv_publish:
  assumes inv: "spsc_inv m a b s" and w: "wpc s = WFilling off d (length d)"
    and res: "commit (shared s) (prd s) (of_nat (length d)) = (q', p')"
  shows "spsc_inv m a b (s\<lparr>shared := q', prd := p', wpc := WIdle,
           w_hist := w_hist s @ [write_pos q'], sent := sent s @ [d]\<rparr>)"
proof -
  note bd = spsc_bounds [OF inv]
  let ?P = "at s (length (sent s))" and ?k = "length (recv s)"
  let ?s = "s\<lparr>shared := q', prd := p', wpc := WIdle, w_hist := w_hist s @ [write_pos q'], sent := sent s @ [d]\<rparr>"
  have W: "length d < 2 ^ 64" "off = ?P mod 2 ^ m" "?P + length d \<le> at s a + 2 ^ m"
    "subslice off (length d) (buf (shared s)) = d"
    using inv w by (auto simp: spsc_inv_def writer_ok_def)
  have pos: "positions_ok m a b s" using inv by (simp add: spsc_inv_def)
  have idx: "?k \<le> length (sent s)" "a \<le> length (sent s)" "b \<le> length (sent s)"
    using pos by (auto simp: positions_ok_def)
  have old: "at ?s k = at s k" if "k \<le> length (sent s)" for k using that by (simp add: at_def)
  have new: "at ?s (Suc (length (sent s))) = ?P + length d" by (simp add: at_def)
  have q': "q' = shared s\<lparr>write_pos := p_write (prd s) + of_nat (length d)\<rparr>"
    "p' = prd s\<lparr>p_write := p_write (prd s) + of_nat (length d)\<rparr>"
    using res by (auto simp: commit_def Let_def)
  have wp: "p_write (prd s) + of_nat (length d) = of_nat (?P + length d)"
    using pos by (simp add: positions_ok_def)
  have hist: "map (\<lambda>k. of_nat (at ?s k)) [0..<Suc n] = (map (\<lambda>k. of_nat (at s k)) [0..<Suc n] :: usize list)"
    if "n \<le> length (sent s)" for n
    using that old by (intro map_cong) auto
  have "positions_ok m a b ?s"
    unfolding positions_ok_def
    using pos W(3) idx wp new old hist [of "length (recv s)"] hist [of "length (sent s)"] unfolding positions_ok_def q'
    by (simp del: upt_Suc add: upt_Suc_append [of 0 "Suc (length (sent s))"])
  moreover have "holds (2 ^ m) (buf (shared s)) (at s ?k) (drop ?k (sent s) @ [d])"
  proof -
    have "at s ?k + total_len (drop ?k (sent s)) = ?P"
      by (simp add: at_def flip: total_len_simps(3))
    then show ?thesis using inv W(2,4) by (simp add: spsc_inv_def holds_append)
  qed
  moreover have "reader_ok m b ?s"
    using inv idx old by (auto simp: spsc_inv_def reader_ok_def nth_append split: read_pc.splits)
  ultimately show ?thesis
    using inv idx old by (simp add: spsc_inv_def idle_ok q' inner_wf_def)
qed

lemma inv_copy:
  assumes inv: "spsc_inv m a b s" and r: "rpc s = RCopying adv off len got" and more: "length got < len"
  shows "spsc_inv m a b (s\<lparr>rpc := RCopying adv off len (got @ [buf (shared s) ! (off + length got)])\<rparr>)"
proof -
  note bd = spsc_bounds [OF inv]
  let ?k = "length (recv s)"
  let ?s = "s\<lparr>rpc := RCopying adv off len (got @ [buf (shared s) ! (off + length got)])\<rparr>"
  have at: "at ?s = at s" by (rule at_sent_cong) simp
  have R: "?k < length (sent s)" "off = at s ?k mod 2 ^ m" "len \<le> length (sent s ! ?k)"
    "adv \<longrightarrow> len = length (sent s ! ?k)" "at s ?k + len \<le> at s b" "got = take (length got) (sent s ! ?k)"
    using inv r by (auto simp: spsc_inv_def reader_ok_def)
  let ?d = "sent s ! ?k"
  have d: "subslice off (length ?d) (buf (shared s)) = ?d"
    using inv R(1,2) by (simp add: spsc_inv_def head_drop)
  have "off < 2 ^ m" by (simp add: R(2))
  have "length ?d \<le> 2 ^ m"
    using at_Suc [OF R(1)] at_mono [of "Suc ?k" "length (sent s)" s] R(1) bd by simp
  then have fits: "off + length ?d \<le> length (buf (shared s))" using bd \<open>off < 2 ^ m\<close> by simp
  have "buf (shared s) ! (off + length got) = ?d ! length got"
    using nth_slice [OF fits, of "length got"] more R(3) by (simp add: d)
  then have "got @ [buf (shared s) ! (off + length got)] = take (Suc (length got)) ?d"
    using R(3,6) more by (simp add: take_Suc_conv_app_nth)
  then have "reader_ok m b ?s" using R more unfolding reader_ok_def at by simp
  then show ?thesis using inv by (simp add: spsc_inv_def at positions_ok_def)
qed

lemma inv_peeked:
  assumes inv: "spsc_inv m a b s"
  shows "spsc_inv m a b (s\<lparr>rpc := RIdle\<rparr>)"
  using inv by (simp add: spsc_inv_def at_sent_cong [of "s\<lparr>rpc := RIdle\<rparr>" s] positions_ok_def idle_ok)

lemma inv_advance:
  assumes inv: "spsc_inv m a b s" and r: "rpc s = RCopying True off len got" and all: "length got = len"
    and res: "advance (shared s) (cns s) (of_nat len) = (q', c')"
  shows "spsc_inv m a b (s\<lparr>shared := q', cns := c', rpc := RIdle,
           r_hist := r_hist s @ [read_pos q'], recv := recv s @ [got]\<rparr>)"
proof -
  let ?k = "length (recv s)"
  let ?s = "s\<lparr>shared := q', cns := c', rpc := RIdle, r_hist := r_hist s @ [read_pos q'], recv := recv s @ [got]\<rparr>"
  have at: "at ?s = at s" by (rule at_sent_cong) simp
  have R: "?k < length (sent s)" "len = length (sent s ! ?k)" "at s ?k + len \<le> at s b" "got = sent s ! ?k"
    using inv r all by (auto simp: spsc_inv_def reader_ok_def)
  have pos: "positions_ok m a b s" using inv by (simp add: spsc_inv_def)
  have q': "q' = shared s\<lparr>read_pos := c_read (cns s) + of_nat len\<rparr>"
    "c' = cns s\<lparr>c_read := c_read (cns s) + of_nat len\<rparr>"
    using res by (auto simp: advance_def Let_def)
  have next_pos: "at s (Suc ?k) = at s ?k + len" using at_Suc [OF R(1)] R(2) by simp
  have cr: "c_read (cns s) + of_nat len = of_nat (at s (Suc ?k))"
    using pos next_pos by (simp add: positions_ok_def)
  have "recv s @ [got] = take (Suc ?k) (sent s)"
    using pos R(1,4) by (simp add: positions_ok_def take_Suc_conv_app_nth)
  then have "positions_ok m a b ?s"
    using pos R(1,3) cr next_pos at unfolding positions_ok_def q'
    by (simp del: upt_Suc add: upt_Suc_append [of 0 "Suc ?k"])
  moreover have "holds (2 ^ m) (buf (shared s)) (at s (Suc ?k)) (drop (Suc ?k) (sent s))"
    using inv R(1,2) next_pos by (simp add: spsc_inv_def head_drop)
  moreover have "writer_ok m a ?s"
    using inv by (simp add: spsc_inv_def writer_ok_def at_def q' split: write_pc.splits)
  ultimately show ?thesis using inv at unfolding q' by (simp add: spsc_inv_def idle_ok inner_wf_def)
qed

theorem spsc_inv_step:
  assumes "spsc_step T s s'" "spsc_inv m a b s"
  shows "\<exists>a' b'. spsc_inv m a' b' s'"
  using assms
  by (induction rule: spsc_step.induct)
     (blast dest: inv_reserve inv_refuse inv_fill inv_publish inv_poll inv_begin inv_copy inv_peeked inv_advance)+

lemma spsc_inv_init:
  assumes "new_queue T cap = Inr (q, p, c)" "0 < unat cap" "unat cap \<le> 2 ^ 62"
  shows "\<exists>m. q_capacity q = 2 ^ m \<and> spsc_inv m 0 0 (spsc_init q p c)"
proof -
  obtain m r cr k where inv: "q_inv q p c m r cr k []"
    using new_queue_ok [OF assms(2,3), of T] assms(1) by (auto simp: q_rel_def)
  have "write_pos q = 0" "read_pos q = 0" "cached_read p = 0" "p_write p = 0"
    "cached_write c = 0" "c_read c = 0"
    using assms(1) by (auto simp: new_queue_def split: if_splits)
  then show ?thesis
    using inv by (intro exI [of _ m])
      (auto simp: q_inv_def inner_wf_capacity spsc_inv_def spsc_init_def positions_ok_def at_def idle_ok)
qed

theorem spsc_reachable_inv:
  assumes "spsc_reachable T cap s" "0 < unat cap" "unat cap \<le> 2 ^ 62"
  shows "\<exists>m a b. spsc_inv m a b s"
  using assms
  by (induction rule: spsc_reachable.induct) (blast dest: spsc_inv_init spsc_inv_step)+


section \<open>What the interleaving guarantees\<close>

lemma inv_fifo:
  assumes "spsc_inv m a b s"
  shows "sent s = recv s @ drop (length (recv s)) (sent s)"
    "total_len (drop (length (recv s)) (sent s)) \<le> 2 ^ m"
proof -
  let ?k = "length (recv s)"
  have "recv s = take ?k (sent s)" using assms by (auto simp: spsc_inv_def positions_ok_def)
  then show "sent s = recv s @ drop ?k (sent s)" by (metis append_take_drop_id)
  have "at s ?k + total_len (drop ?k (sent s)) = at s (length (sent s))"
    by (simp add: at_def flip: total_len_simps(3))
  then show "total_len (drop ?k (sent s)) \<le> 2 ^ m" using spsc_bounds [OF assms] by linarith
qed

text \<open>Loading the newest position, the reader gets at the whole head chunk.\<close>

lemma inv_progress:
  assumes inv: "spsc_inv m a b s" and some: "length (recv s) < length (sent s)" and idle: "rpc s = RIdle"
  shows "\<exists>n c'. available (see_write s (length (sent s))) (cns s) = (n, c') \<and>
     (0 < length (sent s ! length (recv s)) \<longrightarrow> length (sent s ! length (recv s)) \<le> unat n)"
proof -
  let ?k = "length (recv s)" and ?n = "length (sent s)"
  have j: "w_seen s \<le> ?n" "?n < length (w_hist s)"
    using inv by (auto simp: spsc_inv_def positions_ok_def)
  obtain b' n where b': "available (see_write s ?n) (cns s) = (n, cns s\<lparr>cached_write := of_nat (at s b')\<rparr>)"
    "unat n = at s b' - at s ?k" "at s ?k < at s ?n \<longrightarrow> at s ?k < at s b'"
    using poll_result [OF inv j] by blast
  have "length (sent s ! ?k) \<le> unat n" if "0 < length (sent s ! ?k)"
  proof -
    have "at s ?k < at s ?n" using that at_Suc [OF some] at_mono [of "Suc ?k" ?n s] some by linarith
    then have "at s ?k < at s b'" using b'(3) by simp
    then have "Suc ?k \<le> b'" using at_mono [of b' ?k s] by (metis not_less not_less_eq_eq)
    then show ?thesis using at_mono [of "Suc ?k" b' s] at_Suc [OF some] b'(2) by simp
  qed
  then show ?thesis using b'(1) by blast
qed

text \<open>
  No step of the producer can fault, whatever value its load returns; it refuses only when the
  chunk does not fit behind the chunks it has not yet seen read.
\<close>

lemma inv_no_fault:
  assumes "spsc_inv m a b s" "r_seen s \<le> j" "j < length (r_hist s)"
  shows "\<exists>res p'. try_reserve T (see_read s j) (prd s) n = Inr (res, p') \<and>
     (res = None \<longrightarrow> 2 ^ m < total_len (drop j (sent s)) + unat n)"
proof -
  have "total_len (sent s) - at s j = total_len (drop j (sent s))"
    using total_len_simps(3) [of "take j (sent s)" "drop j (sent s)"] by (simp add: at_def)
  then show ?thesis using reserve_result [OF assms, of T n] by (auto split: option.splits)
qed


section \<open>Properties\<close>

text \<open>
  A run for the witnesses: on a queue of two bytes the producer writes the chunk \<open>[7]\<close>, the
  consumer begins to read it and the producer reserves a place for \<open>[8]\<close>.
\<close>

definition demo_queue :: queue_inner where
  "demo_queue = \<lparr>buf = [0, 0, 0, 0], capacity = 2, pos_mask = 1, write_pos = 0, read_pos = 0\<rparr>"

definition demo_sent :: spsc where
  "demo_sent =
     \<lparr>shared = demo_queue\<lparr>buf := [7, 0, 0, 0], write_pos := 1\<rparr>,
      prd = \<lparr>cached_read = 0, p_write = 1\<rparr>, cns = \<lparr>cached_write = 0, c_read = 0\<rparr>,
      wpc = WIdle, rpc = RIdle, w_hist = [0, 1], r_hist = [0], w_seen = 0, r_seen = 0,
      sent = [[7]], recv = []\<rparr>"

definition demo_busy :: spsc where
  "demo_busy = demo_sent\<lparr>cns := \<lparr>cached_write = 1, c_read = 0\<rparr>, w_seen := 1,
     rpc := RCopying True 0 1 [], wpc := WFilling 1 [8] 0\<rparr>"

lemma spsc_step_to: "spsc_reachable T cap s \<Longrightarrow> spsc_step T s s0 \<Longrightarrow> s0 = s' \<Longrightarrow> spsc_reachable T cap s'"
  using spsc_next by blast

definition demo_start :: spsc where
  "demo_start = spsc_init demo_queue \<lparr>cached_read = 0, p_write = 0\<rparr> \<lparr>cached_write = 0, c_read = 0\<rparr>"

lemmas demo_defs = demo_start_def spsc_init_def demo_queue_def demo_sent_def demo_busy_def

lemma demo_start_reachable: "spsc_reachable T 2 demo_start"
proof -
  have "pow2_from 1 2 = 2" by (simp add: pow2_from.simps)
  then have np: "next_power_of_two T 2 = Inr 2" by (simp add: next_power_of_two_def del: One_nat_def)
  have "replicate 4 0 = [0, 0, 0, 0 :: u8]" by (simp add: eval_nat_numeral)
  then have "new_queue T 2 = Inr (demo_queue, \<lparr>cached_read = 0, p_write = 0\<rparr>, \<lparr>cached_write = 0, c_read = 0\<rparr>)"
    by (simp add: new_queue_def np mul_chk_def sub_chk_def demo_queue_def)
  then show ?thesis unfolding demo_start_def by (rule spsc_start)
qed

lemma demo_sent_reachable: "spsc_reachable T 2 demo_sent"
proof -
  have res: "try_reserve T (see_read demo_start 0) (prd demo_start) (of_nat (length [7 :: u8])) = Inr (Some 0, prd demo_start)"
    by (simp add: demo_defs see_read_def try_reserve_def sub_chk_def)
  have "spsc_reachable T 2 (demo_start\<lparr>prd := prd demo_start, wpc := WFilling (unat (0 :: usize)) [7] 0, r_seen := 0\<rparr>)"
    by (rule spsc_next [OF demo_start_reachable spsc_reserve [OF _ _ _ _ res]]) (simp_all add: demo_defs)
  then have "spsc_reachable T 2 (demo_start\<lparr>shared := demo_queue\<lparr>buf := [7, 0, 0, 0]\<rparr>, wpc := WFilling 0 [7] 1\<rparr>)"
    by (rule spsc_step_to [OF _ spsc_fill [of _ 0 "[7]" 0]]) (simp_all add: demo_defs)
  then show ?thesis
    by (rule spsc_step_to [OF _ spsc_publish [of _ 0 "[7]" "demo_queue\<lparr>buf := [7, 0, 0, 0], write_pos := 1\<rparr>"
          "\<lparr>cached_read = 0, p_write = 1\<rparr>"]])
       (simp_all add: demo_defs commit_def)
qed

lemma demo_busy_reachable: "spsc_reachable T 2 demo_busy"
proof -
  let ?c = "\<lparr>cached_write = 1, c_read = 0\<rparr>"
  let ?s = "demo_sent\<lparr>cns := ?c, w_seen := 1, rpc := RCopying True 0 1 []\<rparr>"
  have poll: "available (see_write demo_sent 1) (cns demo_sent) = (1, ?c)"
    by (simp add: demo_defs available_def see_write_def)
  have s: "spsc_reachable T 2 ?s"
    by (rule spsc_step_to [OF demo_sent_reachable spsc_begin [where j = 1 and len = 1 and adv = True, OF _ _ _ _ _ _ poll]])
       (simp_all add: demo_defs)
  have res: "try_reserve T (see_read ?s 0) (prd ?s) (of_nat (length [8 :: u8])) = Inr (Some 1, prd ?s)"
    by (simp add: demo_defs see_read_def try_reserve_def sub_chk_def)
  show ?thesis
    by (rule spsc_step_to [OF s spsc_reserve [OF _ _ _ _ res]]) (simp_all add: demo_defs)
qed

text \<open>C2. In every reachable state of the two threads, however they are interleaved and however stale
  the positions they have loaded, the region the producer is filling and the region the consumer is
  reading are inside the buffer and disjoint: the unsafe slices never race.\<close>

theorem spsc_race_free:
  assumes "spsc_reachable T cap s" "0 < unat cap" "unat cap \<le> 2 ^ 62"
    and "wpc s = WFilling off d i" "rpc s = RCopying adv off' len got"
  shows "off + length d \<le> length (buf (shared s)) \<and> off' + len \<le> length (buf (shared s)) \<and>
     (off' + len \<le> off \<or> off + length d \<le> off')"
  using spsc_reachable_inv [OF assms(1-3)] regions_disjoint [OF _ assms(4,5)] by blast

theorem spsc_race_free_witness:
  "(1 :: nat) + length [8 :: u8] \<le> length (buf (shared demo_busy)) \<and> (0 :: nat) + 1 \<le> length (buf (shared demo_busy)) \<and>
     ((0 :: nat) + 1 \<le> 1 \<or> (1 :: nat) + length [8 :: u8] \<le> 0)"
  by (rule spsc_race_free [OF demo_busy_reachable [of dev_build], where i = 0 and adv = True and got = "[]"])
     (simp_all add: demo_defs)

text \<open>C3. In every reachable state of the two threads the chunks received are exactly the first chunks
  sent, in order and byte for byte, and the bytes not yet received are at most the capacity.\<close>

theorem spsc_fifo:
  assumes "spsc_reachable T cap s" "0 < unat cap" "unat cap \<le> 2 ^ 62"
  shows "\<exists>rest. sent s = recv s @ rest \<and> total_len rest \<le> q_capacity (shared s)"
proof -
  obtain m a b where inv: "spsc_inv m a b s" using spsc_reachable_inv [OF assms] by blast
  then have "q_capacity (shared s) = 2 ^ m" by (intro inner_wf_capacity) (simp add: spsc_inv_def)
  then show ?thesis using inv_fifo [OF inv] by auto
qed

theorem spsc_fifo_witness:
  "\<exists>rest. sent demo_busy = recv demo_busy @ rest \<and> total_len rest \<le> q_capacity (shared demo_busy)"
  by (rule spsc_fifo [OF demo_busy_reachable [of dev_build]]) simp_all

text \<open>Whatever position its load returns, an idle producer's reservation never panics nor
  overflows, and it is refused only when the chunk does not fit behind those the producer has not seen
  read; the refusal is then no spurious one.\<close>

lemma spsc_reserve_total:
  assumes "spsc_reachable T cap s" "0 < unat cap" "unat cap \<le> 2 ^ 62"
    and "r_seen s \<le> j" "j < length (r_hist s)"
  shows "\<exists>res p'. try_reserve T (see_read s j) (prd s) n = Inr (res, p') \<and>
     (res = None \<longrightarrow> q_capacity (shared s) < total_len (drop j (sent s)) + unat n)"
proof -
  obtain m a b where inv: "spsc_inv m a b s" using spsc_reachable_inv [OF assms(1-3)] by blast
  then have "q_capacity (shared s) = 2 ^ m" by (intro inner_wf_capacity) (simp add: spsc_inv_def)
  then show ?thesis using inv_no_fault [OF inv assms(4,5), of T n] by simp
qed

text \<open>An idle consumer that loads the newest published position finds the whole oldest unread
  chunk available, so a read of it can begin: a published chunk is never stuck.\<close>

lemma spsc_consumer_progress:
  assumes "spsc_reachable T cap s" "0 < unat cap" "unat cap \<le> 2 ^ 62"
    and "length (recv s) < length (sent s)" "rpc s = RIdle"
  shows "\<exists>n c'. available (see_write s (length (sent s))) (cns s) = (n, c') \<and>
     (0 < length (sent s ! length (recv s)) \<longrightarrow> length (sent s ! length (recv s)) \<le> unat n)"
  using spsc_reachable_inv [OF assms(1-3)] inv_progress [OF _ assms(4,5)] by blast

end
