(* ===== verification/Encode.thy ===== *)
theory Encode
  imports Wire_Bytes
begin

text \<open>
  \<open>encode.rs\<close>: type tags and the binary encoding of log arguments. An argument is a tag byte
  followed by its value; strings and user-defined payloads carry a \<open>u32\<close> length. The bytes an
  \<open>encode_to\<close> writes at \<open>dst\<close> are modelled as the list of bytes written.
\<close>

section \<open>Type tags\<close>

datatype type_tag =
    TagI8 | TagI16 | TagI32 | TagI64 | TagI128
  | TagU8 | TagU16 | TagU32 | TagU64 | TagU128
  | TagF32 | TagF64 | TagBool | TagStr | TagUsize | TagIsize | TagCustom

fun tag_u8 :: "type_tag \<Rightarrow> u8" where
  "tag_u8 TagI8 = 0"
| "tag_u8 TagI16 = 1"
| "tag_u8 TagI32 = 2"
| "tag_u8 TagI64 = 3"
| "tag_u8 TagI128 = 4"
| "tag_u8 TagU8 = 5"
| "tag_u8 TagU16 = 6"
| "tag_u8 TagU32 = 7"
| "tag_u8 TagU64 = 8"
| "tag_u8 TagU128 = 9"
| "tag_u8 TagF32 = 10"
| "tag_u8 TagF64 = 11"
| "tag_u8 TagBool = 12"
| "tag_u8 TagStr = 13"
| "tag_u8 TagUsize = 14"
| "tag_u8 TagIsize = 15"
| "tag_u8 TagCustom = 16"

definition tag_try_from :: "u8 \<Rightarrow> type_tag option" where
  "tag_try_from value =
     (if value = 0 then Some TagI8
      else if value = 1 then Some TagI16
      else if value = 2 then Some TagI32
      else if value = 3 then Some TagI64
      else if value = 4 then Some TagI128
      else if value = 5 then Some TagU8
      else if value = 6 then Some TagU16
      else if value = 7 then Some TagU32
      else if value = 8 then Some TagU64
      else if value = 9 then Some TagU128
      else if value = 10 then Some TagF32
      else if value = 11 then Some TagF64
      else if value = 12 then Some TagBool
      else if value = 13 then Some TagStr
      else if value = 14 then Some TagUsize
      else if value = 15 then Some TagIsize
      else if value = 16 then Some TagCustom
      else None)"

lemma tag_roundtrip [simp]: "tag_try_from (tag_u8 t) = Some t"
  by (cases t) (simp_all add: tag_try_from_def)

lemma tag_try_from_Some: "tag_try_from b = Some t \<Longrightarrow> b = tag_u8 t"
  by (auto simp: tag_try_from_def split: if_splits)

lemma tag_try_from_None: "tag_try_from b = None \<longleftrightarrow> 16 < b"
proof
  assume "16 < b"
  then show "tag_try_from b = None"
    by (auto simp: tag_try_from_def)
next
  assume none: "tag_try_from b = None"
  show "16 < b"
  proof (rule ccontr)
    assume "\<not> 16 < b"
    then have "unat b \<in> set [0..<17]" by (simp add: word_less_nat_alt)
    then have "b \<in> of_nat ` set [0..<17]" by (metis image_eqI of_nat_unat ucast_id)
    then have "b \<in> {0, 1, 2, 3, 4, 5, 6, 7, 8, 9, 10, 11, 12, 13, 14, 15, 16}"
      by (simp add: upt_rec)
    then show False using none by (auto simp: tag_try_from_def)
  qed
qed


declare tag_u8.simps [simp del]


section \<open>Arguments\<close>

text \<open>
  A value of a user type that implements \<open>CustomEncode\<close>: the payload size it reports, the bytes
  \<open>encode_payload\<close> writes, and the address of its decoder function.
\<close>

record custom =
  payload_size :: nat
  encode_payload :: bytes
  decoder :: usize

text \<open>
  The implementors of \<open>Encode\<close>. Signed integers and floats are their bit patterns; a \<open>&str\<close> is
  its list of code points.
\<close>

datatype arg =
    ArgI8 u8 | ArgI16 u16 | ArgI32 u32 | ArgI64 u64 | ArgI128 u128
  | ArgU8 u8 | ArgU16 u16 | ArgU32 u32 | ArgU64 u64 | ArgU128 u128
  | ArgF32 u32 | ArgF64 u64 | ArgBool bool | ArgStr ustr
  | ArgUsize usize | ArgIsize usize | ArgCustom custom

fun arg_tag :: "arg \<Rightarrow> type_tag" where
  "arg_tag (ArgI8 _) = TagI8"
| "arg_tag (ArgI16 _) = TagI16"
| "arg_tag (ArgI32 _) = TagI32"
| "arg_tag (ArgI64 _) = TagI64"
| "arg_tag (ArgI128 _) = TagI128"
| "arg_tag (ArgU8 _) = TagU8"
| "arg_tag (ArgU16 _) = TagU16"
| "arg_tag (ArgU32 _) = TagU32"
| "arg_tag (ArgU64 _) = TagU64"
| "arg_tag (ArgU128 _) = TagU128"
| "arg_tag (ArgF32 _) = TagF32"
| "arg_tag (ArgF64 _) = TagF64"
| "arg_tag (ArgBool _) = TagBool"
| "arg_tag (ArgStr _) = TagStr"
| "arg_tag (ArgUsize _) = TagUsize"
| "arg_tag (ArgIsize _) = TagIsize"
| "arg_tag (ArgCustom _) = TagCustom"

text \<open>\<open>encoded_size\<close>: the tag byte, and the value's bytes.\<close>

fun encoded_size :: "arg \<Rightarrow> nat" where
  "encoded_size (ArgI8 _) = 1 + 1"
| "encoded_size (ArgI16 _) = 1 + 2"
| "encoded_size (ArgI32 _) = 1 + 4"
| "encoded_size (ArgI64 _) = 1 + 8"
| "encoded_size (ArgI128 _) = 1 + 16"
| "encoded_size (ArgU8 _) = 1 + 1"
| "encoded_size (ArgU16 _) = 1 + 2"
| "encoded_size (ArgU32 _) = 1 + 4"
| "encoded_size (ArgU64 _) = 1 + 8"
| "encoded_size (ArgU128 _) = 1 + 16"
| "encoded_size (ArgF32 _) = 1 + 4"
| "encoded_size (ArgF64 _) = 1 + 8"
| "encoded_size (ArgBool _) = 2"
| "encoded_size (ArgStr s) = 1 + 4 + length (as_bytes s)"
| "encoded_size (ArgUsize _) = 1 + 8"
| "encoded_size (ArgIsize _) = 1 + 8"
| "encoded_size (ArgCustom c) = 1 + 8 + 4 + payload_size c"

text \<open>\<open>impl_encode_ne_bytes!\<close>: the tag, then \<open>to_ne_bytes\<close>.\<close>

definition encode_fixed :: "target \<Rightarrow> type_tag \<Rightarrow> nat \<Rightarrow> 'a::len word \<Rightarrow> bytes" where
  "encode_fixed T t k w = tag_u8 t # to_ne (endian T) k w"

text \<open>
  \<open>encode_to\<close> of a \<open>&str\<close>: the length is cast to \<open>u32\<close> (truncating above 4 GiB), the bytes are
  copied in full.
\<close>

definition encode_str :: "target \<Rightarrow> ustr \<Rightarrow> bytes" where
  "encode_str T s =
     (let bs = as_bytes s
      in tag_u8 TagStr # to_ne (endian T) 4 (of_nat (length bs) :: u32) @ bs)"

text \<open>The blanket \<open>Encode\<close> impl of a \<open>CustomEncode\<close> type, with its \<open>debug_assert!\<close>.\<close>

definition encode_custom :: "target \<Rightarrow> custom \<Rightarrow> fault + bytes" where
  "encode_custom T c =
     (if checks T \<and> \<not> payload_size c < 2 ^ 32 then Inl PanicAssert
      else Inr (tag_u8 TagCustom # to_ne (endian T) 8 (decoder c)
                @ to_ne (endian T) 4 (of_nat (payload_size c) :: u32) @ encode_payload c))"

fun encode_to :: "target \<Rightarrow> arg \<Rightarrow> fault + bytes" where
  "encode_to T (ArgI8 w) = Inr (encode_fixed T TagI8 1 w)"
| "encode_to T (ArgI16 w) = Inr (encode_fixed T TagI16 2 w)"
| "encode_to T (ArgI32 w) = Inr (encode_fixed T TagI32 4 w)"
| "encode_to T (ArgI64 w) = Inr (encode_fixed T TagI64 8 w)"
| "encode_to T (ArgI128 w) = Inr (encode_fixed T TagI128 16 w)"
| "encode_to T (ArgU8 w) = Inr (encode_fixed T TagU8 1 w)"
| "encode_to T (ArgU16 w) = Inr (encode_fixed T TagU16 2 w)"
| "encode_to T (ArgU32 w) = Inr (encode_fixed T TagU32 4 w)"
| "encode_to T (ArgU64 w) = Inr (encode_fixed T TagU64 8 w)"
| "encode_to T (ArgU128 w) = Inr (encode_fixed T TagU128 16 w)"
| "encode_to T (ArgF32 w) = Inr (encode_fixed T TagF32 4 w)"
| "encode_to T (ArgF64 w) = Inr (encode_fixed T TagF64 8 w)"
| "encode_to T (ArgBool b) = Inr [tag_u8 TagBool, if b then 1 else 0]"
| "encode_to T (ArgStr s) = Inr (encode_str T s)"
| "encode_to T (ArgUsize w) = Inr (encode_fixed T TagUsize 8 w)"
| "encode_to T (ArgIsize w) = Inr (encode_fixed T TagIsize 8 w)"
| "encode_to T (ArgCustom c) = encode_custom T c"


section \<open>The encoder keeps its contract\<close>

text \<open>What a \<open>CustomEncode\<close> implementation promises (its \<open># Safety\<close> clause 1).\<close>

definition custom_ok :: "custom \<Rightarrow> bool" where
  "custom_ok c \<longleftrightarrow> length (encode_payload c) = payload_size c"

text \<open>The arguments the crate supports: valid strings and payloads below 4 GiB.\<close>

fun arg_ok :: "arg \<Rightarrow> bool" where
  "arg_ok (ArgStr s) \<longleftrightarrow> str_ok s \<and> length (as_bytes s) < 2 ^ 32"
| "arg_ok (ArgCustom c) \<longleftrightarrow> custom_ok c \<and> payload_size c < 2 ^ 32"
| "arg_ok _ \<longleftrightarrow> True"

fun custom_arg_ok :: "arg \<Rightarrow> bool" where
  "custom_arg_ok (ArgCustom c) \<longleftrightarrow> custom_ok c"
| "custom_arg_ok _ \<longleftrightarrow> True"

lemmas encode_simps = encode_fixed_def encode_str_def encode_custom_def

text \<open>\<open>Encode\<close>'s own contract: exactly \<open>encoded_size\<close> bytes, the first of them the tag.\<close>

lemma encode_to_length:
  "custom_arg_ok a \<Longrightarrow> encode_to T a = Inr bs \<Longrightarrow> length bs = encoded_size a"
  by (cases a) (auto simp: encode_simps custom_ok_def Let_def split: if_splits)

lemma encode_to_tag: "encode_to T a = Inr bs \<Longrightarrow> \<exists>r. bs = tag_u8 (arg_tag a) # r"
  by (cases a) (auto simp: encode_simps Let_def split: if_splits)

lemma encode_to_total: "arg_ok a \<Longrightarrow> \<exists>bs. encode_to T a = Inr bs"
  by (cases a) (auto simp: encode_simps)

lemma encode_to_panics:
  "encode_to T a = Inl f \<longleftrightarrow>
     f = PanicAssert \<and> checks T \<and> (\<exists>c. a = ArgCustom c \<and> 2 ^ 32 \<le> payload_size c)"
  by (cases a) (auto simp: encode_simps Let_def)

lemma arg_ok_custom: "arg_ok a \<Longrightarrow> custom_arg_ok a"
  by (cases a) auto

lemma encoded_size_pos [simp]: "0 < encoded_size a"
  by (cases a) auto

section \<open>Properties\<close>



end
