(* ===== verification/Log_Level.thy ===== *)
theory Log_Level
  imports Rust_Num
begin

text \<open>
  \<open>level.rs\<close>: the five severities, their discriminants (spaced by ten), the conversion back
  from a byte, the labels, and the derived order, which both filters of the library compare with.
\<close>

datatype log_level = Trace | Debug | Info | Warning | Error

text \<open>The discriminant: \<open>level as u8\<close>.\<close>

fun level_u8 :: "log_level \<Rightarrow> u8" where
  "level_u8 Trace = 10"
| "level_u8 Debug = 20"
| "level_u8 Info = 30"
| "level_u8 Warning = 40"
| "level_u8 Error = 50"

text \<open>\<open>TryFrom<u8>\<close>: an unknown discriminant is returned as the error.\<close>

definition level_try_from :: "u8 \<Rightarrow> u8 + log_level" where
  "level_try_from value =
     (if value = 10 then Inr Trace
      else if value = 20 then Inr Debug
      else if value = 30 then Inr Info
      else if value = 40 then Inr Warning
      else if value = 50 then Inr Error
      else Inl value)"

fun level_label :: "log_level \<Rightarrow> ustr" where
  "level_label Trace = lit ''TRACE''"
| "level_label Debug = lit ''DEBUG''"
| "level_label Info = lit ''INFO''"
| "level_label Warning = lit ''WARNING''"
| "level_label Error = lit ''ERROR''"

text \<open>The derived \<open>PartialOrd\<close> and \<open>Ord\<close> compare discriminants.\<close>

instantiation log_level :: linorder
begin

definition less_eq_log_level :: "log_level \<Rightarrow> log_level \<Rightarrow> bool" where
  "less_eq_log_level a b \<longleftrightarrow> level_u8 a \<le> level_u8 b"

definition less_log_level :: "log_level \<Rightarrow> log_level \<Rightarrow> bool" where
  "less_log_level a b \<longleftrightarrow> level_u8 a < level_u8 b"

instance
proof
  fix a b c :: log_level
  show "(a < b) = (a \<le> b \<and> \<not> b \<le> a)"
    by (auto simp: less_eq_log_level_def less_log_level_def)
  show "a \<le> a" by (simp add: less_eq_log_level_def)
  show "a \<le> b \<Longrightarrow> b \<le> c \<Longrightarrow> a \<le> c" by (auto simp: less_eq_log_level_def)
  show "a \<le> b \<Longrightarrow> b \<le> a \<Longrightarrow> a = b"
    by (cases a; cases b) (simp_all add: less_eq_log_level_def)
  show "a \<le> b \<or> b \<le> a" by (auto simp: less_eq_log_level_def)
qed

end

lemma level_roundtrip [simp]: "level_try_from (level_u8 l) = Inr l"
  by (cases l) (simp_all add: level_try_from_def)

lemma level_try_from_Inr: "level_try_from b = Inr l \<longleftrightarrow> b = level_u8 l"
  by (cases l) (auto simp: level_try_from_def)

lemma level_try_from_Inl: "level_try_from b = Inl e \<longleftrightarrow> e = b \<and> b \<notin> range level_u8"
proof -
  have "b \<in> range level_u8 \<longleftrightarrow> (\<exists>l. level_try_from b = Inr l)"
    by (auto simp: level_try_from_Inr)
  moreover have "level_try_from b = Inl e \<Longrightarrow> e = b"
    by (auto simp: level_try_from_def split: if_splits)
  moreover have "\<nexists>l. level_try_from b = Inr l \<Longrightarrow> level_try_from b = Inl b"
    by (auto simp: level_try_from_def split: if_splits)
  ultimately show ?thesis by (cases "level_try_from b") auto
qed

lemma level_order:
  "Trace < Debug" "Debug < Info" "Info < Warning" "Warning < Error"
  by (simp_all add: less_log_level_def)

section \<open>Properties\<close>

text \<open>The numeric codes of the levels are exactly 10, 20, 30, 40 and 50: a byte converts to a level
  when and only when it is that level's code, and any other byte is returned as the error.\<close>

lemma level_conversion_exact:
  "(level_try_from b = Inr l \<longleftrightarrow> b = level_u8 l) \<and>
   (level_try_from b = Inl e \<longleftrightarrow> e = b \<and> b \<notin> {10, 20, 30, 40, 50})"
proof -
  have UNIV: "UNIV = {Trace, Debug, Info, Warning, Error}" by (auto intro: log_level.exhaust)
  have "range level_u8 = {10, 20, 30, 40, 50}"
    unfolding UNIV by (simp only: image_insert image_empty level_u8.simps)
  then show ?thesis by (simp add: level_try_from_Inr level_try_from_Inl)
qed

end
