(* ===== verification/Record_Header.thy ===== *)
theory Record_Header
  imports Log_Level Wire_Bytes
begin

text \<open>
  \<open>metadata.rs\<close> and \<open>record.rs\<close>: the static metadata of a call site and the fixed header of a
  queue record. The header is \<open>repr(C)\<close>: on a 64-bit target its fields lie at offsets 0, 8, 16, 24
  and 28 without gaps, 32 bytes in all; \<open>write_to\<close> copies the struct, \<open>read_unaligned\<close> reads
  it back.
\<close>

record log_metadata =
  md_level :: log_level
  fmt_str :: ustr
  md_file :: ustr
  md_line :: u32
  module_path :: ustr
  arg_count :: u8

record record_header =
  timestamp_ns :: u64
  metadata_ptr :: usize
  logger_ptr :: usize
  encoded_args_size :: u32
  padding :: u32

definition header_size :: nat where
  "header_size = 32"

definition new_header :: "u64 \<Rightarrow> usize \<Rightarrow> usize \<Rightarrow> u32 \<Rightarrow> record_header" where
  "new_header ts mp lp n =
     \<lparr>timestamp_ns = ts, metadata_ptr = mp, logger_ptr = lp, encoded_args_size = n, padding = 0\<rparr>"

definition write_header :: "target \<Rightarrow> record_header \<Rightarrow> bytes" where
  "write_header T h =
     to_ne (endian T) 8 (timestamp_ns h) @ to_ne (endian T) 8 (metadata_ptr h)
     @ to_ne (endian T) 8 (logger_ptr h) @ to_ne (endian T) 4 (encoded_args_size h)
     @ to_ne (endian T) 4 (padding h)"

definition read_header :: "target \<Rightarrow> bytes \<Rightarrow> record_header" where
  "read_header T bs =
     \<lparr>timestamp_ns = from_ne (endian T) (subslice 0 8 bs),
      metadata_ptr = from_ne (endian T) (subslice 8 8 bs),
      logger_ptr = from_ne (endian T) (subslice 16 8 bs),
      encoded_args_size = from_ne (endian T) (subslice 24 4 bs),
      padding = from_ne (endian T) (subslice 28 4 bs)\<rparr>"

lemma new_header_simps [simp]:
  "timestamp_ns (new_header ts mp lp n) = ts"
  "metadata_ptr (new_header ts mp lp n) = mp"
  "logger_ptr (new_header ts mp lp n) = lp"
  "encoded_args_size (new_header ts mp lp n) = n"
  "padding (new_header ts mp lp n) = 0"
  by (simp_all add: new_header_def)

lemma length_write_header [simp]: "length (write_header T h) = header_size"
  by (simp add: write_header_def header_size_def)

lemma read_write_header [simp]: "read_header T (write_header T h @ r) = h"
  by (simp add: read_header_def write_header_def subslice_def)

lemma read_header_take: "32 \<le> n \<Longrightarrow> read_header T (take n bs) = read_header T bs"
  by (simp add: read_header_def subslice_def drop_take min_def)

end
