(* ===== verification/Decode.thy ===== *)
theory Decode
  imports Encode Record_Header
begin

text \<open>
  \<open>decode.rs\<close>: decoding of one argument and of a whole record from a byte subslice. Pointers found
  in the bytes are resolved in explicit memories: decoder functions by address and call-site
  metadata by address. Following an address that holds nothing of the kind is undefined behaviour
  and a separate outcome, as is a panic of a user decoder.
\<close>

section \<open>Results\<close>

datatype decode_error = BufferTooShort | UnknownTag u8 | InvalidUtf8 | DecoderFailed

datatype decoded_arg =
    DI8 u8 | DI16 u16 | DI32 u32 | DI64 u64 | DI128 u128
  | DU8 u8 | DU16 u16 | DU32 u32 | DU64 u64 | DU128 u128
  | DF32 u32 | DF64 u64 | DBool bool | DStr ustr
  | DUsize u64 | DIsize u64 | DCustom ustr

text \<open>\<open>decode_one\<close> and \<open>decode_record\<close> return an error value, or do not return.\<close>

datatype decode_stop = DecodeErr decode_error | Faulted fault

text \<open>
  A user decoder writes text and returns \<open>fmt::Result\<close>, or panics (the documentation allows
  indexing that panics out of range).
\<close>

datatype decoder_outcome = Wrote ustr | FmtError | DecoderPanics

type_synonym decoder_fn = "bytes \<Rightarrow> decoder_outcome"
type_synonym decoder_mem = "usize \<Rightarrow> decoder_fn option"

text \<open>\<open>Display\<close> of floats is Rust's own and stays a parameter.\<close>

record float_fmt =
  show_f32 :: "u32 \<Rightarrow> ustr"
  show_f64 :: "u64 \<Rightarrow> ustr"

fun display_arg :: "float_fmt \<Rightarrow> decoded_arg \<Rightarrow> ustr" where
  "display_arg F (DI8 v) = show_int (sint v)"
| "display_arg F (DI16 v) = show_int (sint v)"
| "display_arg F (DI32 v) = show_int (sint v)"
| "display_arg F (DI64 v) = show_int (sint v)"
| "display_arg F (DI128 v) = show_int (sint v)"
| "display_arg F (DU8 v) = show_nat (unat v)"
| "display_arg F (DU16 v) = show_nat (unat v)"
| "display_arg F (DU32 v) = show_nat (unat v)"
| "display_arg F (DU64 v) = show_nat (unat v)"
| "display_arg F (DU128 v) = show_nat (unat v)"
| "display_arg F (DF32 v) = show_f32 F v"
| "display_arg F (DF64 v) = show_f64 F v"
| "display_arg F (DBool v) = show_bool v"
| "display_arg F (DStr v) = v"
| "display_arg F (DUsize v) = show_nat (unat v)"
| "display_arg F (DIsize v) = show_int (sint v)"
| "display_arg F (DCustom v) = v"


section \<open>One argument\<close>

definition decode_fixed :: "nat \<Rightarrow> bytes \<Rightarrow> (bytes \<Rightarrow> decoded_arg) \<Rightarrow>
    decode_stop + decoded_arg \<times> nat" where
  "decode_fixed n data mk =
     (if length data < n then Inl (DecodeErr BufferTooShort)
      else Inr (mk (take n data), 1 + n))"

definition decode_str :: "target \<Rightarrow> bytes \<Rightarrow> decode_stop + decoded_arg \<times> nat" where
  "decode_str T data =
     (if length data < 4 then Inl (DecodeErr BufferTooShort)
      else let len = unat (from_ne (endian T) (take 4 data) :: u32)
      in if length data < 4 + len then Inl (DecodeErr BufferTooShort)
      else case from_utf8 (subslice 4 len data) of
             None \<Rightarrow> Inl (DecodeErr InvalidUtf8)
           | Some s \<Rightarrow> Inr (DStr s, 1 + 4 + len))"

text \<open>
  The length prefix and the presence of the payload are checked before the function pointer is
  read; only then is the decoder called on exactly the payload.
\<close>

definition decode_custom :: "target \<Rightarrow> decoder_mem \<Rightarrow> bytes \<Rightarrow>
    decode_stop + decoded_arg \<times> nat" where
  "decode_custom T D data =
     (if length data < 8 + 4 then Inl (DecodeErr BufferTooShort)
      else let payload_len = unat (from_ne (endian T) (subslice 8 4 data) :: u32)
      in if length data < 8 + 4 + payload_len then Inl (DecodeErr BufferTooShort)
      else case D (from_ne (endian T) (take 8 data)) of
             None \<Rightarrow> Inl (Faulted UbDangling)
           | Some f \<Rightarrow>
               (case f (subslice (8 + 4) payload_len data) of
                  Wrote out \<Rightarrow> Inr (DCustom out, 1 + 8 + 4 + payload_len)
                | FmtError \<Rightarrow> Inl (DecodeErr DecoderFailed)
                | DecoderPanics \<Rightarrow> Inl (Faulted PanicDecoder)))"

definition decode_tagged :: "target \<Rightarrow> decoder_mem \<Rightarrow> type_tag \<Rightarrow> bytes \<Rightarrow>
    decode_stop + decoded_arg \<times> nat" where
  "decode_tagged T D t rest =
     (let e = endian T in
      case t of
        TagI8 \<Rightarrow> decode_fixed 1 rest (\<lambda>b. DI8 (from_ne e b))
      | TagI16 \<Rightarrow> decode_fixed 2 rest (\<lambda>b. DI16 (from_ne e b))
      | TagI32 \<Rightarrow> decode_fixed 4 rest (\<lambda>b. DI32 (from_ne e b))
      | TagI64 \<Rightarrow> decode_fixed 8 rest (\<lambda>b. DI64 (from_ne e b))
      | TagI128 \<Rightarrow> decode_fixed 16 rest (\<lambda>b. DI128 (from_ne e b))
      | TagU8 \<Rightarrow> decode_fixed 1 rest (\<lambda>b. DU8 (from_ne e b))
      | TagU16 \<Rightarrow> decode_fixed 2 rest (\<lambda>b. DU16 (from_ne e b))
      | TagU32 \<Rightarrow> decode_fixed 4 rest (\<lambda>b. DU32 (from_ne e b))
      | TagU64 \<Rightarrow> decode_fixed 8 rest (\<lambda>b. DU64 (from_ne e b))
      | TagU128 \<Rightarrow> decode_fixed 16 rest (\<lambda>b. DU128 (from_ne e b))
      | TagF32 \<Rightarrow> decode_fixed 4 rest (\<lambda>b. DF32 (from_ne e b))
      | TagF64 \<Rightarrow> decode_fixed 8 rest (\<lambda>b. DF64 (from_ne e b))
      | TagBool \<Rightarrow> decode_fixed 1 rest (\<lambda>b. DBool (b ! 0 \<noteq> 0))
      | TagStr \<Rightarrow> decode_str T rest
      | TagUsize \<Rightarrow> decode_fixed 8 rest (\<lambda>b. DUsize (from_ne e b))
      | TagIsize \<Rightarrow> decode_fixed 8 rest (\<lambda>b. DIsize (from_ne e b))
      | TagCustom \<Rightarrow> decode_custom T D rest)"

definition decode_one :: "target \<Rightarrow> decoder_mem \<Rightarrow> bytes \<Rightarrow> decode_stop + decoded_arg \<times> nat" where
  "decode_one T D data =
     (case data of
        [] \<Rightarrow> Inl (DecodeErr BufferTooShort)
      | tag_byte # rest \<Rightarrow>
          (case tag_try_from tag_byte of
             None \<Rightarrow> Inl (DecodeErr (UnknownTag tag_byte))
           | Some t \<Rightarrow> decode_tagged T D t rest))"

lemmas decode_simps = decode_fixed_def decode_str_def decode_custom_def Let_def

text \<open>Every successful decode consumes at least the tag and never more than there is.\<close>

lemma decode_tagged_consumed:
  "decode_tagged T D t rest = Inr (a, k) \<Longrightarrow> 0 < k \<and> k \<le> Suc (length rest)"
  by (cases t)
     (auto simp: decode_tagged_def decode_simps Suc_le_eq
           split: if_splits option.splits decoder_outcome.splits)

lemma decode_one_consumed: "decode_one T D data = Inr (a, k) \<Longrightarrow> 0 < k \<and> k \<le> length data"
  by (auto simp: decode_one_def dest!: decode_tagged_consumed split: list.splits option.splits)


section \<open>A whole record\<close>

text \<open>
  The argument loop \<open>while offset < args_end\<close>: decodes at \<open>offset\<close>, pushes, advances by what was
  consumed, and stops at the first error.
\<close>

function decode_args :: "target \<Rightarrow> decoder_mem \<Rightarrow> bytes \<Rightarrow> nat \<Rightarrow> nat \<Rightarrow>
    decode_stop + decoded_arg list" where
  "decode_args T D args_data offset args_end =
     (if offset < args_end then
        rbind (decode_one T D (subslice offset (args_end - offset) args_data))
          (\<lambda>(arg, consumed).
             rbind (decode_args T D args_data (offset + consumed) args_end)
               (\<lambda>args. Inr (arg # args)))
      else Inr [])"
  by pat_completeness auto
termination
  by (relation "measure (\<lambda>(T, D, args_data, offset, args_end). args_end - offset)")
     (auto dest!: decode_one_consumed)

declare decode_args.simps [simp del]

record raw_record =
  raw_timestamp :: u64
  raw_logger :: usize
  raw_metadata :: log_metadata
  raw_args :: "decoded_arg list"

text \<open>What the sinks and formatters see.\<close>

record log_record =
  lr_timestamp :: u64
  lr_logger_name :: ustr
  lr_metadata :: log_metadata
  lr_args :: "decoded_arg list"

type_synonym metadata_mem = "usize \<Rightarrow> log_metadata option"

definition decode_record :: "target \<Rightarrow> decoder_mem \<Rightarrow> metadata_mem \<Rightarrow> bytes \<Rightarrow>
    decode_stop + raw_record" where
  "decode_record T D M data =
     (if length data < header_size then Inl (DecodeErr BufferTooShort)
      else let header = read_header T data;
               args_data = drop header_size data;
               args_end = unat (encoded_args_size header)
      in if length args_data < args_end then Inl (DecodeErr BufferTooShort)
      else case M (metadata_ptr header) of
             None \<Rightarrow> Inl (Faulted UbDangling)
           | Some metadata \<Rightarrow>
               rbind (decode_args T D args_data 0 args_end)
                 (\<lambda>args. Inr \<lparr>raw_timestamp = timestamp_ns header,
                              raw_logger = logger_ptr header,
                              raw_metadata = metadata, raw_args = args\<rparr>))"


section \<open>Round trip with the encoder\<close>

text \<open>The value the backend should see for an argument.\<close>

fun decoded_of :: "decoder_mem \<Rightarrow> arg \<Rightarrow> decode_stop + decoded_arg" where
  "decoded_of D (ArgI8 w) = Inr (DI8 w)"
| "decoded_of D (ArgI16 w) = Inr (DI16 w)"
| "decoded_of D (ArgI32 w) = Inr (DI32 w)"
| "decoded_of D (ArgI64 w) = Inr (DI64 w)"
| "decoded_of D (ArgI128 w) = Inr (DI128 w)"
| "decoded_of D (ArgU8 w) = Inr (DU8 w)"
| "decoded_of D (ArgU16 w) = Inr (DU16 w)"
| "decoded_of D (ArgU32 w) = Inr (DU32 w)"
| "decoded_of D (ArgU64 w) = Inr (DU64 w)"
| "decoded_of D (ArgU128 w) = Inr (DU128 w)"
| "decoded_of D (ArgF32 w) = Inr (DF32 w)"
| "decoded_of D (ArgF64 w) = Inr (DF64 w)"
| "decoded_of D (ArgBool b) = Inr (DBool b)"
| "decoded_of D (ArgStr s) = Inr (DStr s)"
| "decoded_of D (ArgUsize w) = Inr (DUsize w)"
| "decoded_of D (ArgIsize w) = Inr (DIsize w)"
| "decoded_of D (ArgCustom c) =
     (case D (decoder c) of
        None \<Rightarrow> Inl (Faulted UbDangling)
      | Some f \<Rightarrow> (case f (encode_payload c) of
                     Wrote s \<Rightarrow> Inr (DCustom s)
                   | FmtError \<Rightarrow> Inl (DecodeErr DecoderFailed)
                   | DecoderPanics \<Rightarrow> Inl (Faulted PanicDecoder)))"

lemma decode_one_tag: "decode_one T D (tag_u8 t # rest) = decode_tagged T D t rest"
  by (simp add: decode_one_def)

lemma decode_fixed_append:
  "length bs = n \<Longrightarrow> decode_fixed n (bs @ r) mk = Inr (mk bs, 1 + n)"
  by (simp add: decode_fixed_def)

lemma decode_str_encode:
  assumes "str_ok s" "length (as_bytes s) < 2 ^ 32"
  shows "decode_str T (to_ne (endian T) 4 (of_nat (length (as_bytes s)) :: u32) @ as_bytes s @ r)
           = Inr (DStr s, 1 + 4 + length (as_bytes s))"
proof -
  have "unat (of_nat (length (as_bytes s)) :: u32) = length (as_bytes s)"
    using assms(2) by (simp add: unat_of_nat take_bit_eq_mod)
  then show ?thesis
    using assms(1) by (simp add: decode_str_def subslice_def from_utf8_as_bytes)
qed

lemma decode_custom_encode:
  assumes "custom_ok c" "payload_size c < 2 ^ 32"
  shows "decode_custom T D (to_ne (endian T) 8 (decoder c)
           @ to_ne (endian T) 4 (of_nat (payload_size c) :: u32) @ encode_payload c @ r)
         = rbind (decoded_of D (ArgCustom c)) (\<lambda>d. Inr (d, 1 + 8 + 4 + payload_size c))"
proof -
  have "unat (of_nat (payload_size c) :: u32) = payload_size c"
    using assms(2) by (simp add: unat_of_nat take_bit_eq_mod)
  then show ?thesis
    using assms(1)
    by (simp add: decode_custom_def subslice_def custom_ok_def
             split: option.split decoder_outcome.split)
qed

text \<open>
  The codec round trip: whatever follows the encoding of a supported argument, decoding returns
  its value and the size the encoder announced.
\<close>

lemma decode_encode:
  assumes "arg_ok a" "encode_to T a = Inr bs"
  shows "decode_one T D (bs @ r) = rbind (decoded_of D a) (\<lambda>d. Inr (d, encoded_size a))"
proof (cases a)
  case (ArgStr s)
  then show ?thesis
    using assms decode_str_encode [of s T r]
    by (auto simp: encode_str_def Let_def decode_one_tag decode_tagged_def)
next
  case (ArgCustom c)
  then show ?thesis
    using assms decode_custom_encode [of c T D r]
    by (auto simp: encode_custom_def decode_one_tag decode_tagged_def split: if_splits)
qed (use assms in \<open>auto simp: encode_fixed_def decode_one_tag decode_tagged_def
        decode_fixed_append Let_def decode_fixed_def\<close>)

text \<open>The concatenated encodings of a list of arguments, and the values they stand for.\<close>

definition encode_args :: "target \<Rightarrow> arg list \<Rightarrow> fault + bytes" where
  "encode_args T args = rconcat (map (encode_to T) args)"

fun decoded_all :: "decoder_mem \<Rightarrow> arg list \<Rightarrow> decode_stop + decoded_arg list" where
  "decoded_all D [] = Inr []"
| "decoded_all D (a # as) =
     rbind (decoded_of D a) (\<lambda>d. rbind (decoded_all D as) (\<lambda>ds. Inr (d # ds)))"

lemma length_encode_args:
  "list_all custom_arg_ok as \<Longrightarrow> encode_args T as = Inr bs \<Longrightarrow>
   length bs = sum_list (map encoded_size as)"
  by (induction as arbitrary: bs) (auto simp: encode_args_def encode_to_length)

lemma encode_args_total: "list_all arg_ok as \<Longrightarrow> \<exists>bs. encode_args T as = Inr bs"
proof (induction as)
  case (Cons a as)
  then obtain bs where "encode_args T as = Inr bs" by auto
  moreover obtain b where "encode_to T a = Inr b" using Cons.prems encode_to_total by auto
  ultimately show ?case by (auto simp: encode_args_def)
qed (simp add: encode_args_def)

lemma decode_args_encode:
  assumes "list_all arg_ok as" "encode_args T as = Inr bs"
  shows "decode_args T D (pre @ bs @ r) (length pre) (length pre + length bs) = decoded_all D as"
  using assms
proof (induction as arbitrary: pre bs)
  case Nil
  then show ?case by (simp add: encode_args_def decode_args.simps)
next
  case (Cons a as)
  then obtain b bs' where b: "encode_to T a = Inr b" and bs': "encode_args T as = Inr bs'"
    and bs: "bs = b @ bs'" by (auto simp: encode_args_def)
  have ok: "arg_ok a" "list_all arg_ok as" using Cons.prems by auto
  have lb: "length b = encoded_size a" using b ok(1) by (simp add: encode_to_length arg_ok_custom)
  have pos: "0 < length b" unfolding lb by simp
  have one: "decode_one T D (b @ bs') = rbind (decoded_of D a) (\<lambda>d. Inr (d, length b))"
    using decode_encode [OF ok(1) b] lb by simp
  have rest: "decode_args T D (pre @ b @ bs' @ r) (length pre + length b)
      (length pre + (length b + length bs')) = decoded_all D as"
    using Cons.IH [OF ok(2) bs', of "pre @ b"] by (simp add: add.assoc)
  show ?case
    using pos
    by (subst decode_args.simps) (simp add: bs subslice_def one rest rbind_def split: sum.split)
qed

lemma decode_record_encode:
  assumes "list_all arg_ok as" "encode_args T as = Inr bs" "length bs < 2 ^ 32"
    and "M mp = Some md"
  shows "decode_record T D M (write_header T (new_header ts mp lp (of_nat (length bs))) @ bs) =
     rbind (decoded_all D as)
       (\<lambda>ds. Inr \<lparr>raw_timestamp = ts, raw_logger = lp, raw_metadata = md, raw_args = ds\<rparr>)"
proof -
  have "unat (of_nat (length bs) :: u32) = length bs"
    using assms(3) by (simp add: unat_of_nat take_bit_eq_mod)
  moreover have "decode_args T D bs 0 (length bs) = decoded_all D as"
    using decode_args_encode [OF assms(1,2), of D "[]" "[]"] by simp
  ultimately show ?thesis using assms(4) by (simp add: decode_record_def Let_def)
qed

text \<open>
  No fault without a bad pointer or a panicking decoder: if every decoder address in the bytes is
  known and decoders do not panic, and the metadata is known, decoding ends in a value or an error.
\<close>

definition decoders_safe :: "decoder_mem \<Rightarrow> bool" where
  "decoders_safe D \<longleftrightarrow> (\<forall>p f bs. D p = Some f \<longrightarrow> f bs \<noteq> DecoderPanics)"

section \<open>What the decoder accepts\<close>

text \<open>
  Conversely, what decodes is an encoding: the bytes consumed are those of a supported argument
  with the value decoded. The one exception is a boolean byte other than 0 and 1, which the decoder
  reads as true and no encoder writes.
\<close>

definition canonical_bool :: "bytes \<Rightarrow> bool" where
  "canonical_bool data \<longleftrightarrow> (case data of t # b # _ \<Rightarrow> t = tag_u8 TagBool \<longrightarrow> b = 0 \<or> b = 1 | _ \<Rightarrow> True)"

definition encodes :: "target \<Rightarrow> decoder_mem \<Rightarrow> bytes \<Rightarrow> decoded_arg \<Rightarrow> bool" where
  "encodes T D bs v \<longleftrightarrow> (\<exists>a. arg_ok a \<and> encode_to T a = Inr bs \<and> decoded_of D a = Inr v)"

lemma encodesI: "encode_to T a = Inr bs \<Longrightarrow> arg_ok a \<Longrightarrow> decoded_of D a = Inr v \<Longrightarrow> encodes T D bs v"
  by (auto simp: encodes_def)

lemma decode_str_accepts:
  assumes "decode_str T rest = Inr (v, k)"
  shows "encodes T D (tag_u8 TagStr # take (k - 1) rest) v"
proof -
  let ?w = "from_ne (endian T) (take 4 rest) :: u32"
  obtain s where v: "v = DStr s" and k: "k = 1 + 4 + unat ?w" and len: "4 + unat ?w \<le> length rest"
    and utf: "from_utf8 (subslice 4 (unat ?w) rest) = Some s"
    using assms by (auto simp: decode_str_def Let_def split: if_splits option.splits)
  have ok: "str_ok s" and bs: "as_bytes s = subslice 4 (unat ?w) rest"
    using as_bytes_from_utf8 [OF utf] by auto
  have n: "length (as_bytes s) = unat ?w" using len by (simp add: bs)
  have w: "(of_nat (length (as_bytes s)) :: u32) = ?w" by (simp only: n) simp
  have "to_ne (endian T) 4 ?w = take 4 rest"
    using len by (intro to_ne_from_ne_len) auto
  then have "take (k - 1) rest = to_ne (endian T) 4 (of_nat (length (as_bytes s)) :: u32) @ as_bytes s"
    unfolding w unfolding bs k by (simp add: subslice_def take_add)
  moreover have "unat ?w < 2 ^ 32" using unsigned_less [of ?w] by simp
  ultimately show ?thesis
    using ok n v by (intro encodesI [of _ "ArgStr s"]) (auto simp: encode_str_def Let_def)
qed

lemma decode_custom_accepts:
  assumes "decode_custom T D rest = Inr (v, k)"
  shows "encodes T D (tag_u8 TagCustom # take (k - 1) rest) v"
proof -
  let ?w = "from_ne (endian T) (subslice 8 4 rest) :: u32"
    and ?p = "from_ne (endian T) (take 8 rest) :: usize"
  obtain f out where f: "D ?p = Some f" "f (subslice 12 (unat ?w) rest) = Wrote out"
    and v: "v = DCustom out" and k: "k = 1 + 8 + 4 + unat ?w" and len: "12 + unat ?w \<le> length rest"
    using assms by (auto simp: decode_custom_def Let_def split: if_splits option.splits decoder_outcome.splits)
  let ?c = "\<lparr>payload_size = unat ?w, encode_payload = subslice 12 (unat ?w) rest, decoder = ?p\<rparr>"
  have "to_ne (endian T) 4 ?w = subslice 8 4 rest" "to_ne (endian T) 8 ?p = take 8 rest"
    using len by (intro to_ne_from_ne_len; simp)+
  moreover have "take (k - 1) rest = take 8 rest @ subslice 8 4 rest @ subslice 12 (unat ?w) rest"
    by (simp add: k subslice_def take_add flip: take_add [of 8 4])
  moreover have "unat ?w < 2 ^ 32" using unsigned_less [of ?w] by simp
  ultimately show ?thesis
    using len v f by (intro encodesI [of _ "ArgCustom ?c"]) (auto simp: encode_custom_def custom_ok_def)
qed

lemma decode_fixed_accepts:
  assumes "decode_fixed n rest mk = Inr (v, k)" "LENGTH('a) = 8 * n"
    and "\<And>w :: 'a::len word. arg_ok (mka w) \<and> encode_to T (mka w) = Inr (encode_fixed T t n w) \<and>
           decoded_of D (mka w) = Inr (mk (to_ne (endian T) n w))"
  shows "encodes T D (tag_u8 t # take (k - 1) rest) v"
proof -
  have k: "k = 1 + n" "v = mk (take n rest)" "n \<le> length rest"
    using assms(1) by (auto simp: decode_fixed_def split: if_splits)
  let ?w = "from_ne (endian T) (take n rest) :: 'a word"
  have "to_ne (endian T) n ?w = take n rest" using k(3) assms(2) by (intro to_ne_from_ne_len) auto
  then show ?thesis using assms(3) [of ?w] k by (intro encodesI [of _ "mka ?w"]) (auto simp: encode_fixed_def)
qed

lemma decode_bool_accepts:
  assumes "decode_fixed 1 rest (\<lambda>b. DBool (b ! 0 \<noteq> 0)) = Inr (v, k)"
    and "canonical_bool (tag_u8 TagBool # rest)"
  shows "encodes T D (tag_u8 TagBool # take (k - 1) rest) v"
proof -
  obtain b r where "rest = b # r" "b = 0 \<or> b = 1" "k = 2" "v = DBool (b \<noteq> 0)"
    using assms by (cases rest) (auto simp: decode_fixed_def canonical_bool_def)
  then show ?thesis by (intro encodesI [of _ "ArgBool (b \<noteq> 0)"]) auto
qed

lemma decode_tagged_accepts:
  assumes "decode_tagged T D t rest = Inr (v, k)" "canonical_bool (tag_u8 t # rest)"
  shows "encodes T D (tag_u8 t # take (k - 1) rest) v"
proof (cases t)
  case TagStr
  then show ?thesis using assms decode_str_accepts by (simp add: decode_tagged_def)
next
  case TagCustom
  then show ?thesis using assms decode_custom_accepts by (simp add: decode_tagged_def)
next
  case TagBool
  then show ?thesis using assms decode_bool_accepts by (simp add: decode_tagged_def Let_def)
next
  case TagI8
  then show ?thesis using assms(1) by (intro decode_fixed_accepts [where mka = ArgI8 and n = 1]) (auto simp: decode_tagged_def Let_def)
next
  case TagI16
  then show ?thesis using assms(1) by (intro decode_fixed_accepts [where mka = ArgI16 and n = 2]) (auto simp: decode_tagged_def Let_def)
next
  case TagI32
  then show ?thesis using assms(1) by (intro decode_fixed_accepts [where mka = ArgI32 and n = 4]) (auto simp: decode_tagged_def Let_def)
next
  case TagI64
  then show ?thesis using assms(1) by (intro decode_fixed_accepts [where mka = ArgI64 and n = 8]) (auto simp: decode_tagged_def Let_def)
next
  case TagI128
  then show ?thesis using assms(1) by (intro decode_fixed_accepts [where mka = ArgI128 and n = 16]) (auto simp: decode_tagged_def Let_def)
next
  case TagU8
  then show ?thesis using assms(1) by (intro decode_fixed_accepts [where mka = ArgU8 and n = 1]) (auto simp: decode_tagged_def Let_def)
next
  case TagU16
  then show ?thesis using assms(1) by (intro decode_fixed_accepts [where mka = ArgU16 and n = 2]) (auto simp: decode_tagged_def Let_def)
next
  case TagU32
  then show ?thesis using assms(1) by (intro decode_fixed_accepts [where mka = ArgU32 and n = 4]) (auto simp: decode_tagged_def Let_def)
next
  case TagU64
  then show ?thesis using assms(1) by (intro decode_fixed_accepts [where mka = ArgU64 and n = 8]) (auto simp: decode_tagged_def Let_def)
next
  case TagU128
  then show ?thesis using assms(1) by (intro decode_fixed_accepts [where mka = ArgU128 and n = 16]) (auto simp: decode_tagged_def Let_def)
next
  case TagF32
  then show ?thesis using assms(1) by (intro decode_fixed_accepts [where mka = ArgF32 and n = 4]) (auto simp: decode_tagged_def Let_def)
next
  case TagF64
  then show ?thesis using assms(1) by (intro decode_fixed_accepts [where mka = ArgF64 and n = 8]) (auto simp: decode_tagged_def Let_def)
next
  case TagUsize
  then show ?thesis using assms(1) by (intro decode_fixed_accepts [where mka = ArgUsize and n = 8]) (auto simp: decode_tagged_def Let_def)
next
  case TagIsize
  then show ?thesis using assms(1) by (intro decode_fixed_accepts [where mka = ArgIsize and n = 8]) (auto simp: decode_tagged_def Let_def)
qed

lemma decode_one_accepts:
  assumes "decode_one T D data = Inr (v, k)" "canonical_bool data"
  shows "encodes T D (take k data) v"
proof -
  obtain t rest where data: "data = tag_u8 t # rest" and d: "decode_tagged T D t rest = Inr (v, k)"
    using assms(1) by (auto simp: decode_one_def dest!: tag_try_from_Some split: list.splits option.splits)
  have "0 < k" using decode_tagged_consumed [OF d] by simp
  then have "take k data = tag_u8 t # take (k - 1) rest" by (cases k) (simp_all add: data)
  then show ?thesis using decode_tagged_accepts [OF d] assms(2) by (simp add: data)
qed

lemma decode_one_unknown_tag:
  "decode_one T D (b # r) = Inl (DecodeErr (UnknownTag t)) \<longleftrightarrow> t = b \<and> 16 < b"
proof (cases "tag_try_from b")
  case None
  then show ?thesis using tag_try_from_None [of b] by (auto simp: decode_one_def)
next
  case (Some u)
  then have "decode_one T D (b # r) = decode_tagged T D u r" by (simp add: decode_one_def)
  moreover have "decode_tagged T D u r \<noteq> Inl (DecodeErr (UnknownTag t))"
    by (cases u) (auto simp: decode_tagged_def decode_simps split: if_splits option.splits decoder_outcome.splits)
  ultimately show ?thesis using Some tag_try_from_None [of b] by auto
qed

lemma decode_record_truncated:
  assumes "length bs < 2 ^ 32" "n < header_size + length bs"
  shows "decode_record T D M (take n (write_header T (new_header ts mp lp (of_nat (length bs))) @ bs)) =
     Inl (DecodeErr BufferTooShort)"
proof -
  let ?h = "write_header T (new_header ts mp lp (of_nat (length bs)))"
  have un: "unat (of_nat (length bs) :: u32) = length bs"
    using assms(1) by (simp add: unat_of_nat take_bit_eq_mod)
  show ?thesis
  proof (cases "n < header_size")
    case True
    then show ?thesis by (simp add: decode_record_def)
  next
    case False
    then have "read_header T (take n (?h @ bs)) = new_header ts mp lp (of_nat (length bs))"
      by (simp add: read_header_take header_size_def del: take_append)
    moreover have "drop header_size (take n (?h @ bs)) = take (n - header_size) bs"
      by (simp add: drop_take del: take_append)
    moreover have "n - header_size < length bs" using False assms(2) by linarith
    ultimately show ?thesis using False un by (simp add: decode_record_def Let_def del: take_append)
  qed
qed


section \<open>Properties\<close>

text \<open>Codec round trip: every supported argument (strings of Unicode scalar values and payloads below
  4 GiB) is encoded without a fault, and the decoder, whatever bytes follow, returns exactly its value
  (for a user type, what its decoder makes of its payload) and the number of bytes the encoder wrote.\<close>

lemma argument_roundtrip:
  assumes "arg_ok a"
  shows "\<exists>bs. encode_to T a = Inr bs \<and>
     (\<forall>r. decode_one T D (bs @ r) = rbind (decoded_of D a) (\<lambda>d. Inr (d, encoded_size a)))"
  using encode_to_total [OF assms, of T] decode_encode [OF assms] by blast

text \<open>C7. Conversely the decoder accepts only encodings: the bytes it consumes are the encoding of some
  supported argument whose value is the one returned, with the single exception of a boolean byte
  other than 0 and 1.\<close>

theorem decoder_accepts_only_encodings:
  assumes "decode_one T D data = Inr (v, k)" "canonical_bool data"
  shows "0 < k \<and> k \<le> length data \<and>
     (\<exists>a. arg_ok a \<and> encode_to T a = Inr (take k data) \<and> decoded_of D a = Inr v)"
  using decode_one_accepts [OF assms] decode_one_consumed [OF assms(1)] by (simp add: encodes_def)

theorem decoder_accepts_only_encodings_witness:
  "(0 :: nat) < 2 \<and> (2 :: nat) \<le> length [5, 200, 9 :: u8] \<and>
     (\<exists>a. arg_ok a \<and> encode_to dev_build a = Inr (take 2 [5, 200, 9]) \<and>
          decoded_of (\<lambda>_. None) a = Inr (DU8 200))"
proof (rule decoder_accepts_only_encodings)
  show "decode_one dev_build (\<lambda>_. None) [5, 200, 9] = Inr (DU8 200, 2)"
    by (simp add: decode_one_def tag_try_from_def decode_tagged_def decode_fixed_def from_ne_def reorder_def)
qed (simp add: canonical_bool_def tag_u8.simps)

text \<open>The error for an unknown tag is returned for exactly the bytes above 16, and names the byte.\<close>

lemma unknown_tag_exact:
  "decode_one T D (b # r) = Inl (DecodeErr (UnknownTag t)) \<longleftrightarrow> t = b \<and> 16 < b"
  by (rule decode_one_unknown_tag)

text \<open>C6. Record round trip: decoding a header followed by the encodings of a list of supported arguments
  of less than 4 GiB in all yields the timestamp, the logger pointer, the metadata behind the metadata
  pointer and the values of the arguments in order.\<close>

theorem record_roundtrip:
  assumes "list_all arg_ok as" "sum_list (map encoded_size as) < 2 ^ 32" "M mp = Some md"
  shows "\<exists>bs. encode_args T as = Inr bs \<and> length bs = sum_list (map encoded_size as) \<and>
     decode_record T D M (write_header T (new_header ts mp lp (of_nat (length bs))) @ bs) =
     rbind (decoded_all D as)
       (\<lambda>ds. Inr \<lparr>raw_timestamp = ts, raw_logger = lp, raw_metadata = md, raw_args = ds\<rparr>)"
proof -
  obtain bs where bs: "encode_args T as = Inr bs" using encode_args_total [OF assms(1)] by blast
  have "list_all custom_arg_ok as" using assms(1) by (rule list.pred_mono_strong) (rule arg_ok_custom)
  then have len: "length bs = sum_list (map encoded_size as)" using bs by (rule length_encode_args)
  then have "length bs < 2 ^ 32" using assms(2) by simp
  from decode_record_encode [where mp = mp and M = M, OF assms(1) bs this assms(3)] show ?thesis
    using bs len by blast
qed

theorem record_roundtrip_witness:
  "\<exists>bs md. encode_args dev_build [ArgBool True, ArgU16 7] = Inr bs \<and> length bs = 5 \<and>
     decode_record dev_build (\<lambda>_. None) (\<lambda>p. if p = 64 then Some md else None)
       (write_header dev_build (new_header 3 64 128 (of_nat (length bs))) @ bs) =
     Inr \<lparr>raw_timestamp = 3, raw_logger = 128, raw_metadata = md, raw_args = [DBool True, DU16 7]\<rparr>"
proof -
  fix md
  show ?thesis
    using record_roundtrip [of "[ArgBool True, ArgU16 7]" "\<lambda>p. if p = 64 then Some md else None" 64 md
        dev_build "\<lambda>_. None" 3 128]
    by auto
qed

text \<open>C8. Every proper prefix of an encoded record, cut in the header or in the arguments, is rejected as
  too short before any pointer in it is followed.\<close>

theorem truncated_record_rejected:
  assumes "length bs < 2 ^ 32" "n < header_size + length bs"
  shows "decode_record T D M (take n (write_header T (new_header ts mp lp (of_nat (length bs))) @ bs)) =
     Inl (DecodeErr BufferTooShort)"
  using assms by (rule decode_record_truncated)

theorem truncated_record_rejected_witness:
  "decode_record dev_build (\<lambda>_. None) (\<lambda>_. None)
     (take 33 (write_header dev_build (new_header 1 2 3 (of_nat (length [5, 200 :: u8]))) @ [5, 200])) =
   Inl (DecodeErr BufferTooShort)"
  by (rule truncated_record_rejected) (simp_all add: header_size_def)

end
