(* ===== verification/Formatter.thy ===== *)
theory Formatter
  imports Decode
begin

text \<open>
  \<open>formatter.rs\<close>: the pattern language of \<open>PatternFormatter\<close>. A pattern is parsed once into
  literals and fields; formatting a record appends the literals and the padded field values to the
  output. The theory states the layout of padding, the reading of \<open>{}\<close> placeholders, and that
  parsing inverts a printer for patterns.
\<close>

section \<open>Data\<close>

datatype invalid_pattern =
    UnknownField ustr
  | UnclosedBrace
  | InvalidFormatSpec ustr

fun display_invalid_pattern :: "invalid_pattern \<Rightarrow> ustr" where
  "display_invalid_pattern (UnknownField name) =
     lit ''unknown pattern field '' @ [34] @ name @ [34]
     @ lit ''; known fields: level, secs, millis, file, line, module, logger, message''"
| "display_invalid_pattern UnclosedBrace = lit ''unclosed '' @ [39, ch (CHR ''{''), 39] @ lit '' in pattern string''"
| "display_invalid_pattern (InvalidFormatSpec spec) =
     lit ''invalid format spec '' @ [34] @ spec @ [34]
     @ lit ''; expected [[fill]align]['' @ [39, ch (CHR ''0''), 39] @ lit ''][width] where align is ''
     @ [39, ch (CHR ''<''), 39] @ lit '', '' @ [39, ch (CHR ''>''), 39] @ lit '', or ''
     @ [39, ch (CHR ''^''), 39] @ lit '' and width is a non-negative integer''"

datatype align = AlignLeft | AlignRight | AlignCenter

record format_spec =
  fill :: uchar
  spec_align :: "align option"
  zero_pad :: bool
  spec_width :: nat

definition default_spec :: format_spec where
  "default_spec = \<lparr>fill = ch (CHR '' ''), spec_align = None, zero_pad = False, spec_width = 0\<rparr>"

datatype field_kind =
  FieldLevel | FieldSecs | FieldMillis | FieldFile | FieldLine | FieldModule | FieldLogger | FieldMessage

fun is_numeric :: "field_kind \<Rightarrow> bool" where
  "is_numeric FieldSecs = True"
| "is_numeric FieldMillis = True"
| "is_numeric FieldLine = True"
| "is_numeric _ = False"

datatype pattern_element = Literal ustr | Field field_kind format_spec


section \<open>Parsing\<close>

fun parse_field_kind :: "ustr \<Rightarrow> invalid_pattern + field_kind" where
  "parse_field_kind name =
     (if name = lit ''level'' then Inr FieldLevel
      else if name = lit ''secs'' then Inr FieldSecs
      else if name = lit ''millis'' then Inr FieldMillis
      else if name = lit ''file'' then Inr FieldFile
      else if name = lit ''line'' then Inr FieldLine
      else if name = lit ''module'' then Inr FieldModule
      else if name = lit ''logger'' then Inr FieldLogger
      else if name = lit ''message'' then Inr FieldMessage
      else Inl (UnknownField name))"

definition to_align :: "uchar \<Rightarrow> align option" where
  "to_align c =
     (if c = ch (CHR ''<'') then Some AlignLeft
      else if c = ch (CHR ''>'') then Some AlignRight
      else if c = ch (CHR ''^'') then Some AlignCenter
      else None)"

text \<open>The probe for \<open>[fill] align\<close>: what it finds and the characters left.\<close>

definition parse_align :: "ustr \<Rightarrow> uchar \<times> align option \<times> ustr" where
  "parse_align spec =
     (let one = (case spec of
                   [] \<Rightarrow> (ch (CHR '' ''), None, [])
                 | c # cs \<Rightarrow> (case to_align c of
                                Some a \<Rightarrow> (ch (CHR '' ''), Some a, cs)
                              | None \<Rightarrow> (ch (CHR '' ''), None, spec)))
      in case spec of
           f # c # cs \<Rightarrow> (case to_align c of Some a \<Rightarrow> (f, Some a, cs) | None \<Rightarrow> one)
         | _ \<Rightarrow> one)"

definition parse_format_spec :: "ustr \<Rightarrow> invalid_pattern + format_spec" where
  "parse_format_spec spec =
     (if spec = [] then Inr default_spec
      else let (f, a, chars) = parse_align spec;
               zero = (chars \<noteq> [] \<and> hd chars = ch (CHR ''0''));
               rest = (if zero then tl chars else chars)
      in if rest = [] then Inr \<lparr>fill = f, spec_align = a, zero_pad = zero, spec_width = 0\<rparr>
         else case parse_usize rest of
                None \<Rightarrow> Inl (InvalidFormatSpec spec)
              | Some w \<Rightarrow> Inr \<lparr>fill = f, spec_align = a, zero_pad = zero, spec_width = w\<rparr>)"

text \<open>\<open>for c in chars.by_ref()\<close>: the token up to the closing brace, and the characters after it.\<close>

fun take_token :: "ustr \<Rightarrow> (ustr \<times> ustr) option" where
  "take_token [] = None"
| "take_token (c # cs) =
     (if c = ch (CHR ''}'') then Some ([], cs)
      else map_option (apfst (Cons c)) (take_token cs))"

text \<open>\<open>token.find(':')\<close>: the field name and the spec, which is empty without a colon.\<close>

definition split_token :: "ustr \<Rightarrow> ustr \<times> ustr" where
  "split_token token =
     (takeWhile (\<lambda>c. c \<noteq> ch (CHR '':'')) token, tl (dropWhile (\<lambda>c. c \<noteq> ch (CHR '':'')) token))"

definition parse_token :: "ustr \<Rightarrow> invalid_pattern + pattern_element" where
  "parse_token token =
     (let (name, spec) = split_token token in
      rbind (parse_field_kind name) (\<lambda>kind.
      rbind (parse_format_spec spec) (\<lambda>s. Inr (Field kind s))))"

definition push_literal :: "ustr \<Rightarrow> pattern_element list \<Rightarrow> pattern_element list" where
  "push_literal l els = (if l = [] then els else els @ [Literal l])"

lemma take_token_shorter: "take_token s = Some (t, r) \<Longrightarrow> length r < length s"
  by (induction s arbitrary: t) (auto split: if_splits)

text \<open>The loop of \<open>parse_pattern\<close>, with the pending literal and the elements pushed so far.\<close>

function parse_loop :: "ustr \<Rightarrow> ustr \<Rightarrow> pattern_element list \<Rightarrow> invalid_pattern + pattern_element list"
  where
  "parse_loop [] l els = Inr (push_literal l els)"
| "parse_loop (c # chars) l els =
     (if c = ch (CHR ''{'') then
        (case take_token chars of
           None \<Rightarrow> Inl UnclosedBrace
         | Some (token, chars') \<Rightarrow>
             rbind (parse_token token) (\<lambda>f. parse_loop chars' [] (push_literal l els @ [f])))
      else parse_loop chars (l @ [c]) els)"
  by pat_completeness auto
termination
  by (relation "measure (\<lambda>(chars, l, els). length chars)") (auto dest: take_token_shorter)

definition parse_pattern :: "ustr \<Rightarrow> invalid_pattern + pattern_element list" where
  "parse_pattern pattern = parse_loop pattern [] []"

text \<open>\<open>PatternFormatter::new\<close> and \<open>default\<close>, whose \<open>expect\<close> panics if the constant is invalid.\<close>

definition new_formatter :: "ustr \<Rightarrow> invalid_pattern + pattern_element list" where
  "new_formatter pattern = parse_pattern pattern"

definition default_pattern :: ustr where
  "default_pattern = lit ''[{level} {secs}.{millis:03}] {file}:{line} {message}''"

definition default_formatter :: "fault + pattern_element list" where
  "default_formatter = (case parse_pattern default_pattern of Inl _ \<Rightarrow> Inl PanicExpect | Inr els \<Rightarrow> Inr els)"


section \<open>Formatting\<close>

fun apply_format_spec :: "ustr \<Rightarrow> ustr \<Rightarrow> format_spec \<Rightarrow> bool \<Rightarrow> ustr" where
  "apply_format_spec out value spec numeric =
     (if spec_width spec = 0 then out @ value
      else if spec_width spec \<le> length value then out @ value
      else let pad = spec_width spec - length value;
               (f, a) = (if zero_pad spec then (ch (CHR ''0''), AlignRight)
                         else (fill spec, case spec_align spec of
                                            Some a \<Rightarrow> a
                                          | None \<Rightarrow> if numeric then AlignRight else AlignLeft))
      in case a of
           AlignLeft \<Rightarrow> out @ value @ replicate pad f
         | AlignRight \<Rightarrow> out @ replicate pad f @ value
         | AlignCenter \<Rightarrow> let left_pad = pad div 2; right_pad = pad - left_pad
                          in out @ replicate left_pad f @ value @ replicate right_pad f)"

fun format_message :: "float_fmt \<Rightarrow> ustr \<Rightarrow> ustr \<Rightarrow> decoded_arg list \<Rightarrow> ustr" where
  "format_message F out [] args = out"
| "format_message F out [c] args = out @ [c]"
| "format_message F out (c # d # cs) args =
     (if c = ch (CHR ''{'') \<and> d = ch (CHR ''}'') then
        (case args of
           a # as \<Rightarrow> format_message F (out @ display_arg F a) cs as
         | [] \<Rightarrow> format_message F (out @ lit ''{}'') cs [])
      else format_message F (out @ [c]) (d # cs) args)"

fun render_field :: "float_fmt \<Rightarrow> field_kind \<Rightarrow> log_record \<Rightarrow> nat \<Rightarrow> nat \<Rightarrow> ustr" where
  "render_field F FieldLevel r secs millis = level_label (md_level (lr_metadata r))"
| "render_field F FieldSecs r secs millis = show_nat secs"
| "render_field F FieldMillis r secs millis = show_nat millis"
| "render_field F FieldFile r secs millis = md_file (lr_metadata r)"
| "render_field F FieldLine r secs millis = show_nat (unat (md_line (lr_metadata r)))"
| "render_field F FieldModule r secs millis = module_path (lr_metadata r)"
| "render_field F FieldLogger r secs millis = lr_logger_name r"
| "render_field F FieldMessage r secs millis = format_message F [] (fmt_str (lr_metadata r)) (lr_args r)"

definition record_secs :: "log_record \<Rightarrow> nat" where
  "record_secs r = unat (lr_timestamp r) div 1000000000"

definition record_millis :: "log_record \<Rightarrow> nat" where
  "record_millis r = unat (lr_timestamp r) mod 1000000000 div 1000000"

fun format_elements :: "float_fmt \<Rightarrow> pattern_element list \<Rightarrow> log_record \<Rightarrow> ustr \<Rightarrow> ustr" where
  "format_elements F [] r out = out"
| "format_elements F (Literal s # els) r out = format_elements F els r (out @ s)"
| "format_elements F (Field kind spec # els) r out =
     format_elements F els r
       (apply_format_spec out (render_field F kind r (record_secs r) (record_millis r)) spec (is_numeric kind))"


section \<open>Padding\<close>

declare apply_format_spec.simps [simp del]

definition pad_char :: "format_spec \<Rightarrow> uchar" where
  "pad_char spec = (if zero_pad spec then ch (CHR ''0'') else fill spec)"

definition pad_align :: "format_spec \<Rightarrow> bool \<Rightarrow> align" where
  "pad_align spec numeric =
     (if zero_pad spec then AlignRight
      else case spec_align spec of Some a \<Rightarrow> a | None \<Rightarrow> if numeric then AlignRight else AlignLeft)"

text \<open>
  The padded value is the value between two runs of the pad character whose lengths make up the
  missing width: all of it after, all before, or split with the odd one after.
\<close>

lemma apply_format_spec_layout:
  "\<exists>l r. apply_format_spec out v spec num = out @ replicate l (pad_char spec) @ v @ replicate r (pad_char spec) \<and>
     l + r = spec_width spec - length v \<and>
     (case pad_align spec num of AlignLeft \<Rightarrow> l = 0 | AlignRight \<Rightarrow> r = 0 | AlignCenter \<Rightarrow> r = l \<or> r = Suc l)"
proof (cases "spec_width spec \<le> length v")
  case True
  then show ?thesis
    by (intro exI [of _ 0]) (auto simp: apply_format_spec.simps split: align.split)
next
  case False
  define pad where "pad = spec_width spec - length v"
  have step: "apply_format_spec out v spec num =
      (case pad_align spec num of
         AlignLeft \<Rightarrow> out @ v @ replicate pad (pad_char spec)
       | AlignRight \<Rightarrow> out @ replicate pad (pad_char spec) @ v
       | AlignCenter \<Rightarrow> out @ replicate (pad div 2) (pad_char spec) @ v @ replicate (pad - pad div 2) (pad_char spec))"
    using False
    by (auto simp: apply_format_spec.simps pad_char_def pad_align_def Let_def pad_def split: align.split option.split)
  show ?thesis
  proof (cases "pad_align spec num")
    case AlignLeft
    then show ?thesis using step by (intro exI [of _ 0] exI [of _ pad]) (simp add: pad_def)
  next
    case AlignRight
    then show ?thesis using step by (intro exI [of _ pad] exI [of _ 0]) (simp add: pad_def)
  next
    case AlignCenter
    then show ?thesis using step
      by (intro exI [of _ "pad div 2"] exI [of _ "pad - pad div 2"]) (auto simp flip: pad_def)
  qed
qed

lemma length_apply_format_spec [simp]:
  "length (apply_format_spec out v spec num) = length out + max (spec_width spec) (length v)"
proof -
  obtain l r where "apply_format_spec out v spec num = out @ replicate l (pad_char spec) @ v @ replicate r (pad_char spec)"
    "l + r = spec_width spec - length v" using apply_format_spec_layout by blast
  then show ?thesis by (cases "spec_width spec \<le> length v") auto
qed

lemma apply_format_spec_append:
  "apply_format_spec (x @ out) v spec num = x @ apply_format_spec out v spec num"
  by (auto simp: apply_format_spec.simps Let_def split: align.split option.split)

lemma format_message_append: "format_message F (x @ out) s args = x @ format_message F out s args"
  by (induction F out s args rule: format_message.induct) (simp_all split: list.split)

text \<open>Formatting appends: it never looks at or changes what is already in the buffer.\<close>

lemma format_elements_append: "format_elements F els r (x @ out) = x @ format_elements F els r out"
proof (induction els arbitrary: out)
  case (Cons e els)
  then show ?case by (cases e) (simp_all add: apply_format_spec_append)
qed simp

lemma format_elements_prefix: "format_elements F els r out = out @ format_elements F els r []"
  using format_elements_append [of F els r out "[]"] by simp

lemma apply_format_spec_prefix: "apply_format_spec out v spec num = out @ apply_format_spec [] v spec num"
  using apply_format_spec_append [of out "[]"] by simp

lemma format_message_prefix: "format_message F out s args = out @ format_message F [] s args"
  using format_message_append [of F out "[]"] by simp

lemma format_elements_concat:
  "format_elements F (els @ els') r out = format_elements F els' r (format_elements F els r out)"
proof (induction els arbitrary: out)
  case (Cons e els)
  then show ?case by (cases e) simp_all
qed simp


section \<open>Placeholders of the message\<close>

text \<open>
  The reference reading of a message: the text between the placeholders, cut by a function of its
  own, with the arguments put between the pieces, and \<open>{}\<close> itself where they run out.
\<close>

fun holes :: "ustr \<Rightarrow> ustr list" where
  "holes [] = [[]]"
| "holes [c] = [[c]]"
| "holes (c # d # cs) =
     (if c = ch (CHR ''{'') \<and> d = ch (CHR ''}'') then [] # holes cs
      else (case holes (d # cs) of p # ps \<Rightarrow> (c # p) # ps | [] \<Rightarrow> [[c]]))"

fun weave :: "ustr list \<Rightarrow> ustr list \<Rightarrow> ustr" where
  "weave [] vs = []"
| "weave [p] vs = p"
| "weave (p # q # ps) [] = p @ lit ''{}'' @ weave (q # ps) []"
| "weave (p # q # ps) (v # vs) = p @ v @ weave (q # ps) vs"

lemma holes_Cons: "\<exists>p ps. holes s = p # ps"
  by (induction s rule: holes.induct) (auto split: list.split)

lemma weave_Cons: "weave ((c # p) # ps) vs = c # weave (p # ps) vs"
  by (cases ps; cases vs) simp_all

lemma format_message_weave: "format_message F out s args = out @ weave (holes s) (map (display_arg F) args)"
proof (induction F out s args rule: format_message.induct)
  case (3 F out c d cs args)
  obtain p ps where ps: "holes cs = p # ps" using holes_Cons by blast
  obtain q qs where qs: "holes (d # cs) = q # qs" using holes_Cons by blast
  show ?case
  proof (cases "c = ch (CHR ''{'') \<and> d = ch (CHR ''}'')")
    case True
    then show ?thesis using "3.IH"(1,2) ps by (cases args) simp_all
  next
    case False
    then show ?thesis using "3.IH"(3) qs by (auto simp: weave_Cons)
  qed
qed simp_all

text \<open>The pieces, with \<open>{}\<close> between them, are the format string again, and none contains \<open>{}\<close>.\<close>

fun has_hole :: "ustr \<Rightarrow> bool" where
  "has_hole (c # d # cs) \<longleftrightarrow> c = ch (CHR ''{'') \<and> d = ch (CHR ''}'') \<or> has_hole (d # cs)"
| "has_hole _ \<longleftrightarrow> False"

lemma weave_holes: "weave (holes s) [] = s"
proof (induction s rule: holes.induct)
  case (3 c d cs)
  obtain p ps where ps: "holes cs = p # ps" using holes_Cons by blast
  obtain q qs where qs: "holes (d # cs) = q # qs" using holes_Cons by blast
  show ?case using 3 ps qs by (auto simp: weave_Cons lit_def)
qed simp_all

lemma holes_head:
  assumes "holes (d # cs) = q # qs"
  shows "q = [] \<and> d = ch (CHR ''{'') \<or> (\<exists>r. q = d # r)"
proof (cases cs)
  case (Cons e es)
  obtain p ps where "holes (e # es) = p # ps" using holes_Cons by blast
  then show ?thesis using assms Cons by (auto split: if_splits)
qed (use assms in auto)

lemma holes_clean: "\<forall>p\<in>set (holes s). \<not> has_hole p"
proof (induction s rule: holes.induct)
  case (3 c d cs)
  obtain q qs where qs: "holes (d # cs) = q # qs" using holes_Cons by blast
  show ?case
  proof (cases "c = ch (CHR ''{'') \<and> d = ch (CHR ''}'')")
    case False
    then have "\<not> has_hole (c # q)"
      using 3(2) qs holes_head [OF qs] by (cases q) auto
    then show ?thesis using False 3(2) qs by auto
  qed (use 3 in simp)
qed simp_all


section \<open>Printing patterns\<close>

fun kind_name :: "field_kind \<Rightarrow> ustr" where
  "kind_name FieldLevel = lit ''level''"
| "kind_name FieldSecs = lit ''secs''"
| "kind_name FieldMillis = lit ''millis''"
| "kind_name FieldFile = lit ''file''"
| "kind_name FieldLine = lit ''line''"
| "kind_name FieldModule = lit ''module''"
| "kind_name FieldLogger = lit ''logger''"
| "kind_name FieldMessage = lit ''message''"

fun align_char :: "align \<Rightarrow> uchar" where
  "align_char AlignLeft = ch (CHR ''<'')"
| "align_char AlignRight = ch (CHR ''>'')"
| "align_char AlignCenter = ch (CHR ''^'')"

definition print_width :: "format_spec \<Rightarrow> ustr" where
  "print_width spec = (if zero_pad spec then [ch (CHR ''0'')] else [])
     @ (if spec_width spec = 0 then [] else show_nat (spec_width spec))"

definition print_spec :: "format_spec \<Rightarrow> ustr" where
  "print_spec spec = (case spec_align spec of None \<Rightarrow> [] | Some a \<Rightarrow> [fill spec, align_char a]) @ print_width spec"

definition print_token :: "field_kind \<Rightarrow> format_spec \<Rightarrow> ustr" where
  "print_token kind spec = kind_name kind @ (if print_spec spec = [] then [] else ch (CHR '':'') # print_spec spec)"

fun print_element :: "pattern_element \<Rightarrow> ustr" where
  "print_element (Literal s) = s"
| "print_element (Field kind spec) = ch (CHR ''{'') # print_token kind spec @ [ch (CHR ''}'')]"

definition print_pattern :: "pattern_element list \<Rightarrow> ustr" where
  "print_pattern els = concat (map print_element els)"

text \<open>What the parser builds: a fill only with an alignment, and maximal non-empty literals.\<close>

definition wf_spec :: "format_spec \<Rightarrow> bool" where
  "wf_spec spec \<longleftrightarrow> spec_width spec < 2 ^ 64 \<and> fill spec \<noteq> ch (CHR ''}'') \<and>
     (spec_align spec = None \<longrightarrow> fill spec = ch (CHR '' ''))"

fun wf_element :: "pattern_element \<Rightarrow> bool" where
  "wf_element (Literal s) \<longleftrightarrow> s \<noteq> [] \<and> ch (CHR ''{'') \<notin> set s"
| "wf_element (Field kind spec) \<longleftrightarrow> wf_spec spec"

fun is_literal :: "pattern_element \<Rightarrow> bool" where
  "is_literal (Literal s) \<longleftrightarrow> True"
| "is_literal (Field kind spec) \<longleftrightarrow> False"

fun wf_pattern :: "pattern_element list \<Rightarrow> bool" where
  "wf_pattern [] \<longleftrightarrow> True"
| "wf_pattern [e] \<longleftrightarrow> wf_element e"
| "wf_pattern (e # f # els) \<longleftrightarrow> wf_element e \<and> \<not> (is_literal e \<and> is_literal f) \<and> wf_pattern (f # els)"

lemma ch_eq_iff [simp]: "ch c = ch d \<longleftrightarrow> c = d"
  using inj_ch by (auto simp: inj_on_def)

lemma to_align_char [simp]: "to_align (align_char a) = Some a"
  by (cases a) (simp_all add: to_align_def)

lemma digit_not_align [simp]: "is_digit c \<Longrightarrow> to_align c = None"
  by (auto simp: to_align_def is_digit_def ch_def)

lemma digits_ch:
  "is_digit (ch (CHR ''0''))" "\<not> is_digit (ch (CHR ''}''))" "\<not> is_digit (ch (CHR ''{''))"
  "\<not> is_digit (ch (CHR '':''))"
  by (simp_all add: is_digit_def ch_def)

lemma print_width_digits: "list_all is_digit (print_width spec)"
  by (simp add: print_width_def show_nat_digits digits_ch)

lemma hd_show_nat: "0 < n \<Longrightarrow> hd (show_nat n) \<noteq> ch (CHR ''0'')"
proof (induction n rule: show_nat.induct)
  case (1 n)
  then show ?case
    by (cases "n < 10") (auto simp: show_nat.simps [of n] ch_def hd_append)
qed

lemma parse_align_digits: "list_all is_digit s \<Longrightarrow> parse_align s = (ch (CHR '' ''), None, s)"
  by (cases s; cases "tl s") (auto simp: parse_align_def)

lemma parse_align_explicit: "parse_align (f # align_char a # s) = (f, Some a, s)"
  by (simp add: parse_align_def)

lemma parse_print_spec:
  assumes "wf_spec spec"
  shows "parse_format_spec (print_spec spec) = Inr spec"
proof -
  let ?w = "print_width spec"
  have align: "parse_align (print_spec spec) = (fill spec, spec_align spec, ?w)"
    using assms parse_align_digits [OF print_width_digits, of spec]
    by (auto simp: print_spec_def wf_spec_def parse_align_explicit split: option.split)
  show ?thesis
  proof (cases "print_spec spec = []")
    case True
    then have "spec = default_spec"
      using assms
      by (cases spec) (auto simp: print_spec_def print_width_def wf_spec_def default_spec_def
          split: option.splits if_splits)
    then show ?thesis using True by (simp add: parse_format_spec_def)
  next
    case False
    have zero: "(?w \<noteq> [] \<and> hd ?w = ch (CHR ''0'')) \<longleftrightarrow> zero_pad spec"
      using hd_show_nat [of "spec_width spec"] by (auto simp: print_width_def)
    have "(if zero_pad spec then tl ?w else ?w) = (if spec_width spec = 0 then [] else show_nat (spec_width spec))"
      by (simp add: print_width_def)
    then show ?thesis
      using False assms parse_show_nat [of "spec_width spec"] unfolding parse_format_spec_def align
      by (simp add: zero Let_def wf_spec_def)
  qed
qed

lemma kind_name_chars: "c \<in> set (kind_name kind) \<Longrightarrow> c \<noteq> ch (CHR ''}'') \<and> c \<noteq> ch (CHR '':'')"
  by (cases kind) (auto simp: lit_def)

lemma parse_kind_name [simp]: "parse_field_kind (kind_name kind) = Inr kind"
  by (cases kind) simp_all

lemma take_token_append:
  "ch (CHR ''}'') \<notin> set t \<Longrightarrow> take_token (t @ ch (CHR ''}'') # r) = Some (t, r)"
  by (induction t) auto

lemma take_token_Some: "take_token s = Some (t, r) \<longleftrightarrow> s = t @ ch (CHR ''}'') # r \<and> ch (CHR ''}'') \<notin> set t"
proof
  show "take_token s = Some (t, r) \<Longrightarrow> s = t @ ch (CHR ''}'') # r \<and> ch (CHR ''}'') \<notin> set t"
    by (induction s arbitrary: t) (auto split: if_splits)
qed (simp add: take_token_append)

lemma split_print_token: "split_token (print_token kind spec) = (kind_name kind, print_spec spec)"
proof -
  have name: "takeWhile (\<lambda>c. c \<noteq> ch (CHR '':'')) (kind_name kind) = kind_name kind"
    "dropWhile (\<lambda>c. c \<noteq> ch (CHR '':'')) (kind_name kind) = []"
    by (auto simp: takeWhile_eq_all_conv dest: kind_name_chars)
  show ?thesis
  proof (cases "print_spec spec")
    case Nil
    then show ?thesis by (simp add: split_token_def print_token_def name)
  next
    case (Cons c cs)
    then have "print_token kind spec = kind_name kind @ ch (CHR '':'') # print_spec spec"
      by (simp add: print_token_def)
    moreover have "\<forall>c\<in>set (kind_name kind). c \<noteq> ch (CHR '':'')" by (auto dest: kind_name_chars)
    ultimately show ?thesis by (simp add: split_token_def)
  qed
qed

lemma print_token_chars: "wf_spec spec \<Longrightarrow> ch (CHR ''}'') \<notin> set (print_token kind spec)"
proof -
  assume wf: "wf_spec spec"
  have "ch (CHR ''}'') \<notin> set (print_width spec)"
    using print_width_digits [of spec] digits_ch(2) by (auto simp: list_all_iff)
  moreover have "ch (CHR ''}'') \<noteq> align_char a" for a by (cases a) simp_all
  ultimately have "ch (CHR ''}'') \<notin> set (print_spec spec)"
    using wf by (auto simp: print_spec_def wf_spec_def split: option.splits)
  then show ?thesis by (auto simp: print_token_def dest: kind_name_chars)
qed

lemma parse_print_token: "wf_spec spec \<Longrightarrow> parse_token (print_token kind spec) = Inr (Field kind spec)"
  by (simp add: parse_token_def split_print_token parse_print_spec del: parse_field_kind.simps)

lemma parse_loop_literal:
  "ch (CHR ''{'') \<notin> set s \<Longrightarrow> parse_loop (s @ r) l els = parse_loop r (l @ s) els"
  by (induction s arbitrary: l) auto

lemma parse_loop_print:
  "wf_pattern (push_literal l [] @ els) \<Longrightarrow>
   parse_loop (print_pattern els) l acc = Inr (acc @ push_literal l [] @ els)"
proof (induction els arbitrary: l acc)
  case Nil
  then show ?case by (simp add: print_pattern_def push_literal_def)
next
  case (Cons e els)
  show ?case
  proof (cases e)
    case (Literal s)
    then have l: "l = []" and s: "s \<noteq> []" "ch (CHR ''{'') \<notin> set s" and wf: "wf_pattern (Literal s # els)"
      using Cons.prems by (cases els; auto simp: push_literal_def split: if_splits)+
    have "parse_loop (print_pattern (e # els)) l acc = parse_loop (print_pattern els) s acc"
      using s by (simp add: Literal l print_pattern_def parse_loop_literal)
    also have "\<dots> = Inr (acc @ push_literal s [] @ els)"
      using wf s by (intro Cons.IH) (simp add: push_literal_def)
    finally show ?thesis using s by (simp add: Literal l push_literal_def)
  next
    case (Field kind spec)
    have wf: "wf_spec spec" "wf_pattern els"
      using Cons.prems Field by (cases els; auto simp: push_literal_def split: if_splits)+
    have "parse_loop (print_pattern (e # els)) l acc =
        parse_loop (print_pattern els) [] (push_literal l acc @ [Field kind spec])"
      using wf(1) by (simp add: Field print_pattern_def take_token_append print_token_chars parse_print_token)
    also have "\<dots> = Inr ((push_literal l acc @ [Field kind spec]) @ push_literal [] [] @ els)"
      using wf(2) by (intro Cons.IH) (simp add: push_literal_def)
    finally show ?thesis by (simp add: Field push_literal_def)
  qed
qed

lemma parse_print_pattern: "wf_pattern els \<Longrightarrow> parse_pattern (print_pattern els) = Inr els"
  using parse_loop_print [of "[]" els "[]"] by (simp add: parse_pattern_def push_literal_def)


section \<open>What parsing returns\<close>

lemma parse_align_wf:
  assumes "parse_align spec = (f, a, r)"
  shows "set r \<subseteq> set spec \<and> (f = ch (CHR '' '') \<or> f \<in> set spec) \<and> (a = None \<longrightarrow> f = ch (CHR '' ''))"
proof (cases spec)
  case (Cons c cs)
  then show ?thesis using assms by (cases cs) (auto simp: parse_align_def split: option.splits)
qed (use assms in \<open>simp add: parse_align_def\<close>)

lemma parse_format_spec_wf:
  assumes "parse_format_spec s = Inr spec" "ch (CHR ''}'') \<notin> set s"
  shows "wf_spec spec"
proof (cases "s = []")
  case False
  obtain f a r where al: "parse_align s = (f, a, r)" by (cases "parse_align s")
  then have "f \<noteq> ch (CHR ''}'')" "a = None \<longrightarrow> f = ch (CHR '' '')"
    using parse_align_wf [OF al] assms(2) by auto
  then show ?thesis
    using assms(1) False parse_usize_bound
    by (auto simp: parse_format_spec_def al Let_def wf_spec_def split: if_splits option.splits)
qed (use assms in \<open>auto simp: parse_format_spec_def default_spec_def wf_spec_def\<close>)

lemma parse_token_wf:
  assumes "parse_token t = Inr e" "ch (CHR ''}'') \<notin> set t"
  shows "wf_element e \<and> \<not> is_literal e"
proof -
  have "set (tl ys) \<subseteq> set ys" for ys :: ustr by (cases ys) auto
  then have "set (tl (dropWhile P t)) \<subseteq> set t" for P
    using set_dropWhileD [of _ P t] by blast
  then have "ch (CHR ''}'') \<notin> set (snd (split_token t))"
    using assms(2) by (auto simp: split_token_def)
  then show ?thesis
    using assms(1) parse_format_spec_wf
    by (auto simp: parse_token_def split_token_def simp del: parse_field_kind.simps)
qed

lemma wf_pattern_append:
  "wf_pattern els \<Longrightarrow> wf_element e \<Longrightarrow> els = [] \<or> \<not> (is_literal (last els) \<and> is_literal e) \<Longrightarrow>
   wf_pattern (els @ [e])"
  by (induction els rule: wf_pattern.induct) auto

lemma wf_push_literal:
  "wf_pattern els \<Longrightarrow> els = [] \<or> \<not> is_literal (last els) \<Longrightarrow> ch (CHR ''{'') \<notin> set l \<Longrightarrow>
   wf_pattern (push_literal l els)"
  by (auto simp: push_literal_def intro: wf_pattern_append)

lemma parse_loop_wf:
  "parse_loop s l els = Inr out \<Longrightarrow> wf_pattern els \<Longrightarrow> els = [] \<or> \<not> is_literal (last els) \<Longrightarrow>
   ch (CHR ''{'') \<notin> set l \<Longrightarrow> wf_pattern out"
proof (induction s l els rule: parse_loop.induct)
  case (2 c chars l els)
  show ?case
  proof (cases "c = ch (CHR ''{'')")
    case True
    then obtain t chars' f where tok: "take_token chars = Some (t, chars')" "parse_token t = Inr f"
      and rest: "parse_loop chars' [] (push_literal l els @ [f]) = Inr out"
      using "2.prems"(1) by (auto split: option.splits)
    have f: "wf_element f" "\<not> is_literal f"
      using parse_token_wf [OF tok(2)] tok(1) by (auto simp: take_token_Some)
    have "wf_pattern (push_literal l els @ [f])"
      using "2.prems" f by (intro wf_pattern_append wf_push_literal) auto
    then show ?thesis using "2.IH"(1) [OF True tok(1)] tok rest f by auto
  next
    case False
    then show ?thesis using "2.prems" "2.IH"(2) [OF False] by auto
  qed
qed (auto intro: wf_push_literal)

lemma parse_pattern_wf: "parse_pattern s = Inr els \<Longrightarrow> wf_pattern els"
  by (auto simp: parse_pattern_def elim: parse_loop_wf)

text \<open>The pattern parses exactly when it is made of well-formed tokens; errors keep their order.\<close>

lemma parse_loop_unclosed:
  "ch (CHR ''{'') \<notin> set s \<Longrightarrow> ch (CHR ''}'') \<notin> set r \<Longrightarrow>
   parse_loop (s @ ch (CHR ''{'') # r) l els = Inl UnclosedBrace"
proof -
  assume "ch (CHR ''{'') \<notin> set s" "ch (CHR ''}'') \<notin> set r"
  moreover from this(2) have "take_token r = None" by (induction r) auto
  ultimately show ?thesis by (simp add: parse_loop_literal)
qed


section \<open>The default pattern\<close>

definition millis_spec :: format_spec where
  "millis_spec = \<lparr>fill = ch (CHR '' ''), spec_align = None, zero_pad = True, spec_width = 3\<rparr>"

definition default_elements :: "pattern_element list" where
  "default_elements =
     [Literal (lit ''[''), Field FieldLevel default_spec, Literal (lit '' ''), Field FieldSecs default_spec,
      Literal (lit ''.''), Field FieldMillis millis_spec, Literal (lit ''] ''), Field FieldFile default_spec,
      Literal (lit '':''), Field FieldLine default_spec, Literal (lit '' ''), Field FieldMessage default_spec]"

lemma print_default: "print_pattern default_elements = default_pattern"
  by (simp add: print_pattern_def default_elements_def print_token_def print_spec_def print_width_def
      default_spec_def millis_spec_def default_pattern_def lit_def ch_def show_nat.simps)

lemma default_pattern_parses: "parse_pattern default_pattern = Inr default_elements"
proof -
  have "wf_pattern default_elements"
    by (simp add: default_elements_def wf_spec_def default_spec_def millis_spec_def lit_def)
  then show ?thesis using parse_print_pattern [of default_elements] by (simp add: print_default)
qed

lemma apply_default_spec [simp]: "apply_format_spec out v default_spec num = out @ v"
  by (simp add: apply_format_spec.simps default_spec_def)

text \<open>Milliseconds have at most three digits, so the default pattern prints exactly three.\<close>

lemma record_millis_less: "record_millis r < 1000"
proof -
  have "unat (lr_timestamp r) mod 1000000000 < 1000 * 1000000" by simp
  then show ?thesis unfolding record_millis_def by (rule less_mult_imp_div_less)
qed

definition three_digits :: "nat \<Rightarrow> ustr" where
  "three_digits n = [48 + n div 100, 48 + n div 10 mod 10, 48 + n mod 10]"

lemma apply_millis_spec:
  assumes "n < 1000"
  shows "apply_format_spec out (show_nat n) millis_spec num = out @ three_digits n"
proof -
  consider "n < 10" | "10 \<le> n" "n < 100" | "100 \<le> n" by linarith
  then show ?thesis
  proof cases
    case 1
    then show ?thesis
      by (simp add: apply_format_spec.simps millis_spec_def three_digits_def show_nat.simps ch_def numeral_2_eq_2)
  next
    case 2
    then have "n div 10 < 10" by simp
    then show ?thesis
      using 2 by (simp add: apply_format_spec.simps millis_spec_def three_digits_def show_nat.simps [of n]
          show_nat.simps [of "n div 10"] ch_def)
  next
    case 3
    then have "n div 100 < 10" "\<not> n div 10 < 10" using assms by simp_all
    moreover from this(1) have "show_nat (n div 100) = [48 + n div 100]" by (simp add: show_nat.simps [of "n div 100"])
    ultimately show ?thesis
      using 3 assms by (simp add: apply_format_spec.simps millis_spec_def three_digits_def show_nat.simps [of n]
          show_nat.simps [of "n div 10"] ch_def div_mult2_eq [symmetric])
  qed
qed


section \<open>Properties\<close>

text \<open>Padding: the output of a field is its value, never truncated, between two runs of the pad
  character that make up exactly the missing width, placed by the alignment (the explicit one, right
  for the zero flag, else right for numbers and left for text), the odd one after the value.\<close>

lemma field_padding_layout:
  "\<exists>l r. apply_format_spec out v spec num = out @ replicate l (pad_char spec) @ v @ replicate r (pad_char spec) \<and>
     l + r = spec_width spec - length v \<and>
     (case pad_align spec num of AlignLeft \<Rightarrow> l = 0 | AlignRight \<Rightarrow> r = 0 | AlignCenter \<Rightarrow> r = l \<or> r = Suc l)"
  by (rule apply_format_spec_layout)

text \<open>C32. The message is the format string cut at its placeholders, left to right, with the display of
  the arguments put in their order into the gaps; surplus placeholders stay as they are written and
  surplus arguments are dropped. The pieces contain no placeholder and make up the string.\<close>

theorem message_fills_placeholders:
  "format_message F out s args = out @ weave (holes s) (map (display_arg F) args) \<and>
   weave (holes s) [] = s \<and> list_all (\<lambda>p. \<not> has_hole p) (holes s)"
  by (simp add: format_message_weave weave_holes list_all_iff holes_clean)

text \<open>C28. Every pattern that is well formed (maximal literals without an opening brace, widths of 64 bits,
  a fill only with an alignment and never a closing brace) is parsed back from its printed form, so no
  element, fill, alignment, flag or width is lost or misread.\<close>

theorem pattern_roundtrip:
  assumes "wf_pattern els"
  shows "parse_pattern (print_pattern els) = Inr els"
  by (rule parse_print_pattern [OF assms])

definition demo_pattern :: "pattern_element list" where
  "demo_pattern =
     [Field FieldLevel \<lparr>fill = ch (CHR ''*''), spec_align = Some AlignCenter, zero_pad = False, spec_width = 10\<rparr>,
      Literal (lit '' | ''), Field FieldMessage default_spec]"

theorem pattern_roundtrip_witness:
  "parse_pattern (print_pattern demo_pattern) = Inr demo_pattern"
  by (rule pattern_roundtrip) (simp add: demo_pattern_def wf_spec_def default_spec_def lit_def)

text \<open>C29. Whatever string parses, the elements are well formed: literals are maximal and not empty and
  every width fits in 64 bits; printing them and parsing again gives the same elements.\<close>

theorem parsed_pattern_wf:
  assumes "parse_pattern s = Inr els"
  shows "wf_pattern els \<and> parse_pattern (print_pattern els) = Inr els"
  using parse_pattern_wf [OF assms] parse_print_pattern by blast

theorem parsed_pattern_wf_witness:
  "wf_pattern default_elements \<and> parse_pattern (print_pattern default_elements) = Inr default_elements"
  by (rule parsed_pattern_wf [OF default_pattern_parses])

text \<open>The default formatter exists (its \<open>expect\<close> cannot panic) and renders every record as the
  level in brackets with whole seconds and exactly three digits of milliseconds, then file, line and
  message, appended to the buffer.\<close>

lemma default_format_layout:
  "\<exists>els. default_formatter = Inr els \<and>
     format_elements F els r out =
       out @ lit ''['' @ level_label (md_level (lr_metadata r)) @ lit '' '' @ show_nat (record_secs r) @ lit ''.''
       @ three_digits (record_millis r) @ lit ''] '' @ md_file (lr_metadata r) @ lit '':''
       @ show_nat (unat (md_line (lr_metadata r))) @ lit '' ''
       @ format_message F [] (fmt_str (lr_metadata r)) (lr_args r)"
proof -
  have "default_formatter = Inr default_elements"
    by (simp add: default_formatter_def default_pattern_parses)
  then show ?thesis
    by (intro exI [of _ default_elements])
       (simp add: default_elements_def apply_millis_spec record_millis_less)
qed

text \<open>An opening brace with no closing brace after it is reported as such, whatever follows it,
  even where the text after it names no field.\<close>

lemma unclosed_brace_reported:
  assumes "ch (CHR ''{'') \<notin> set s" "ch (CHR ''}'') \<notin> set r"
  shows "parse_pattern (s @ ch (CHR ''{'') # r) = Inl UnclosedBrace"
  unfolding parse_pattern_def using assms by (rule parse_loop_unclosed)

text \<open>A width may carry a plus sign: \<open>{level:+8}\<close> is accepted as width eight, although the
  documented grammar allows digits only.\<close>

lemma plus_width_accepted:
  "parse_pattern (lit ''{level:+8}'') = parse_pattern (lit ''{level:8}'')"
  by (simp add: parse_pattern_def parse_token_def split_token_def parse_format_spec_def parse_align_def
      to_align_def parse_usize_def is_digit_def Let_def lit_def ch_def)

end
