(* ===== verification/Sink_Core.thy ===== *)
theory Sink_Core
  imports Formatter
begin

text \<open>
  \<open>sink.rs\<close>, without the file sinks: the \<open>Sink\<close> trait, \<open>StreamSink\<close> over any \<open>io::Write\<close>
  destination, the sinks that delegate to it and \<open>NullSink\<close>. A sink is a record of its operations
  over a state; a writer likewise. \<open>Vec<u8>\<close> and \<open>BufWriter\<close> are modelled as the standard library
  documents them, the latter over a device that may accept a part of a write and fail. A locale
  states what a writer promises, and the lines a stream sink leaves behind are proved from it.
\<close>

section \<open>Errors and results\<close>

datatype io_error = NotFound | AlreadyExists | InvalidInput | OtherIo ustr

datatype sink_error = SinkIo io_error | SinkOther ustr

text \<open>\<open>Display\<close> of \<open>SinkError\<close>; that of \<open>io::Error\<close> is the standard library's and a parameter.\<close>

fun display_sink_error :: "(io_error \<Rightarrow> ustr) \<Rightarrow> sink_error \<Rightarrow> ustr" where
  "display_sink_error show_io (SinkIo e) = lit ''I/O error: '' @ show_io e"
| "display_sink_error show_io (SinkOther s) = s"

fun sink_error_source :: "sink_error \<Rightarrow> io_error + ustr" where
  "sink_error_source (SinkIo e) = Inl e"
| "sink_error_source (SinkOther s) = Inr s"

text \<open>A call of a sink returns \<open>Ok\<close> or an error, or unwinds.\<close>

datatype sink_result = SinkOk | SinkErr sink_error | SinkPanic

record 's sink =
  sink_level :: log_level
  write_record :: "log_record \<Rightarrow> 's \<Rightarrow> sink_result \<times> 's"
  sink_flush :: "'s \<Rightarrow> sink_result \<times> 's"

definition null_sink :: "log_level \<Rightarrow> 's sink" where
  "null_sink level = \<lparr>sink_level = level, write_record = (\<lambda>r s. (SinkOk, s)), sink_flush = (\<lambda>s. (SinkOk, s))\<rparr>"

text \<open>Sinks of one kind side by side: the sink whose state is in slot \<open>k\<close> of a store.\<close>

definition in_slot :: "nat \<Rightarrow> 's sink \<Rightarrow> (nat \<Rightarrow> 's) sink" where
  "in_slot k sk =
     \<lparr>sink_level = sink_level sk,
      write_record = (\<lambda>r st. let (res, s) = write_record sk r (st k) in (res, st(k := s))),
      sink_flush = (\<lambda>st. let (res, s) = sink_flush sk (st k) in (res, st(k := s)))\<rparr>"


section \<open>Writers\<close>

record 'd writer =
  write_all :: "bytes \<Rightarrow> 'd \<Rightarrow> (io_error + unit) \<times> 'd"
  flush_writer :: "'d \<Rightarrow> (io_error + unit) \<times> 'd"

definition vec_writer :: "bytes writer" where
  "vec_writer = \<lparr>write_all = (\<lambda>b v. (Inr (), v @ b)), flush_writer = (\<lambda>v. (Inr (), v))\<rparr>"

text \<open>
  A file or a console: the bytes it has, and what the operating system makes of the coming writes:
  \<open>None\<close> takes one whole, \<open>Some k\<close> takes at most \<open>k\<close> bytes and fails. Past the list all succeed.
\<close>

record device =
  contents :: bytes
  os_faults :: "nat option list"

definition device_write :: "bytes \<Rightarrow> device \<Rightarrow> nat \<times> bool \<times> device" where
  "device_write b d =
     (case os_faults d of
        Some k # fs \<Rightarrow> (min k (length b), False, \<lparr>contents = contents d @ take k b, os_faults = fs\<rparr>)
      | None # fs \<Rightarrow> (length b, True, \<lparr>contents = contents d @ b, os_faults = fs\<rparr>)
      | [] \<Rightarrow> (length b, True, d\<lparr>contents := contents d @ b\<rparr>))"

text \<open>\<open>BufWriter\<close> with its buffer of 8 KiB; an error leaves the bytes not taken in the buffer.\<close>

record buf_state =
  dev :: device
  pending :: bytes

definition buf_capacity :: nat where
  "buf_capacity = 8192"

definition io_failed :: io_error where
  "io_failed = OtherIo (lit ''write error'')"

definition flush_buf :: "buf_state \<Rightarrow> (io_error + unit) \<times> buf_state" where
  "flush_buf w =
     (case device_write (pending w) (dev w) of
        (k, ok, d) \<Rightarrow> (if ok then Inr () else Inl io_failed, \<lparr>dev = d, pending = drop k (pending w)\<rparr>))"

definition buf_write_all :: "bytes \<Rightarrow> buf_state \<Rightarrow> (io_error + unit) \<times> buf_state" where
  "buf_write_all b w =
     (if length b < buf_capacity - length (pending w) then (Inr (), w\<lparr>pending := pending w @ b\<rparr>)
      else case (if buf_capacity - length (pending w) < length b then flush_buf w else (Inr (), w)) of
             (Inl e, w') \<Rightarrow> (Inl e, w')
           | (Inr _, w') \<Rightarrow>
               (if buf_capacity \<le> length b then
                  (case device_write b (dev w') of
                     (k, ok, d) \<Rightarrow> (if ok then Inr () else Inl io_failed, w'\<lparr>dev := d\<rparr>))
                else (Inr (), w'\<lparr>pending := pending w' @ b\<rparr>)))"

definition buf_writer :: "buf_state writer" where
  "buf_writer = \<lparr>write_all = buf_write_all, flush_writer = flush_buf\<rparr>"


section \<open>StreamSink\<close>

text \<open>A user's formatter appends to the buffer, or unwinds leaving something in it.\<close>

datatype format_outcome = Formatted ustr | FormatPanic ustr

type_synonym formatter = "log_record \<Rightarrow> ustr \<Rightarrow> format_outcome"

definition pattern_format :: "float_fmt \<Rightarrow> pattern_element list \<Rightarrow> formatter" where
  "pattern_format F els record out = Formatted (format_elements F els record out)"

record 'd stream_state =
  st_writer :: 'd
  st_scratch :: ustr

definition format_line :: "formatter \<Rightarrow> 'd writer \<Rightarrow> log_record \<Rightarrow> 'd stream_state \<Rightarrow>
    sink_result \<times> 'd stream_state" where
  "format_line fmt W record st =
     (case fmt record [] of
        FormatPanic s \<Rightarrow> (SinkPanic, st\<lparr>st_scratch := s\<rparr>)
      | Formatted s \<Rightarrow>
          (case write_all W (as_bytes s) (st_writer st) of
             (Inl e, w) \<Rightarrow> (SinkErr (SinkIo e), \<lparr>st_writer = w, st_scratch = s\<rparr>)
           | (Inr _, w) \<Rightarrow>
               (case write_all W [10] w of
                  (Inl e, w') \<Rightarrow> (SinkErr (SinkIo e), \<lparr>st_writer = w', st_scratch = s\<rparr>)
                | (Inr _, w') \<Rightarrow> (SinkOk, \<lparr>st_writer = w', st_scratch = s\<rparr>))))"

definition stream_flush :: "'d writer \<Rightarrow> 'd stream_state \<Rightarrow> sink_result \<times> 'd stream_state" where
  "stream_flush W st =
     (case flush_writer W (st_writer st) of
        (Inl e, w) \<Rightarrow> (SinkErr (SinkIo e), st\<lparr>st_writer := w\<rparr>)
      | (Inr _, w) \<Rightarrow> (SinkOk, st\<lparr>st_writer := w\<rparr>))"

definition new_stream :: "'d \<Rightarrow> 'd stream_state" where
  "new_stream w = \<lparr>st_writer = w, st_scratch = []\<rparr>"

definition stream_sink :: "formatter \<Rightarrow> log_level \<Rightarrow> 'd writer \<Rightarrow> 'd stream_state sink" where
  "stream_sink fmt level W =
     \<lparr>sink_level = level, write_record = format_line fmt W, sink_flush = stream_flush W\<rparr>"

definition captured_output :: "bytes stream_state \<Rightarrow> bytes" where
  "captured_output st = st_writer st"

text \<open>
  \<open>delegate_sink_to_engine!\<close>: a sink with an \<open>engine\<close> field forwards its three operations to it;
  \<open>ConsoleSink\<close> is one over a fresh \<open>BufWriter<Stdout>\<close>.
\<close>

definition delegate_to_engine :: "'e sink \<Rightarrow> ('c \<Rightarrow> 'e) \<Rightarrow> ('e \<Rightarrow> 'c \<Rightarrow> 'c) \<Rightarrow> 'c sink" where
  "delegate_to_engine engine get put =
     \<lparr>sink_level = sink_level engine,
      write_record = (\<lambda>r s. let (res, e) = write_record engine r (get s) in (res, put e s)),
      sink_flush = (\<lambda>s. let (res, e) = sink_flush engine (get s) in (res, put e s))\<rparr>"

record engine_state =
  engine :: "buf_state stream_state"

definition console_sink :: "formatter \<Rightarrow> log_level \<Rightarrow> engine_state sink" where
  "console_sink fmt level =
     delegate_to_engine (stream_sink fmt level buf_writer) engine (\<lambda>e s. s\<lparr>engine := e\<rparr>)"

definition new_console :: "device \<Rightarrow> engine_state" where
  "new_console stdout = \<lparr>engine = new_stream \<lparr>dev = stdout, pending = []\<rparr>\<rparr>"


text \<open>Successive \<open>write_record\<close> calls, and the bytes a record's line should have.\<close>

fun write_records :: "'s sink \<Rightarrow> log_record list \<Rightarrow> 's \<Rightarrow> sink_result list \<times> 's" where
  "write_records sk [] s = ([], s)"
| "write_records sk (r # rs) s =
     (let (res, s1) = write_record sk r s; (ress, s2) = write_records sk rs s1 in (res # ress, s2))"

definition record_line :: "formatter \<Rightarrow> log_record \<Rightarrow> bytes" where
  "record_line fmt r = (case fmt r [] of Formatted s \<Rightarrow> as_bytes s @ [10] | FormatPanic s \<Rightarrow> [])"

definition piece_of :: "formatter \<Rightarrow> log_record \<times> sink_result \<Rightarrow> bytes \<Rightarrow> bool" where
  "piece_of fmt = (\<lambda>(r, res) p.
     (\<exists>k. p = take k (record_line fmt r)) \<and> (res = SinkOk \<longrightarrow> p = record_line fmt r))"

lemma piece_whole: "piece_of fmt (r, res) (record_line fmt r)"
  by (auto simp: piece_of_def intro: exI [of _ "length (record_line fmt r)"])

lemma piece_take: "res \<noteq> SinkOk \<Longrightarrow> piece_of fmt (r, res) (take k (record_line fmt r))"
  by (auto simp: piece_of_def)


section \<open>What a writer promises\<close>

text \<open>
  \<open>accepted\<close> is everything a writer has taken, \<open>durable\<close> the part that is at its destination. A
  failed write has taken a prefix; a flush moves everything taken to the destination.
\<close>

locale byte_writer =
  fixes W :: "'d writer" and accepted :: "'d \<Rightarrow> bytes" and durable :: "'d \<Rightarrow> bytes"
  assumes write_ok: "write_all W b w = (Inr u, w') \<Longrightarrow> accepted w' = accepted w @ b"
    and write_err: "write_all W b w = (Inl e, w') \<Longrightarrow> \<exists>k. accepted w' = accepted w @ take k b"
    and flush_ok: "flush_writer W w = (Inr u, w') \<Longrightarrow> accepted w' = accepted w \<and> durable w' = accepted w"
    and flush_err: "flush_writer W w = (Inl e, w') \<Longrightarrow> accepted w' = accepted w"
begin

text \<open>The bytes of one record: its rendering and a newline.\<close>

lemma line_ok:
  assumes "fmt r [] = Formatted s" "format_line fmt W r st = (SinkOk, st')"
  shows "accepted (st_writer st') = accepted (st_writer st) @ as_bytes s @ [10]"
  using assms by (auto simp: format_line_def dest!: write_ok split: prod.splits sum.splits)

lemma line_err:
  assumes "fmt r [] = Formatted s" "format_line fmt W r st = (SinkErr e, st')"
  shows "\<exists>k. accepted (st_writer st') = accepted (st_writer st) @ take k (as_bytes s @ [10])"
proof -
  obtain x w where w: "write_all W (as_bytes s) (st_writer st) = (x, w)" by fastforce
  show ?thesis
  proof (cases x)
    case (Inl e')
    then have "st_writer st' = w" using assms w by (auto simp: format_line_def)
    moreover obtain k where "accepted w = accepted (st_writer st) @ take k (as_bytes s)"
      using write_err w Inl by blast
    then have "accepted w = accepted (st_writer st) @ take (min k (length (as_bytes s))) (as_bytes s @ [10])"
      by (simp add: min_def)
    ultimately show ?thesis by (intro exI [of _ "min k (length (as_bytes s))"]) simp
  next
    case (Inr u)
    then obtain e' w' where w': "write_all W [10] w = (Inl e', w')" "st_writer st' = w'"
      using assms w by (auto simp: format_line_def split: prod.splits sum.splits)
    have "accepted w = accepted (st_writer st) @ as_bytes s" using write_ok w Inr by blast
    moreover obtain k where "accepted w' = accepted w @ take k [10]" using write_err w'(1) by blast
    ultimately have "accepted w' = accepted (st_writer st) @ take (length (as_bytes s) + k) (as_bytes s @ [10])"
      by simp
    then show ?thesis using w'(2) by (intro exI [of _ "length (as_bytes s) + k"]) simp
  qed
qed

lemma line_panic:
  assumes "format_line fmt W r st = (SinkPanic, st')"
  shows "st_writer st' = st_writer st"
  using assms by (auto simp: format_line_def split: format_outcome.splits prod.splits sum.splits)

text \<open>
  A run of records: every result is matched by the piece of output it left, a prefix of the
  record's line, the whole line where the result is \<open>Ok\<close>.
\<close>

lemma records_pieces:
  "write_records (stream_sink fmt level W) rs st = (ress, st') \<Longrightarrow>
   \<exists>pieces. accepted (st_writer st') = accepted (st_writer st) @ concat pieces \<and>
     length ress = length rs \<and> list_all2 (piece_of fmt) (zip rs ress) pieces"
proof (induction rs arbitrary: st ress)
  case Nil
  then show ?case by (intro exI [of _ "[]"]) simp
next
  case (Cons r rs)
  obtain res st1 where one: "format_line fmt W r st = (res, st1)" by fastforce
  obtain ress' where rest: "write_records (stream_sink fmt level W) rs st1 = (ress', st')" "ress = res # ress'"
    using Cons.prems one by (auto simp: stream_sink_def split: prod.splits)
  obtain pieces where ih: "accepted (st_writer st') = accepted (st_writer st1) @ concat pieces"
    "length ress' = length rs" "list_all2 (piece_of fmt) (zip rs ress') pieces"
    using Cons.IH [OF rest(1)] by blast
  have "\<exists>p. accepted (st_writer st1) = accepted (st_writer st) @ p \<and> piece_of fmt (r, res) p"
  proof (cases "fmt r []")
    case (FormatPanic s)
    then have "res = SinkPanic" "st_writer st1 = st_writer st" using one by (auto simp: format_line_def)
    then show ?thesis by (intro exI [of _ "[]"]) (simp add: piece_of_def)
  next
    case (Formatted s)
    then have line: "record_line fmt r = as_bytes s @ [10]" by (simp add: record_line_def)
    show ?thesis
    proof (cases res)
      case SinkOk
      then show ?thesis using line_ok Formatted one line piece_whole by metis
    next
      case (SinkErr e)
      then show ?thesis using line_err Formatted one line piece_take by (metis sink_result.distinct(1))
    next
      case SinkPanic
      then have "st_writer st1 = st_writer st" using line_panic one by blast
      then show ?thesis using piece_take [of res fmt r 0] SinkPanic by (intro exI [of _ "[]"]) simp
    qed
  qed
  then obtain p where "accepted (st_writer st1) = accepted (st_writer st) @ p" "piece_of fmt (r, res) p" by blast
  then show ?case using ih rest(2) by (intro exI [of _ "p # pieces"]) simp
qed

text \<open>Writing a record and flushing, as the worker does, puts its line at the destination.\<close>

lemma line_then_flush:
  assumes "fmt r [] = Formatted s" "format_line fmt W r st = (SinkOk, st')" "stream_flush W st' = (SinkOk, st'')"
  shows "durable (st_writer st'') = accepted (st_writer st) @ as_bytes s @ [10] \<and>
     accepted (st_writer st'') = durable (st_writer st'')"
  using line_ok [OF assms(1,2)] assms(3) flush_ok
  by (auto simp: stream_flush_def split: prod.splits sum.splits)

end

interpretation vec: byte_writer vec_writer "\<lambda>v. v" "\<lambda>v. v"
  by unfold_locales (auto simp: vec_writer_def)

definition buf_accepted :: "buf_state \<Rightarrow> bytes" where
  "buf_accepted w = contents (dev w) @ pending w"

definition buf_durable :: "buf_state \<Rightarrow> bytes" where
  "buf_durable w = contents (dev w)"

lemma device_write_cases:
  "device_write b d = (k, ok, d') \<Longrightarrow>
   contents d' = contents d @ take k b \<and> k \<le> length b \<and> (ok \<longrightarrow> k = length b)"
  by (auto simp: device_write_def min_def split: list.splits option.splits)

lemma flush_buf_accepted:
  assumes "flush_buf w = (res, w')"
  shows "buf_accepted w' = buf_accepted w \<and> (res = Inr () \<longrightarrow> buf_durable w' = buf_accepted w \<and> pending w' = [])"
proof -
  obtain k ok d where d: "device_write (pending w) (dev w) = (k, ok, d)" by (cases "device_write (pending w) (dev w)")
  then show ?thesis
    using assms device_write_cases [OF d]
    by (auto simp: flush_buf_def buf_accepted_def buf_durable_def split: if_splits)
qed

lemma buf_write_all_accepted:
  assumes "buf_write_all b w = (res, w')"
  shows "\<exists>k. buf_accepted w' = buf_accepted w @ take k b \<and> (res = Inr () \<longrightarrow> take k b = b)"
proof (cases "length b < buf_capacity - length (pending w)")
  case True
  then show ?thesis
    using assms by (intro exI [of _ "length b"]) (auto simp: buf_write_all_def buf_accepted_def)
next
  case False
  define small where "small \<longleftrightarrow> buf_capacity - length (pending w) < length b"
  obtain r1 w1 where w1: "(if small then flush_buf w else (Inr (), w)) = (r1, w1)" by fastforce
  then have acc: "buf_accepted w1 = buf_accepted w"
    using flush_buf_accepted by (auto split: if_splits)
  show ?thesis
  proof (cases r1)
    case (Inl e)
    then show ?thesis
      using assms False w1 acc by (intro exI [of _ 0]) (auto simp: buf_write_all_def small_def)
  next
    case (Inr u)
    have step: "buf_write_all b w =
        (if buf_capacity \<le> length b
         then (case device_write b (dev w1) of (k, ok, d) \<Rightarrow> (if ok then Inr () else Inl io_failed, w1\<lparr>dev := d\<rparr>))
         else (Inr (), w1\<lparr>pending := pending w1 @ b\<rparr>))"
      using False w1 Inr by (simp add: buf_write_all_def small_def)
    show ?thesis
    proof (cases "buf_capacity \<le> length b")
      case True
      obtain k ok d where d: "device_write b (dev w1) = (k, ok, d)" by (cases "device_write b (dev w1)")
      have "pending w1 = []"
      proof (cases small)
        case True
        then show ?thesis using w1 Inr flush_buf_accepted by auto
      next
        case False
        then have "length (pending w) = 0"
          using \<open>buf_capacity \<le> length b\<close> unfolding small_def buf_capacity_def by linarith
        then show ?thesis using False w1 by simp
      qed
      then show ?thesis
        using assms True d device_write_cases [OF d] acc unfolding step
        by (intro exI [of _ k]) (auto simp: buf_accepted_def split: if_splits)
    next
      case False
      then show ?thesis
        using assms acc unfolding step
        by (intro exI [of _ "length b"]) (auto simp: buf_accepted_def)
    qed
  qed
qed

interpretation buf: byte_writer buf_writer buf_accepted buf_durable
  by unfold_locales (auto simp: buf_writer_def dest: buf_write_all_accepted flush_buf_accepted)


section \<open>The delegating sinks\<close>

lemma delegate_records:
  assumes "\<And>e s. get (put e s) = e"
    and "write_records (delegate_to_engine sk get put) rs s = (ress, s')"
  shows "\<exists>e. write_records sk rs (get s) = (ress, e) \<and> get s' = e"
  using assms(2)
proof (induction rs arbitrary: s ress)
  case (Cons r rs)
  obtain res e where one: "write_record sk r (get s) = (res, e)" by fastforce
  obtain ress' where "write_records (delegate_to_engine sk get put) rs (put e s) = (ress', s')" "ress = res # ress'"
    using Cons.prems one by (auto simp: delegate_to_engine_def split: prod.splits)
  then show ?case using Cons.IH one assms(1) by fastforce
qed simp

lemma console_pieces:
  assumes "write_records (console_sink fmt level) rs (new_console stdout) = (ress, s')"
  shows "\<exists>pieces. buf_accepted (st_writer (engine s')) = contents stdout @ concat pieces \<and>
     length ress = length rs \<and> list_all2 (piece_of fmt) (zip rs ress) pieces"
proof -
  obtain e where "write_records (stream_sink fmt level buf_writer) rs (engine (new_console stdout)) = (ress, e)"
    "engine s' = e"
    using delegate_records [of engine "\<lambda>e s. s\<lparr>engine := e\<rparr>", OF _ assms [unfolded console_sink_def]] by auto
  moreover have "buf_accepted (st_writer (engine (new_console stdout))) = contents stdout"
    by (simp add: new_console_def new_stream_def buf_accepted_def)
  ultimately show ?thesis using buf.records_pieces by metis
qed


section \<open>Properties\<close>

text \<open>What a console sink has taken is the old output followed by one piece for each record, in
  order: the whole line (the formatter's rendering in UTF-8 and a newline) wherever \<open>write_record\<close>
  returned \<open>Ok\<close>, and otherwise a prefix of it, whatever writes the operating system refuses or
  cuts short and however the 8 KiB buffer is flushed in between.\<close>

lemma console_lines_in_order:
  assumes "write_records (console_sink fmt level) rs (new_console stdout) = (ress, s')"
  shows "\<exists>pieces. buf_accepted (st_writer (engine s')) = contents stdout @ concat pieces \<and>
     length ress = length rs \<and> list_all2 (piece_of fmt) (zip rs ress) pieces"
  by (rule console_pieces [OF assms])

definition demo_record :: log_record where
  "demo_record = \<lparr>lr_timestamp = 5, lr_logger_name = lit ''main'',
     lr_metadata = \<lparr>md_level = Info, fmt_str = lit ''hi'', md_file = lit ''a.rs'', md_line = 7,
                    module_path = lit ''m'', arg_count = 0\<rparr>, lr_args = []\<rparr>"

definition plain_format :: formatter where
  "plain_format r out = Formatted (out @ fmt_str (lr_metadata r))"

text \<open>C35. A record written with \<open>Ok\<close> and flushed with \<open>Ok\<close>, as the worker does for every record, is
  at its destination: the file or console then holds everything taken before and the record's line,
  and nothing is left in the buffer.\<close>

theorem flushed_line_is_durable:
  assumes "fmt r [] = Formatted s" "format_line fmt buf_writer r st = (SinkOk, st')"
    and "stream_flush buf_writer st' = (SinkOk, st'')"
  shows "contents (dev (st_writer st'')) = buf_accepted (st_writer st) @ as_bytes s @ [10] \<and>
     pending (st_writer st'') = []"
  using buf.line_then_flush [OF assms] by (auto simp: buf_accepted_def buf_durable_def)

theorem flushed_line_is_durable_witness:
  "\<exists>st'' :: buf_state stream_state. contents (dev (st_writer st'')) =
       buf_accepted (st_writer (new_stream \<lparr>dev = \<lparr>contents = [1], os_faults = []\<rparr>, pending = []\<rparr>)) @ as_bytes (lit ''hi'') @ [10] \<and>
     pending (st_writer st'') = []"
proof -
  let ?st = "new_stream \<lparr>dev = \<lparr>contents = [1], os_faults = []\<rparr>, pending = []\<rparr>"
  have f: "plain_format demo_record [] = Formatted (lit ''hi'')" by (simp add: plain_format_def demo_record_def)
  have w: "format_line plain_format buf_writer demo_record ?st = (SinkOk, snd (format_line plain_format buf_writer demo_record ?st))"
    by (simp add: format_line_def plain_format_def demo_record_def new_stream_def buf_writer_def buf_write_all_def
        buf_capacity_def lit_def ch_def as_bytes_def utf8_char_def)
  let ?st1 = "snd (format_line plain_format buf_writer demo_record ?st)"
  have "stream_flush buf_writer ?st1 = (SinkOk, snd (stream_flush buf_writer ?st1))"
    by (simp add: format_line_def plain_format_def demo_record_def new_stream_def buf_writer_def buf_write_all_def
        buf_capacity_def lit_def ch_def as_bytes_def utf8_char_def stream_flush_def flush_buf_def device_write_def)
  from flushed_line_is_durable [OF f w this] show ?thesis by blast
qed

end
