(* ===== verification/File_Sinks.thy ===== *)
theory File_Sinks
  imports Sink_Core
begin

text \<open>
  The file sinks of \<open>sink.rs\<close> and the file-system calls they make: \<open>ContinuousFileSink\<close> opens one
  file, \<open>SessionFileSink\<close> first rotates the files of earlier sessions. The file system maps paths to
  contents; which calls the operating system refuses, and how, is a parameter of every operation.
\<close>

section \<open>The file system\<close>

type_synonym fs = "ustr \<Rightarrow> bytes option"

record fs_env =
  remove_refused :: "ustr \<Rightarrow> ustr option"
  rename_refused :: "ustr \<Rightarrow> ustr \<Rightarrow> ustr option"
  open_refused :: "ustr \<Rightarrow> ustr option"

definition remove_file :: "fs_env \<Rightarrow> ustr \<Rightarrow> fs \<Rightarrow> (io_error + unit) \<times> fs" where
  "remove_file E p fs =
     (if fs p = None then (Inl NotFound, fs)
      else case remove_refused E p of
             Some e \<Rightarrow> (Inl (OtherIo e), fs)
           | None \<Rightarrow> (Inr (), fs(p := None)))"

definition rename_file :: "fs_env \<Rightarrow> ustr \<Rightarrow> ustr \<Rightarrow> fs \<Rightarrow> (io_error + unit) \<times> fs" where
  "rename_file E from to fs =
     (if fs from = None then (Inl NotFound, fs)
      else case rename_refused E from to of
             Some e \<Rightarrow> (Inl (OtherIo e), fs)
           | None \<Rightarrow> (Inr (), fs(from := None, to := fs from)))"

text \<open>\<open>OpenOptions\<close>, and the combinations the standard library refuses before asking the system.\<close>

record open_options =
  o_write :: bool
  o_append :: bool
  o_truncate :: bool
  o_create :: bool
  o_create_new :: bool

definition append_create :: open_options where
  "append_create =
     \<lparr>o_write = False, o_append = True, o_truncate = False, o_create = True, o_create_new = False\<rparr>"

definition options_valid :: "open_options \<Rightarrow> bool" where
  "options_valid opts \<longleftrightarrow>
     (if o_append opts then \<not> o_truncate opts \<or> o_create_new opts
      else o_write opts \<or> \<not> (o_truncate opts \<or> o_create opts \<or> o_create_new opts))"

definition open_file :: "fs_env \<Rightarrow> open_options \<Rightarrow> ustr \<Rightarrow> fs \<Rightarrow> (io_error + unit) \<times> fs" where
  "open_file E opts p fs =
     (if \<not> options_valid opts then (Inl InvalidInput, fs)
      else case open_refused E p of
        Some e \<Rightarrow> (Inl (OtherIo e), fs)
      | None \<Rightarrow>
          (case fs p of
             None \<Rightarrow> if o_create opts \<or> o_create_new opts then (Inr (), fs(p := Some []))
                     else (Inl NotFound, fs)
           | Some old \<Rightarrow> if o_create_new opts then (Inl AlreadyExists, fs)
                         else (Inr (), if o_truncate opts then fs(p := Some []) else fs)))"


section \<open>Rotation\<close>

definition get_backup_path_for_index :: "ustr \<Rightarrow> nat \<Rightarrow> ustr" where
  "get_backup_path_for_index path index =
     (if index = 0 then path else path @ ch (CHR ''.'') # show_nat index)"

definition remove_if_present :: "fs_env \<Rightarrow> ustr \<Rightarrow> fs \<Rightarrow> (io_error + unit) \<times> fs" where
  "remove_if_present E p fs =
     (case remove_file E p fs of
        (Inl e, fs') \<Rightarrow> (if e = NotFound then Inr () else Inl e, fs')
      | other \<Rightarrow> other)"

definition rename_if_present :: "fs_env \<Rightarrow> ustr \<Rightarrow> ustr \<Rightarrow> fs \<Rightarrow> (io_error + unit) \<times> fs" where
  "rename_if_present E from to fs =
     (case rename_file E from to fs of
        (Inl e, fs') \<Rightarrow> (if e = NotFound then Inr () else Inl e, fs')
      | other \<Rightarrow> other)"

text \<open>The loop \<open>for index in (1..=max_backups).rev()\<close>, from \<open>index\<close> downwards.\<close>

fun rotate_loop :: "fs_env \<Rightarrow> ustr \<Rightarrow> nat \<Rightarrow> fs \<Rightarrow> (io_error + unit) \<times> fs" where
  "rotate_loop E path 0 fs = (Inr (), fs)"
| "rotate_loop E path (Suc n) fs =
     (case rename_if_present E (get_backup_path_for_index path n) (get_backup_path_for_index path (Suc n)) fs of
        (Inl e, fs') \<Rightarrow> (Inl e, fs')
      | (Inr _, fs') \<Rightarrow> rotate_loop E path n fs')"

definition rotate_backups :: "fs_env \<Rightarrow> ustr \<Rightarrow> nat \<Rightarrow> fs \<Rightarrow> (io_error + unit) \<times> fs" where
  "rotate_backups E path max_backups fs =
     (case remove_if_present E (get_backup_path_for_index path max_backups) fs of
        (Inl e, fs') \<Rightarrow> (Inl e, fs')
      | (Inr _, fs') \<Rightarrow> rotate_loop E path max_backups fs')"


section \<open>Constructors\<close>

text \<open>The opened file behind its \<open>BufWriter\<close>; \<open>faults\<close> is what the system will make of the writes.\<close>

definition file_engine :: "bytes \<Rightarrow> nat option list \<Rightarrow> engine_state" where
  "file_engine old faults =
     \<lparr>engine = new_stream \<lparr>dev = \<lparr>contents = old, os_faults = faults\<rparr>, pending = []\<rparr>\<rparr>"

definition continuous_from_options :: "fs_env \<Rightarrow> nat option list \<Rightarrow> ustr \<Rightarrow> open_options \<Rightarrow> fs \<Rightarrow>
    (io_error + engine_state) \<times> fs" where
  "continuous_from_options E faults path opts fs =
     (case open_file E opts path fs of
        (Inl e, fs') \<Rightarrow> (Inl e, fs')
      | (Inr _, fs') \<Rightarrow> (Inr (file_engine (the (fs' path)) faults), fs'))"

definition continuous_try_new :: "fs_env \<Rightarrow> nat option list \<Rightarrow> ustr \<Rightarrow> fs \<Rightarrow> (io_error + engine_state) \<times> fs" where
  "continuous_try_new E faults path fs = continuous_from_options E faults path append_create fs"

definition session_from_options :: "fs_env \<Rightarrow> nat option list \<Rightarrow> ustr \<Rightarrow> nat \<Rightarrow> open_options \<Rightarrow> fs \<Rightarrow>
    (io_error + engine_state) \<times> fs" where
  "session_from_options E faults path max_backups opts fs =
     (case rotate_backups E path max_backups fs of
        (Inl e, fs') \<Rightarrow> (Inl e, fs')
      | (Inr _, fs') \<Rightarrow>
          (case open_file E opts path fs' of
             (Inl e, fs'') \<Rightarrow> (Inl e, fs'')
           | (Inr _, fs'') \<Rightarrow> (Inr (file_engine (the (fs'' path)) faults), fs'')))"

definition session_try_new :: "fs_env \<Rightarrow> nat option list \<Rightarrow> ustr \<Rightarrow> nat \<Rightarrow> fs \<Rightarrow>
    (io_error + engine_state) \<times> fs" where
  "session_try_new E faults path max_backups fs =
     session_from_options E faults path max_backups append_create fs"

definition file_sink :: "formatter \<Rightarrow> log_level \<Rightarrow> engine_state sink" where
  "file_sink fmt level =
     delegate_to_engine (stream_sink fmt level buf_writer) engine (\<lambda>e s. s\<lparr>engine := e\<rparr>)"


section \<open>Backup names\<close>

lemma backup_path_inj [simp]:
  "get_backup_path_for_index path i = get_backup_path_for_index path j \<longleftrightarrow> i = j"
  by (auto simp: get_backup_path_for_index_def)

lemma rename_if_present_moves:
  assumes "rename_if_present E a b fs = (res, fs')" "fs b = None" "a \<noteq> b"
  shows "(res = Inr () \<and> fs' = fs(a := None, b := fs a)) \<or> (\<exists>e. res = Inl e \<and> fs' = fs \<and> fs a \<noteq> None)"
  using assms by (auto simp: rename_if_present_def rename_file_def fun_upd_idem split: if_splits option.splits)

text \<open>
  With an empty slot \<open>n\<close> the loop moves every session below up by one, or stops with an error at
  some index, above which the sessions have moved and below which nothing has changed.
\<close>

lemma rotate_loop_spec:
  assumes "fs (get_backup_path_for_index path n) = None" "rotate_loop E path n fs = (res, fs')"
  shows "\<exists>j\<le>n. (res = Inr () \<longrightarrow> j = 0) \<and> (res \<noteq> Inr () \<longrightarrow> 0 < j) \<and>
     fs' (get_backup_path_for_index path j) = None \<and>
     (\<forall>k. j \<le> k \<and> k < n \<longrightarrow> fs' (get_backup_path_for_index path (Suc k)) = fs (get_backup_path_for_index path k)) \<and>
     (\<forall>k<j. fs' (get_backup_path_for_index path k) = fs (get_backup_path_for_index path k)) \<and>
     (\<forall>p. (\<forall>k\<le>n. p \<noteq> get_backup_path_for_index path k) \<longrightarrow> fs' p = fs p)"
  using assms
proof (induction n arbitrary: fs)
  case 0
  then show ?case by (intro exI [of _ 0]) auto
next
  case (Suc n)
  let ?b = "get_backup_path_for_index path"
  obtain r1 fs1 where one: "rename_if_present E (?b n) (?b (Suc n)) fs = (r1, fs1)" by fastforce
  consider (moved) "r1 = Inr ()" "fs1 = fs(?b n := None, ?b (Suc n) := fs (?b n))"
    | (failed) e where "r1 = Inl e" "fs1 = fs"
    using rename_if_present_moves [OF one] Suc.prems(1) by auto
  then show ?case
  proof cases
    case failed
    then have "res = Inl e" "fs' = fs" using Suc.prems(2) one by auto
    then show ?thesis using Suc.prems(1) by (intro exI [of _ "Suc n"]) auto
  next
    case moved
    then have "fs1 (?b n) = None" "rotate_loop E path n fs1 = (res, fs')"
      using Suc.prems(2) one by auto
    from Suc.IH [OF this] obtain j where j: "j \<le> n" "res = Inr () \<longrightarrow> j = 0" "res \<noteq> Inr () \<longrightarrow> 0 < j"
      "fs' (?b j) = None" "\<forall>k. j \<le> k \<and> k < n \<longrightarrow> fs' (?b (Suc k)) = fs1 (?b k)"
      "\<forall>k<j. fs' (?b k) = fs1 (?b k)" "\<forall>p. (\<forall>k\<le>n. p \<noteq> ?b k) \<longrightarrow> fs' p = fs1 p" by blast
    have below: "fs1 (?b k) = fs (?b k)" if "k < n" for k using moved that by simp
    have top: "fs' (?b (Suc n)) = fs (?b n)" using j(7) moved by simp
    have "fs' (?b (Suc k)) = fs (?b k)" if "j \<le> k" "k < Suc n" for k
      using that j(5) below top by (cases "k = n") auto
    moreover have "fs' (?b k) = fs (?b k)" if "k < j" for k using that j(1,6) below by simp
    moreover have "fs' p = fs p" if "\<forall>k\<le>Suc n. p \<noteq> ?b k" for p
      using that j(7) moved by simp
    ultimately show ?thesis using j(1-4) by (intro exI [of _ j]) auto
  qed
qed


lemma remove_if_present_cases:
  assumes "remove_if_present E p fs = (res, fs')"
  shows "(res = Inr () \<and> fs' = fs(p := None)) \<or> (\<exists>e. res = Inl e \<and> fs' = fs)"
  using assms by (auto simp: remove_if_present_def remove_file_def split: if_splits option.splits)

text \<open>Where the sessions are after a rotation that succeeded, or that failed half way.\<close>

lemma rotate_backups_spec:
  assumes "rotate_backups E path N fs = (res, fs')"
  shows "(res = Inr () \<longrightarrow> fs' path = None \<and>
            (\<forall>k<N. fs' (get_backup_path_for_index path (Suc k)) = fs (get_backup_path_for_index path k))) \<and>
     (\<forall>k<N. fs' (get_backup_path_for_index path (Suc k)) = fs (get_backup_path_for_index path k) \<or>
            fs' (get_backup_path_for_index path k) = fs (get_backup_path_for_index path k)) \<and>
     (\<forall>p. (\<forall>k\<le>N. p \<noteq> get_backup_path_for_index path k) \<longrightarrow> fs' p = fs p)"
proof -
  let ?b = "get_backup_path_for_index path"
  have b0: "?b 0 = path" by (simp add: get_backup_path_for_index_def)
  obtain r1 fs1 where one: "remove_if_present E (?b N) fs = (r1, fs1)" by fastforce
  consider (removed) "r1 = Inr ()" "fs1 = fs(?b N := None)" | (failed) e where "r1 = Inl e" "fs1 = fs"
    using remove_if_present_cases [OF one] by blast
  then show ?thesis
  proof cases
    case failed
    then show ?thesis using assms one by (auto simp: rotate_backups_def)
  next
    case removed
    then have "fs1 (?b N) = None" "rotate_loop E path N fs1 = (res, fs')"
      using assms one by (auto simp: rotate_backups_def)
    from rotate_loop_spec [OF this] obtain j where j: "j \<le> N" "res = Inr () \<longrightarrow> j = 0"
      "fs' (?b j) = None" "\<forall>k. j \<le> k \<and> k < N \<longrightarrow> fs' (?b (Suc k)) = fs1 (?b k)"
      "\<forall>k<j. fs' (?b k) = fs1 (?b k)" "\<forall>p. (\<forall>k\<le>N. p \<noteq> ?b k) \<longrightarrow> fs' p = fs1 p" by blast
    have same: "fs1 (?b k) = fs (?b k)" if "k < N" for k using removed that by simp
    have "fs' (?b (Suc k)) = fs (?b k) \<or> fs' (?b k) = fs (?b k)" if "k < N" for k
      using that j(4,5) same by (metis not_le)
    moreover have "fs' p = fs p" if "\<forall>k\<le>N. p \<noteq> ?b k" for p using that j(6) removed by simp
    moreover have "fs' path = None \<and> (\<forall>k<N. fs' (?b (Suc k)) = fs (?b k))" if "res = Inr ()"
      using that j(2-4) same b0 by auto
    ultimately show ?thesis by blast
  qed
qed

lemma open_fresh:
  assumes "fs path = None" "open_file E opts path fs = (Inr (), fs')"
  shows "fs' = fs(path := Some [])"
  using assms by (auto simp: open_file_def split: if_splits option.splits)

lemma nothing_refused_rotates:
  assumes "\<And>p. remove_refused E p = None" "\<And>p q. rename_refused E p q = None"
  shows "fst (rotate_backups E path N fs) = Inr ()"
proof -
  have "fst (rotate_loop E path n fs) = Inr ()" for n fs
    using assms(2)
    by (induction n arbitrary: fs) (auto simp: rename_if_present_def rename_file_def split: prod.splits sum.splits)
  then show ?thesis
    using assms(1) by (auto simp: rotate_backups_def remove_if_present_def remove_file_def split: prod.splits sum.splits)
qed


section \<open>Properties\<close>

text \<open>C33. A rotation that succeeds shifts every session up by one: backup \<open>k + 1\<close> is what \<open>k\<close> was
  (missing ones included, the live file being 0), only the oldest is dropped, the live path is free,
  and no other path is touched, backups above \<open>max_backups\<close> among them.\<close>

theorem rotation_shifts_sessions:
  assumes "rotate_backups E path N fs = (Inr (), fs')"
  shows "fs' path = None \<and>
     (\<forall>k<N. fs' (get_backup_path_for_index path (Suc k)) = fs (get_backup_path_for_index path k)) \<and>
     (\<forall>p. (\<forall>k\<le>N. p \<noteq> get_backup_path_for_index path k) \<longrightarrow> fs' p = fs p)"
  using rotate_backups_spec [OF assms] by blast

definition calm_env :: fs_env where
  "calm_env = \<lparr>remove_refused = (\<lambda>_. None), rename_refused = (\<lambda>_ _. None), open_refused = (\<lambda>_. None)\<rparr>"

definition two_sessions :: fs where
  "two_sessions = [lit ''app.log'' \<mapsto> [1], lit ''app.log.1'' \<mapsto> [2]]"

theorem rotation_shifts_sessions_witness:
  "let fs' = snd (rotate_backups calm_env (lit ''app.log'') 2 two_sessions) in
   fs' (lit ''app.log'') = None \<and>
   (\<forall>k<2. fs' (get_backup_path_for_index (lit ''app.log'') (Suc k)) =
          two_sessions (get_backup_path_for_index (lit ''app.log'') k)) \<and>
   (\<forall>p. (\<forall>k\<le>2. p \<noteq> get_backup_path_for_index (lit ''app.log'') k) \<longrightarrow> fs' p = two_sessions p)"
proof -
  let ?r = "rotate_backups calm_env (lit ''app.log'') 2 two_sessions"
  have "fst ?r = Inr ()" by (rule nothing_refused_rotates) (simp_all add: calm_env_def)
  then have "?r = (Inr (), snd ?r)" by (cases ?r) simp
  from rotation_shifts_sessions [OF this] show ?thesis unfolding Let_def .
qed

text \<open>C34. A rotation stopped by an error, at whatever step, loses no session but possibly the oldest:
  each of the others is still there under its old number or the next, and nothing else is touched.\<close>

theorem failed_rotation_keeps_sessions:
  assumes "rotate_backups E path N fs = (Inl e, fs')"
  shows "(\<forall>k<N. fs' (get_backup_path_for_index path (Suc k)) = fs (get_backup_path_for_index path k) \<or>
            fs' (get_backup_path_for_index path k) = fs (get_backup_path_for_index path k)) \<and>
     (\<forall>p. (\<forall>k\<le>N. p \<noteq> get_backup_path_for_index path k) \<longrightarrow> fs' p = fs p)"
  using rotate_backups_spec [OF assms] by blast

theorem failed_rotation_keeps_sessions_witness:
  "\<exists>E fs'. rotate_backups E (lit ''app.log'') 1 two_sessions = (Inl (OtherIo (lit ''busy'')), fs') \<and>
     (\<forall>k<1. fs' (get_backup_path_for_index (lit ''app.log'') (Suc k)) =
              two_sessions (get_backup_path_for_index (lit ''app.log'') k) \<or>
            fs' (get_backup_path_for_index (lit ''app.log'') k) =
              two_sessions (get_backup_path_for_index (lit ''app.log'') k)) \<and>
     (\<forall>p. (\<forall>k\<le>1. p \<noteq> get_backup_path_for_index (lit ''app.log'') k) \<longrightarrow> fs' p = two_sessions p)"
proof -
  let ?E = "calm_env\<lparr>rename_refused := \<lambda>_ _. Some (lit ''busy'')\<rparr>"
  have "rotate_backups ?E (lit ''app.log'') (Suc 0) two_sessions =
      (Inl (OtherIo (lit ''busy'')), two_sessions(lit ''app.log.1'' := None))"
    by (simp add: rotate_backups_def remove_if_present_def remove_file_def rename_if_present_def rename_file_def
        calm_env_def two_sessions_def get_backup_path_for_index_def show_nat.simps lit_def ch_def)
  then have r: "rotate_backups ?E (lit ''app.log'') 1 two_sessions =
      (Inl (OtherIo (lit ''busy'')), two_sessions(lit ''app.log.1'' := None))" by simp
  show ?thesis using r failed_rotation_keeps_sessions [OF r] by blast
qed

text \<open>A session sink that could be constructed starts with a fresh, empty live file, whatever
  options the caller opens it with, and the previous session is backup 1 when backups are kept.\<close>

lemma session_starts_fresh:
  assumes "session_from_options E faults path N opts fs = (Inr s, fs')"
  shows "fs' path = Some [] \<and> contents (dev (st_writer (engine s))) = [] \<and>
     (0 < N \<longrightarrow> fs' (get_backup_path_for_index path 1) = fs path)"
proof -
  obtain fs1 where rot: "rotate_backups E path N fs = (Inr (), fs1)"
    and op: "open_file E opts path fs1 = (Inr (), fs')" and s: "s = file_engine (the (fs' path)) faults"
    using assms by (auto simp: session_from_options_def split: prod.splits sum.splits)
  have b: "get_backup_path_for_index path 0 = path" "get_backup_path_for_index path (Suc 0) \<noteq> path"
    by (simp_all add: get_backup_path_for_index_def)
  note sp = rotate_backups_spec [OF rot]
  have fs': "fs' = fs1(path := Some [])" using sp by (intro open_fresh [OF _ op]) blast
  moreover have "0 < N \<longrightarrow> fs1 (get_backup_path_for_index path (Suc 0)) = fs path"
    using sp b(1) by (metis (no_types))
  ultimately show ?thesis using s b by (simp add: file_engine_def new_stream_def)
qed

text \<open>A continuous sink appends: opening an existing file keeps its bytes, and what the sink and the
  file hold after any records is those bytes followed by one piece per record as for the console.\<close>

lemma continuous_sink_appends:
  assumes "continuous_try_new E faults path fs = (Inr s, fs')" "fs path = Some old"
    and "write_records (file_sink fmt level) rs s = (ress, s')"
  shows "fs' = fs \<and> (\<exists>pieces. buf_accepted (st_writer (engine s')) = old @ concat pieces \<and>
     list_all2 (piece_of fmt) (zip rs ress) pieces)"
proof -
  have s: "fs' = fs" "s = file_engine old faults"
    using assms(1,2)
    by (auto simp: continuous_try_new_def continuous_from_options_def open_file_def append_create_def
        split: prod.splits sum.splits if_splits option.splits)
  obtain e where "write_records (stream_sink fmt level buf_writer) rs (engine s) = (ress, e)" "engine s' = e"
    using delegate_records [of engine "\<lambda>e s. s\<lparr>engine := e\<rparr>", OF _ assms(3) [unfolded file_sink_def]] by auto
  moreover have "buf_accepted (st_writer (engine s)) = old"
    by (simp add: s file_engine_def new_stream_def buf_accepted_def)
  ultimately show ?thesis using buf.records_pieces s(1) by metis
qed

end
