(* ===== verification/Loggers.thy ===== *)
theory Loggers
  imports Sink_Core
begin

text \<open>
  \<open>logger.rs\<close>: a named logger with a fixed list of sinks and a level kept as a byte, so that the hot
  path can load it atomically. Only the level changes after construction.
\<close>

record 's logger =
  logger_name :: ustr
  logger_sinks :: "'s sink list"
  level_byte :: u8

definition new_logger :: "ustr \<Rightarrow> 's sink list \<Rightarrow> log_level \<Rightarrow> 's logger" where
  "new_logger name sinks level = \<lparr>logger_name = name, logger_sinks = sinks, level_byte = level_u8 level\<rparr>"

text \<open>\<open>Logger::level\<close>: a byte that is no level's code makes the \<open>expect\<close> panic.\<close>

definition get_level :: "'s logger \<Rightarrow> fault + log_level" where
  "get_level lg = (case level_try_from (level_byte lg) of Inl _ \<Rightarrow> Inl PanicExpect | Inr l \<Rightarrow> Inr l)"

definition set_level :: "log_level \<Rightarrow> 's logger \<Rightarrow> 's logger" where
  "set_level level lg = lg\<lparr>level_byte := level_u8 level\<rparr>"

lemma get_level_new [simp]: "get_level (new_logger name sinks level) = Inr level"
  by (simp add: get_level_def new_logger_def)

lemma get_level_set [simp]: "get_level (set_level level lg) = Inr level"
  by (simp add: get_level_def set_level_def)

lemma set_level_fixed [simp]:
  "logger_name (set_level level lg) = logger_name lg" "logger_sinks (set_level level lg) = logger_sinks lg"
  by (simp_all add: set_level_def)

text \<open>Whatever levels have been set on a logger, in any number and order, reading the level never
  panics and returns the last one set, or the one it was created with; name and sinks never change.\<close>

lemma level_is_last_set:
  "get_level (fold set_level ls (new_logger name sinks l0)) = Inr (last (l0 # ls)) \<and>
   logger_name (fold set_level ls (new_logger name sinks l0)) = name \<and>
   logger_sinks (fold set_level ls (new_logger name sinks l0)) = sinks"
proof (induction ls rule: rev_induct)
  case Nil
  then show ?case by simp (simp add: new_logger_def)
qed simp

end
