(* ===== verification/Per_Thread_Queue.thy ===== *)
theory Per_Thread_Queue
  imports Byte_Queue
begin

text \<open>
  \<open>per_thread_queue.rs\<close>: the two halves of one thread's queue and the flag they share. A channel
  holds the queue, the thread's producer, the backend's consumer and the flag, which the drop of the
  producer clears.
\<close>

record channel =
  ch_inner :: queue_inner
  ch_prod :: producer
  ch_cons :: consumer
  ch_alive :: bool

definition new_channel :: "target \<Rightarrow> usize \<Rightarrow> fault + channel" where
  "new_channel T cap =
     rbind (new_queue T cap) (\<lambda>(q, p, c). Inr \<lparr>ch_inner = q, ch_prod = p, ch_cons = c, ch_alive = True\<rparr>)"

definition drop_producer :: "channel \<Rightarrow> channel" where
  "drop_producer chn = chn\<lparr>ch_alive := False\<rparr>"

text \<open>The chunks a channel holds.\<close>

definition chan_rel :: "channel \<Rightarrow> bytes list \<Rightarrow> bool" where
  "chan_rel chn cs \<longleftrightarrow> q_rel (ch_inner chn) (ch_prod chn) (ch_cons chn) cs"

definition chan_capacity :: "channel \<Rightarrow> nat" where
  "chan_capacity chn = q_capacity (ch_inner chn)"

text \<open>\<open>PerThreadProducer.producer.write\<close> and the consumer's operations, on the channel.\<close>

definition chan_write :: "target \<Rightarrow> channel \<Rightarrow> usize \<Rightarrow> (bytes \<Rightarrow> fault + bytes) \<Rightarrow>
    fault + (write_error + unit) \<times> channel" where
  "chan_write T chn n f =
     rbind (write_queue T (ch_inner chn) (ch_prod chn) n f)
       (\<lambda>(r, q, p). Inr (r, chn\<lparr>ch_inner := q, ch_prod := p\<rparr>))"

definition chan_available :: "channel \<Rightarrow> usize \<times> channel" where
  "chan_available chn = (let (n, c) = available (ch_inner chn) (ch_cons chn) in (n, chn\<lparr>ch_cons := c\<rparr>))"

lemma chan_rel_drop [simp]: "chan_rel (drop_producer chn) cs = chan_rel chn cs"
  by (simp add: chan_rel_def drop_producer_def)

lemma new_channel_ok:
  assumes "0 < unat cap" "unat cap \<le> 2 ^ 62"
  shows "\<exists>chn. new_channel T cap = Inr chn \<and> chan_rel chn [] \<and> ch_alive chn \<and> unat cap \<le> chan_capacity chn"
  using new_queue_ok [OF assms, of T] by (auto simp: new_channel_def chan_rel_def chan_capacity_def)

lemma q_inv_capacity: "q_inv q p c m r cr k cs \<Longrightarrow> q_capacity q = 2 ^ m"
  by (auto simp: q_inv_def inner_wf_capacity)

lemma chan_available_spec:
  assumes "chan_rel chn cs"
  shows "\<exists>n chn'. chan_available chn = (n, chn') \<and> chan_rel chn' cs \<and> ch_alive chn' = ch_alive chn \<and>
     chan_capacity chn' = chan_capacity chn \<and> (n = 0 \<longleftrightarrow> total_len cs = 0)"
proof -
  obtain m r cr k where inv: "q_inv (ch_inner chn) (ch_prod chn) (ch_cons chn) m r cr k cs"
    using assms by (auto simp: chan_rel_def q_rel_def)
  obtain n c' k' where a: "available (ch_inner chn) (ch_cons chn) = (n, c')"
    "q_inv (ch_inner chn) (ch_prod chn) c' m r cr k' cs" "unat n = total_len (take k' cs)"
    "0 < total_len cs \<longrightarrow> 0 < unat n"
    using available_spec [OF inv] by blast
  have "n = 0 \<longleftrightarrow> total_len cs = 0"
    using a(3,4) total_len_take_le [of k' cs] by (auto simp: unat_eq_0 [symmetric])
  then show ?thesis
    using a(1,2) by (auto simp: chan_available_def chan_rel_def q_rel_def chan_capacity_def)
qed

text \<open>A write whose closure leaves the bytes \<open>d\<close>, whatever the place held before.\<close>

lemma chan_write_spec:
  assumes "chan_rel chn cs" "\<And>old. length old = unat n \<Longrightarrow> f old = Inr d" "length d = unat n"
  shows "\<exists>chn'. chan_capacity chn' = chan_capacity chn \<and> ch_alive chn' = ch_alive chn \<and>
     (if chan_capacity chn < unat n then chan_write T chn n f = Inr (Inl OversizedWrite, chn') \<and> chan_rel chn' cs
      else if chan_capacity chn < total_len cs + unat n then chan_write T chn n f = Inr (Inl QueueFull, chn') \<and> chan_rel chn' cs
      else chan_write T chn n f = Inr (Inr (), chn') \<and> chan_rel chn' (cs @ [d]))"
proof -
  obtain m r cr k where inv: "q_inv (ch_inner chn) (ch_prod chn) (ch_cons chn) m r cr k cs"
    using assms(1) by (auto simp: chan_rel_def q_rel_def)
  have f: "f old = Inr ((\<lambda>_. d) old) \<and> length ((\<lambda>_. d) old) = unat n" if "length old = unat n" for old
    using assms(2) [OF that] assms(3) by simp
  obtain q' p' cr' where w:
    "if 2 ^ m < unat n then
       write_queue T (ch_inner chn) (ch_prod chn) n f = Inr (Inl OversizedWrite, q', p') \<and>
       q_inv q' p' (ch_cons chn) m r cr' k cs
     else if 2 ^ m < total_len cs + unat n then
       write_queue T (ch_inner chn) (ch_prod chn) n f = Inr (Inl QueueFull, q', p') \<and>
       q_inv q' p' (ch_cons chn) m r cr' k cs
     else \<exists>old :: bytes. length old = unat n \<and>
       write_queue T (ch_inner chn) (ch_prod chn) n f = Inr (Inr (), q', p') \<and>
       q_inv q' p' (ch_cons chn) m r cr' k (cs @ [d])"
    using write_spec [OF inv, of n f "\<lambda>_. d" T, OF f] by blast
  let ?chn = "chn\<lparr>ch_inner := q', ch_prod := p'\<rparr>"
  have cap: "chan_capacity chn = 2 ^ m" using q_inv_capacity [OF inv] by (simp add: chan_capacity_def)
  have rel: "q_inv q' p' (ch_cons chn) m r cr' k xs \<Longrightarrow> chan_capacity ?chn = 2 ^ m \<and> chan_rel ?chn xs" for xs
    using q_inv_capacity by (auto simp: chan_capacity_def chan_rel_def q_rel_def)
  show ?thesis unfolding cap using w rel
    by (intro exI [of _ ?chn]) (auto simp: chan_write_def split: if_splits)
qed

end
