(* ===== verification/Backend_Runner.thy ===== *)
theory Backend_Runner
  imports Loggers Per_Thread_Queue
begin

text \<open>
  \<open>backend_runner.rs\<close>: the worker. It takes a snapshot of the registered consumers, reads at most 32
  records from each, decodes them and hands each to the sinks of its logger; then it retires the
  queues of threads that have ended. Channels and loggers live in stores and are named by address.
  What other threads do while the worker runs is a parameter of its loop.
\<close>

section \<open>State\<close>

text \<open>What the records point to: the build, decoder functions, call-site metadata and loggers.\<close>

record 's env =
  env_target :: target
  env_decoders :: decoder_mem
  env_metadata :: metadata_mem
  env_loggers :: "usize \<Rightarrow> 's logger option"

text \<open>What dispatching a record changes: the counters, the error stream and the sinks.\<close>

record 's outputs =
  write_errors :: u64
  flush_errors :: u64
  panic_count :: u64
  stderr :: "ustr list"
  sink_states :: 's

text \<open>The back-off of an idle round.\<close>

datatype idle_action = YieldNow | Sleep nat

record 's runner =
  shutdown_flag :: bool
  consumers :: "nat list"
  outs :: "'s outputs"
  dropped_records :: u64
  idle_yield_rounds :: u32
  idle_sleep :: nat
  wait_for_drain :: bool
  channels :: "nat \<Rightarrow> channel"
  idle_trace :: "idle_action list"

definition new_runner :: "u32 \<Rightarrow> nat \<Rightarrow> bool \<Rightarrow> (nat \<Rightarrow> channel) \<Rightarrow> 's \<Rightarrow> 's runner" where
  "new_runner rounds sleep wait chs st =
     \<lparr>shutdown_flag = False, consumers = [],
      outs = \<lparr>write_errors = 0, flush_errors = 0, panic_count = 0, stderr = [], sink_states = st\<rparr>,
      dropped_records = 0, idle_yield_rounds = rounds, idle_sleep = sleep, wait_for_drain = wait,
      channels = chs, idle_trace = []\<rparr>"

definition max_batch :: nat where
  "max_batch = 32"


section \<open>Reading one record\<close>

text \<open>The closure of \<open>read\<close>: a decoding error becomes \<open>None\<close> by \<open>ok()\<close>, with the bytes consumed.\<close>

definition decode_closure :: "'s env \<Rightarrow> bytes \<Rightarrow> fault + raw_record option" where
  "decode_closure V bs =
     (case decode_record (env_target V) (env_decoders V) (env_metadata V) bs of
        Inr raw \<Rightarrow> Inr (Some raw)
      | Inl (DecodeErr e) \<Rightarrow> Inr None
      | Inl (Faulted f) \<Rightarrow> Inl f)"

definition try_read_one :: "'s env \<Rightarrow> channel \<Rightarrow> fault + raw_record option \<times> channel" where
  "try_read_one V chn =
     (let (avail, c) = available (ch_inner chn) (ch_cons chn)
      in if unat avail < header_size then Inr (None, chn\<lparr>ch_cons := c\<rparr>)
         else rbind (peek (env_target V) (ch_inner chn) c (of_nat header_size)) (\<lambda>(header_bytes, c).
           let total = header_size + unat (encoded_args_size (read_header (env_target V) header_bytes))
           in if unat avail < total then Inr (None, chn\<lparr>ch_cons := c\<rparr>)
              else rbind (read_queue (env_target V) (ch_inner chn) c (of_nat total) (decode_closure V))
                (\<lambda>(r, q, c). Inr (r, chn\<lparr>ch_inner := q, ch_cons := c\<rparr>))))"


section \<open>Dispatch\<close>

text \<open>
  The body of \<open>catch_unwind\<close>: the loop over the sinks; a panic of a sink leaves it at once, with the
  effects so far. The result says whether it unwound.
\<close>

fun fanout_loop :: "'s sink list \<Rightarrow> log_record \<Rightarrow> 's outputs \<Rightarrow> bool \<times> 's outputs" where
  "fanout_loop [] r os = (False, os)"
| "fanout_loop (sk # sks) r os =
     (if md_level (lr_metadata r) < sink_level sk then fanout_loop sks r os
      else case write_record sk r (sink_states os) of
             (SinkOk, st) \<Rightarrow>
               (case sink_flush sk st of
                  (SinkOk, st') \<Rightarrow> fanout_loop sks r (os\<lparr>sink_states := st'\<rparr>)
                | (SinkErr e, st') \<Rightarrow>
                    fanout_loop sks r (os\<lparr>flush_errors := flush_errors os + 1, sink_states := st'\<rparr>)
                | (SinkPanic, st') \<Rightarrow> (True, os\<lparr>sink_states := st'\<rparr>))
           | (SinkErr e, st) \<Rightarrow>
               fanout_loop sks r (os\<lparr>write_errors := write_errors os + 1, sink_states := st\<rparr>)
           | (SinkPanic, st) \<Rightarrow> (True, os\<lparr>sink_states := st\<rparr>))"

definition fanout_to_sinks :: "'s logger \<Rightarrow> log_record \<Rightarrow> 's outputs \<Rightarrow> 's outputs" where
  "fanout_to_sinks lg r os =
     (case fanout_loop (logger_sinks lg) r os of
        (False, os') \<Rightarrow> os'
      | (True, os') \<Rightarrow> os'\<lparr>panic_count := panic_count os' + 1,
                          stderr := stderr os' @ [lit ''insomnilog: a sink panicked during write_record'']\<rparr>)"

definition log_record_of :: "'s logger \<Rightarrow> raw_record \<Rightarrow> log_record" where
  "log_record_of lg raw =
     \<lparr>lr_timestamp = raw_timestamp raw, lr_logger_name = logger_name lg,
      lr_metadata = raw_metadata raw, lr_args = raw_args raw\<rparr>"

text \<open>Following a logger pointer that is no logger's is undefined behaviour.\<close>

definition process_record :: "'s env \<Rightarrow> raw_record \<Rightarrow> 's outputs \<Rightarrow> fault + 's outputs" where
  "process_record V raw os =
     (case env_loggers V (raw_logger raw) of
        None \<Rightarrow> Inl UbDangling
      | Some lg \<Rightarrow> Inr (fanout_to_sinks lg (log_record_of lg raw) os))"


section \<open>One pass\<close>

text \<open>\<open>for _ in 0..MAX_BATCH_PER_CONSUMER\<close> with \<open>n\<close> rounds left.\<close>

fun drain_loop :: "'s env \<Rightarrow> nat \<Rightarrow> nat \<Rightarrow> bool \<Rightarrow> 's runner \<Rightarrow> fault + bool \<times> 's runner" where
  "drain_loop V 0 k did rn = Inr (did, rn)"
| "drain_loop V (Suc n) k did rn =
     rbind (try_read_one V (channels rn k)) (\<lambda>(r, chn).
       let rn' = rn\<lparr>channels := (channels rn)(k := chn)\<rparr>
       in case r of
            None \<Rightarrow> Inr (did, rn')
          | Some raw \<Rightarrow> rbind (process_record V raw (outs rn')) (\<lambda>os.
              drain_loop V n k True (rn'\<lparr>outs := os\<rparr>)))"

definition drain_consumer :: "'s env \<Rightarrow> nat \<Rightarrow> 's runner \<Rightarrow> fault + bool \<times> 's runner" where
  "drain_consumer V k rn = drain_loop V max_batch k False rn"

fun drain_all :: "'s env \<Rightarrow> nat list \<Rightarrow> bool \<Rightarrow> 's runner \<Rightarrow> fault + bool \<times> 's runner" where
  "drain_all V [] did rn = Inr (did, rn)"
| "drain_all V (k # ks) did rn =
     rbind (drain_consumer V k rn) (\<lambda>(d, rn'). drain_all V ks (did \<or> d) rn')"

text \<open>
  \<open>retain\<close>: a consumer is kept if its thread is alive, else if its queue still shows bytes; the
  liveness is loaded first and the queue is asked only if it is false. \<open>h\<close> is what the thread does
  to its channel between the two.
\<close>

fun retain_consumers :: "(nat \<Rightarrow> channel \<Rightarrow> channel) \<Rightarrow> nat list \<Rightarrow> (nat \<Rightarrow> channel) \<Rightarrow>
    nat list \<times> (nat \<Rightarrow> channel)" where
  "retain_consumers h [] chs = ([], chs)"
| "retain_consumers h (k # ks) chs =
     (let alive = ch_alive (chs k); chs1 = chs(k := h k (chs k))
      in if alive then apfst (Cons k) (retain_consumers h ks chs1)
         else let (n, chn) = chan_available (chs1 k); chs2 = chs1(k := chn)
              in if 0 < n then apfst (Cons k) (retain_consumers h ks chs2) else retain_consumers h ks chs2)"

definition retire_dead_consumers :: "(nat \<Rightarrow> channel \<Rightarrow> channel) \<Rightarrow> 's runner \<Rightarrow> 's runner" where
  "retire_dead_consumers h rn =
     (let (ks, chs) = retain_consumers h (consumers rn) (channels rn) in rn\<lparr>consumers := ks, channels := chs\<rparr>)"

fun any_pending :: "nat list \<Rightarrow> (nat \<Rightarrow> channel) \<Rightarrow> bool \<times> (nat \<Rightarrow> channel)" where
  "any_pending [] chs = (False, chs)"
| "any_pending (k # ks) chs =
     (let (n, chn) = chan_available (chs k); chs' = chs(k := chn)
      in if 0 < n then (True, chs') else any_pending ks chs')"

definition any_queues_pending :: "'s runner \<Rightarrow> bool \<times> 's runner" where
  "any_queues_pending rn =
     (let (b, chs) = any_pending (consumers rn) (channels rn) in (b, rn\<lparr>channels := chs\<rparr>))"


section \<open>The worker loop\<close>

text \<open>\<open>idle_streak.saturating_add(1)\<close> and the choice between yielding and sleeping.\<close>

definition saturating_inc :: "u32 \<Rightarrow> u32" where
  "saturating_inc n = (if n = - 1 then n else n + 1)"

definition idle_round :: "u32 \<Rightarrow> 's runner \<Rightarrow> u32 \<times> 's runner" where
  "idle_round streak rn =
     (let streak' = saturating_inc streak;
          act = (if streak' \<le> idle_yield_rounds rn then YieldNow else Sleep (idle_sleep rn))
      in (streak', rn\<lparr>idle_trace := idle_trace rn @ [act]\<rparr>))"

text \<open>
  What the other threads do to the shared state in one turn of the loop: after the flag is loaded,
  between the two loads of the retirement, and before the queues are asked again.
\<close>

record 's others =
  before_drain :: "'s runner \<Rightarrow> 's runner"
  between_loads :: "nat \<Rightarrow> channel \<Rightarrow> channel"
  before_check :: "'s runner \<Rightarrow> 's runner"

datatype turn = Leave | Again u32

definition worker_turn :: "'s env \<Rightarrow> 's others \<Rightarrow> u32 \<Rightarrow> 's runner \<Rightarrow> fault + turn \<times> 's runner" where
  "worker_turn V e streak rn =
     (let shutting_down = shutdown_flag rn
      in if shutting_down \<and> \<not> wait_for_drain rn then Inr (Leave, rn)
         else let rn1 = before_drain e rn in
           rbind (drain_all V (consumers rn1) False rn1) (\<lambda>(did_work, rn2).
             let rn3 = before_check e (retire_dead_consumers (between_loads e) rn2)
             in if shutting_down then
                  (case any_queues_pending rn3 of
                     (False, rn4) \<Rightarrow> Inr (Leave, rn4)
                   | (True, rn4) \<Rightarrow> Inr (Again streak, rn4))
                else if did_work then Inr (Again 0, rn3)
                else let (streak', rn4) = idle_round streak rn3 in Inr (Again streak', rn4)))"

text \<open>\<open>run\<close>: \<open>None\<close> when the fuel is spent before the worker leaves.\<close>

fun run_worker :: "'s env \<Rightarrow> (nat \<Rightarrow> 's others) \<Rightarrow> nat \<Rightarrow> nat \<Rightarrow> u32 \<Rightarrow> 's runner \<Rightarrow>
    (fault + 's runner) option" where
  "run_worker V E i 0 streak rn = None"
| "run_worker V E i (Suc fuel) streak rn =
     (case worker_turn V (E i) streak rn of
        Inl f \<Rightarrow> Some (Inl f)
      | Inr (Leave, rn') \<Rightarrow> Some (Inr rn')
      | Inr (Again streak', rn') \<Rightarrow> run_worker V E (Suc i) fuel streak' rn')"

definition quiet :: "nat \<Rightarrow> 's others" where
  "quiet = (\<lambda>_. \<lparr>before_drain = (\<lambda>rn. rn), between_loads = (\<lambda>k chn. chn), before_check = (\<lambda>rn. rn)\<rparr>)"


section \<open>Reading one record of a queue\<close>

text \<open>A chunk that is one record: as long as its header says.\<close>

definition is_record :: "target \<Rightarrow> bytes \<Rightarrow> bool" where
  "is_record T chunk \<longleftrightarrow>
     header_size \<le> length chunk \<and> length chunk = header_size + unat (encoded_args_size (read_header T chunk))"

definition same_channel :: "channel \<Rightarrow> channel \<Rightarrow> bool" where
  "same_channel a b \<longleftrightarrow> ch_alive a = ch_alive b \<and> chan_capacity a = chan_capacity b"

lemma same_channel_refl [simp]: "same_channel a a"
  by (simp add: same_channel_def)

lemma same_channel_trans: "same_channel a b \<Longrightarrow> same_channel b c \<Longrightarrow> same_channel a c"
  by (simp add: same_channel_def)

lemma channels_upd_other:
  "j \<noteq> k \<Longrightarrow> channels (rn\<lparr>channels := (channels rn)(k := chn), outs := os\<rparr>) j = channels rn j"
  by simp

lemma try_read_one_empty:
  assumes "chan_rel chn cs" "total_len cs < header_size"
  shows "\<exists>chn'. try_read_one V chn = Inr (None, chn') \<and> chan_rel chn' cs \<and> same_channel chn' chn"
proof -
  obtain m r cr k where inv: "q_inv (ch_inner chn) (ch_prod chn) (ch_cons chn) m r cr k cs"
    using assms(1) by (auto simp: chan_rel_def q_rel_def)
  obtain n c k' where a: "available (ch_inner chn) (ch_cons chn) = (n, c)"
    "q_inv (ch_inner chn) (ch_prod chn) c m r cr k' cs" "unat n = total_len (take k' cs)"
    by (rule available_spec [OF inv])
  have "unat n < header_size" using a(3) assms(2) total_len_take_le [of k' cs] by simp
  then show ?thesis
    using a(1,2) by (auto simp: try_read_one_def chan_rel_def q_rel_def same_channel_def chan_capacity_def)
qed

lemma try_read_one_spec:
  assumes rel: "chan_rel chn (chunk # ds)" and rec: "is_record (env_target V) chunk"
  shows "\<exists>chn'. chan_rel chn' ds \<and> same_channel chn' chn \<and>
     try_read_one V chn = rbind (decode_closure V chunk) (\<lambda>r. Inr (r, chn'))"
proof -
  let ?T = "env_target V" and ?q = "ch_inner chn" and ?p = "ch_prod chn"
  obtain m r cr k where inv: "q_inv ?q ?p (ch_cons chn) m r cr k (chunk # ds)"
    using rel by (auto simp: chan_rel_def q_rel_def)
  obtain n c k' where a: "available ?q (ch_cons chn) = (n, c)" "q_inv ?q ?p c m r cr k' (chunk # ds)"
    "unat n = total_len (take k' (chunk # ds))" "0 < total_len (chunk # ds) \<longrightarrow> 0 < unat n"
    by (rule available_spec [OF inv])
  have big: "length chunk \<le> unat n" using a(3,4) by (metis avail_covers_head)
  have hs: "header_size \<le> length chunk" using rec by (simp add: is_record_def)
  obtain c2 k2 where p: "peek ?T ?q c (of_nat header_size) = Inr (take header_size chunk, c2)"
    "q_inv ?q ?p c2 m r cr k2 (chunk # ds)"
    using peek_spec [OF a(2) hs] by blast
  have total: "header_size + unat (encoded_args_size (read_header ?T (take header_size chunk))) = length chunk"
    using rec by (simp add: is_record_def read_header_take header_size_def)
  obtain q' c3 k3 where rd: "q_inv q' ?p c3 m (r + length chunk) cr k3 ds"
    "read_queue ?T ?q c2 (of_nat (length chunk)) (decode_closure V) =
     rbind (decode_closure V chunk) (\<lambda>x. Inr (x, q', c3))"
    using read_spec [OF p(2)] by blast
  let ?chn = "chn\<lparr>ch_inner := q', ch_cons := c3\<rparr>"
  have "try_read_one V chn = rbind (decode_closure V chunk) (\<lambda>x. Inr (x, ?chn))"
    using hs big unfolding try_read_one_def a(1) Let_def
    by (cases "decode_closure V chunk") (simp_all add: p(1) total rd(2))
  moreover have "chan_rel ?chn ds" using rd(1) by (auto simp: chan_rel_def q_rel_def)
  moreover have "same_channel ?chn chn"
    using q_inv_capacity [OF rd(1)] q_inv_capacity [OF inv] by (simp add: same_channel_def chan_capacity_def)
  ultimately show ?thesis by blast
qed


section \<open>Dispatch never faults\<close>

text \<open>The loop of sinks sees only those whose level accepts the record.\<close>

lemma fanout_loop_cong:
  assumes "\<And>os. fanout_loop sks r os = fanout_loop sks' r os"
  shows "fanout_loop (sk # sks) r os = fanout_loop (sk # sks') r os"
  unfolding fanout_loop.simps assms ..

lemma fanout_loop_filter:
  "fanout_loop sks r os = fanout_loop (filter (\<lambda>sk. sink_level sk \<le> md_level (lr_metadata r)) sks) r os"
proof (induction sks arbitrary: os)
  case (Cons sk sks)
  show ?case
  proof (cases "sink_level sk \<le> md_level (lr_metadata r)")
    case True
    then have f: "filter (\<lambda>sk. sink_level sk \<le> md_level (lr_metadata r)) (sk # sks) =
        sk # filter (\<lambda>sk. sink_level sk \<le> md_level (lr_metadata r)) sks" by simp
    show ?thesis unfolding f by (rule fanout_loop_cong [OF Cons.IH])
  next
    case False
    then have f: "filter (\<lambda>sk. sink_level sk \<le> md_level (lr_metadata r)) (sk # sks) =
        filter (\<lambda>sk. sink_level sk \<le> md_level (lr_metadata r)) sks"
      and skip: "fanout_loop (sk # sks) r os = fanout_loop sks r os" by (simp_all add: not_le)
    show ?thesis unfolding f skip by (rule Cons.IH)
  qed
qed simp

lemma process_record_total:
  "env_loggers V (raw_logger raw) = Some lg \<Longrightarrow>
   process_record V raw os = Inr (fanout_to_sinks lg (log_record_of lg raw) os)"
  by (simp add: process_record_def)

fun deliver_all :: "'s env \<Rightarrow> raw_record list \<Rightarrow> 's outputs \<Rightarrow> fault + 's outputs" where
  "deliver_all V [] os = Inr os"
| "deliver_all V (r # rs) os = rbind (process_record V r os) (deliver_all V rs)"

lemma deliver_all_append: "deliver_all V (rs @ rs') os = rbind (deliver_all V rs os) (deliver_all V rs')"
  by (induction rs arbitrary: os) (auto simp: rbind_def split: sum.split)


section \<open>Draining\<close>

text \<open>\<open>decodes V cs rs\<close>: the chunks are the records \<open>rs\<close>, each of a registered logger.\<close>

definition decodes :: "'s env \<Rightarrow> bytes list \<Rightarrow> raw_record list \<Rightarrow> bool" where
  "decodes V = list_all2 (\<lambda>chunk r. is_record (env_target V) chunk \<and> decode_closure V chunk = Inr (Some r) \<and>
     env_loggers V (raw_logger r) \<noteq> None)"

lemma decodes_Nil [simp]: "decodes V [] rs \<longleftrightarrow> rs = []" "decodes V cs [] \<longleftrightarrow> cs = []"
  by (simp_all add: decodes_def)

lemma decodes_drop: "decodes V cs rs \<Longrightarrow> decodes V (drop n cs) (drop n rs)"
  by (simp add: decodes_def list_all2_dropI)

lemma decodes_length: "decodes V cs rs \<Longrightarrow> length cs = length rs"
  by (auto simp: decodes_def dest: list_all2_lengthD)

lemma decodes_total: "decodes V cs rs \<Longrightarrow> total_len cs = 0 \<longleftrightarrow> cs = []"
  by (cases cs; cases rs) (auto simp: decodes_def is_record_def header_size_def)

lemma drain_loop_spec:
  assumes "chan_rel (channels rn k) cs" "decodes V cs rs"
  shows "\<exists>chs os. drain_loop V n k did rn =
       Inr (did \<or> (0 < n \<and> cs \<noteq> []), rn\<lparr>channels := (channels rn)(k := chs), outs := os\<rparr>) \<and>
     chan_rel chs (drop n cs) \<and> same_channel chs (channels rn k) \<and>
     deliver_all V (take n rs) (outs rn) = Inr os"
  using assms
proof (induction n arbitrary: rn cs rs did)
  case 0
  then show ?case by (intro exI [of _ "channels rn k"] exI [of _ "outs rn"]) simp
next
  case (Suc n)
  show ?case
  proof (cases cs)
    case Nil
    then obtain chn where "try_read_one V (channels rn k) = Inr (None, chn)" "chan_rel chn []"
      "same_channel chn (channels rn k)"
      using try_read_one_empty [OF Suc.prems(1), of V] by (auto simp: header_size_def)
    then show ?thesis using Nil Suc.prems(2)
      by (intro exI [of _ chn] exI [of _ "outs rn"]) (simp add: fun_upd_def)
  next
    case (Cons c ds)
    then obtain r rs' where rs: "rs = r # rs'" and c: "is_record (env_target V) c"
      "decode_closure V c = Inr (Some r)" and lg: "env_loggers V (raw_logger r) \<noteq> None"
      and ds: "decodes V ds rs'"
      using Suc.prems(2) by (auto simp: decodes_def list_all2_Cons1)
    obtain chn where chn: "chan_rel chn ds" "same_channel chn (channels rn k)"
      "try_read_one V (channels rn k) = Inr (Some r, chn)"
      using try_read_one_spec [of "channels rn k" c ds V] Suc.prems(1) c by (auto simp: Cons)
    obtain os where os: "process_record V r (outs rn) = Inr os"
      using lg by (auto simp: process_record_def)
    let ?rn = "rn\<lparr>channels := (channels rn)(k := chn), outs := os\<rparr>"
    have "chan_rel (channels ?rn k) ds" using chn(1) by simp
    from Suc.IH [OF this ds, of True] obtain chs os' where ih:
      "drain_loop V n k True ?rn = Inr (True \<or> (0 < n \<and> ds \<noteq> []), ?rn\<lparr>channels := (channels ?rn)(k := chs), outs := os'\<rparr>)"
      "chan_rel chs (drop n ds)" "same_channel chs (channels ?rn k)"
      "deliver_all V (take n rs') (outs ?rn) = Inr os'" by blast
    have "same_channel chs (channels rn k)" using ih(3) chn(2) by (auto simp: same_channel_def)
    then show ?thesis
      using ih chn(3) os by (intro exI [of _ chs] exI [of _ os']) (simp add: Cons rs fun_upd_def cong: if_cong)
  qed
qed

definition holding :: "'s env \<Rightarrow> nat list \<Rightarrow> (nat \<Rightarrow> channel) \<Rightarrow> (nat \<Rightarrow> bytes list) \<Rightarrow> (nat \<Rightarrow> raw_record list) \<Rightarrow> bool"
  where
  "holding V ks chs cs rs \<longleftrightarrow> (\<forall>k\<in>set ks. chan_rel (chs k) (cs k) \<and> decodes V (cs k) (rs k))"

text \<open>One pass takes up to 32 records of each queue, queue after queue.\<close>

lemma drain_all_spec:
  assumes "distinct ks" "holding V ks (channels rn) cs rs"
  shows "\<exists>chs os. drain_all V ks did rn =
       Inr (did \<or> (\<exists>k\<in>set ks. cs k \<noteq> []), rn\<lparr>channels := chs, outs := os\<rparr>) \<and>
     (\<forall>k\<in>set ks. chan_rel (chs k) (drop max_batch (cs k)) \<and> same_channel (chs k) (channels rn k)) \<and>
     (\<forall>k. k \<notin> set ks \<longrightarrow> chs k = channels rn k) \<and>
     deliver_all V (concat (map (\<lambda>k. take max_batch (rs k)) ks)) (outs rn) = Inr os"
  using assms
proof (induction ks arbitrary: rn did)
  case Nil
  then show ?case by (intro exI [of _ "channels rn"] exI [of _ "outs rn"]) simp
next
  case (Cons k ks)
  have k: "chan_rel (channels rn k) (cs k)" "decodes V (cs k) (rs k)"
    using Cons.prems(2) by (auto simp: holding_def)
  obtain chn os where one: "drain_loop V max_batch k False rn =
      Inr (False \<or> (0 < max_batch \<and> cs k \<noteq> []), rn\<lparr>channels := (channels rn)(k := chn), outs := os\<rparr>)"
    "chan_rel chn (drop max_batch (cs k))" "same_channel chn (channels rn k)"
    "deliver_all V (take max_batch (rs k)) (outs rn) = Inr os"
    using drain_loop_spec [OF k] by blast
  let ?rn = "rn\<lparr>channels := (channels rn)(k := chn), outs := os\<rparr>"
  have "holding V ks (channels ?rn) cs rs"
    using Cons.prems by (auto simp: holding_def)
  from Cons.IH [OF _ this, of "did \<or> cs k \<noteq> []"] Cons.prems(1) obtain chs os' where ih:
    "drain_all V ks (did \<or> cs k \<noteq> []) ?rn =
       Inr ((did \<or> cs k \<noteq> []) \<or> (\<exists>k\<in>set ks. cs k \<noteq> []), ?rn\<lparr>channels := chs, outs := os'\<rparr>)"
    "\<forall>j\<in>set ks. chan_rel (chs j) (drop max_batch (cs j)) \<and> same_channel (chs j) (channels ?rn j)"
    "\<forall>j. j \<notin> set ks \<longrightarrow> chs j = channels ?rn j"
    "deliver_all V (concat (map (\<lambda>k. take max_batch (rs k)) ks)) (outs ?rn) = Inr os'" by auto
  have "0 < max_batch" by (simp add: max_batch_def)
  then have "drain_consumer V k rn = Inr (cs k \<noteq> [], ?rn)" using one(1) by (simp add: drain_consumer_def)
  then have "drain_all V (k # ks) did rn = Inr (did \<or> (\<exists>j\<in>set (k # ks). cs j \<noteq> []), rn\<lparr>channels := chs, outs := os'\<rparr>)"
    using ih(1) by auto
  moreover have k: "k \<notin> set ks" using Cons.prems(1) by simp
  then have "chs k = chn" using ih(3) by simp
  then have "\<forall>j\<in>set (k # ks). chan_rel (chs j) (drop max_batch (cs j)) \<and> same_channel (chs j) (channels rn j)"
    using ih(2) one(2,3) k by (metis channels_upd_other set_ConsD)
  moreover have "\<forall>j. j \<notin> set (k # ks) \<longrightarrow> chs j = channels rn j" using ih(3) by simp
  ultimately show ?case
    using ih(4) one(4) by (intro exI [of _ chs] exI [of _ os']) (simp add: deliver_all_append)
qed


section \<open>Retiring and leaving\<close>

lemma usize_pos: "(0 :: usize) < n \<longleftrightarrow> n \<noteq> 0"
  by (simp add: word_less_nat_alt unat_gt_0)

text \<open>Once its thread is gone a channel is written no more: the producer has been dropped.\<close>

definition dead_silent :: "(nat \<Rightarrow> channel \<Rightarrow> channel) \<Rightarrow> bool" where
  "dead_silent h \<longleftrightarrow> (\<forall>k chn. \<not> ch_alive chn \<longrightarrow> h k chn = chn)"

lemma retain_consumers_spec:
  assumes "retain_consumers h ks chs = (ks', chs')" "distinct ks" "dead_silent h"
    and "\<forall>k\<in>set ks. \<not> ch_alive (chs k) \<longrightarrow> chan_rel (chs k) (cs k)"
  shows "ks' = filter (\<lambda>k. ch_alive (chs k) \<or> 0 < total_len (cs k)) ks \<and>
     (\<forall>k\<in>set ks. \<not> ch_alive (chs k) \<longrightarrow> chan_rel (chs' k) (cs k) \<and> same_channel (chs' k) (chs k)) \<and>
     (\<forall>k\<in>set ks. ch_alive (chs k) \<longrightarrow> chs' k = h k (chs k)) \<and>
     (\<forall>k. k \<notin> set ks \<longrightarrow> chs' k = chs k)"
  using assms
proof (induction ks arbitrary: chs ks')
  case (Cons k ks)
  show ?case
  proof (cases "ch_alive (chs k)")
    case True
    let ?chs = "chs(k := h k (chs k))"
    obtain ks1 where r: "retain_consumers h ks ?chs = (ks1, chs')" and ks': "ks' = k # ks1"
      using Cons.prems(1) True by (auto simp: Let_def apfst_def map_prod_def split: prod.splits)
    have same: "\<forall>j\<in>set ks. ?chs j = chs j" using Cons.prems(2) by auto
    then have "filter (\<lambda>j. ch_alive (?chs j) \<or> 0 < total_len (cs j)) ks =
        filter (\<lambda>j. ch_alive (chs j) \<or> 0 < total_len (cs j)) ks" by (intro filter_cong) auto
    then show ?thesis using Cons.IH [OF r] Cons.prems ks' True same by auto
  next
    case False
    then have rel: "chan_rel (chs k) (cs k)" and h: "h k (chs k) = chs k"
      using Cons.prems(3,4) by (auto simp: dead_silent_def)
    obtain n chn where a: "chan_available (chs k) = (n, chn)" "chan_rel chn (cs k)"
      "ch_alive chn = ch_alive (chs k)" "chan_capacity chn = chan_capacity (chs k)"
      "n = 0 \<longleftrightarrow> total_len (cs k) = 0"
      using chan_available_spec [OF rel] by metis
    let ?chs = "chs(k := chn)"
    obtain ks1 where r: "retain_consumers h ks ?chs = (ks1, chs')" and ks': "ks' = (if 0 < n then k # ks1 else ks1)"
      using Cons.prems(1) False
      by (cases "retain_consumers h ks ?chs") (auto simp: Let_def h a(1) split: if_splits)
    have same: "\<forall>j\<in>set ks. ?chs j = chs j" using Cons.prems(2) by auto
    then have "filter (\<lambda>j. ch_alive (?chs j) \<or> 0 < total_len (cs j)) ks =
        filter (\<lambda>j. ch_alive (chs j) \<or> 0 < total_len (cs j)) ks" by (intro filter_cong) auto
    moreover have "0 < n \<longleftrightarrow> 0 < total_len (cs k)" using a(5) by (simp add: usize_pos)
    moreover have "chs' k = chn" using Cons.IH [OF r] Cons.prems same by auto
    ultimately show ?thesis
      using Cons.IH [OF r] Cons.prems ks' False same a(2-4) by (auto simp: same_channel_def)
  qed
qed simp

lemma retire_spec:
  assumes "distinct (consumers rn)" "dead_silent h"
    and "\<forall>k\<in>set (consumers rn). \<not> ch_alive (channels rn k) \<longrightarrow> chan_rel (channels rn k) (cs k)"
  shows "\<exists>chs. retire_dead_consumers h rn =
       rn\<lparr>consumers := filter (\<lambda>k. ch_alive (channels rn k) \<or> 0 < total_len (cs k)) (consumers rn), channels := chs\<rparr> \<and>
     (\<forall>k\<in>set (consumers rn). \<not> ch_alive (channels rn k) \<longrightarrow> chan_rel (chs k) (cs k) \<and> same_channel (chs k) (channels rn k)) \<and>
     (\<forall>k\<in>set (consumers rn). ch_alive (channels rn k) \<longrightarrow> chs k = h k (channels rn k)) \<and>
     (\<forall>k. k \<notin> set (consumers rn) \<longrightarrow> chs k = channels rn k)"
proof -
  obtain ks' chs where r: "retain_consumers h (consumers rn) (channels rn) = (ks', chs)" by fastforce
  show ?thesis
    using retain_consumers_spec [OF r assms] by (intro exI [of _ chs]) (simp add: retire_dead_consumers_def r)
qed

text \<open>A queue found empty stays as it was found: asking again says the same.\<close>

lemma available_zero:
  assumes "chan_available chn = (0, chn')"
  shows "chan_available chn' = (0, chn')" "chan_rel chn' cs \<Longrightarrow> total_len cs = 0"
proof -
  obtain c' where av: "available (ch_inner chn) (ch_cons chn) = (0, c')" and chn': "chn' = chn\<lparr>ch_cons := c'\<rparr>"
    using assms by (auto simp: chan_available_def split: prod.splits)
  have nless: "\<not> c_read (ch_cons chn) < cached_write (ch_cons chn)"
    using av by (auto simp: available_def split: if_splits)
  then have c': "c' = (ch_cons chn)\<lparr>cached_write := write_pos (ch_inner chn)\<rparr>"
    "write_pos (ch_inner chn) = c_read (ch_cons chn)"
    using av by (auto simp: available_def Let_def)
  then show again: "chan_available chn' = (0, chn')"
    by (simp add: chn' chan_available_def available_def Let_def)
  show "total_len cs = 0" if "chan_rel chn' cs"
    using chan_available_spec [OF that] again by auto
qed

lemma any_pending_False:
  "any_pending ks chs = (False, chs') \<Longrightarrow>
   (\<forall>k\<in>set ks. chan_available (chs' k) = (0, chs' k)) \<and> (\<forall>k. k \<notin> set ks \<longrightarrow> chs' k = chs k)"
proof (induction ks arbitrary: chs)
  case (Cons k ks)
  obtain n chn where a: "chan_available (chs k) = (n, chn)" by fastforce
  then have n: "n = 0" and rest: "any_pending ks (chs(k := chn)) = (False, chs')"
    using Cons.prems by (auto simp: Let_def usize_pos split: if_splits)
  show ?case
    using Cons.IH [OF rest] available_zero(1) [OF a [unfolded n]] by (cases "k \<in> set ks") auto
qed simp

lemma any_pending_total:
  assumes "\<forall>k\<in>set ks. chan_rel (chs k) (cs k)" "distinct ks"
  shows "\<exists>chs'. any_pending ks chs = ((\<exists>k\<in>set ks. 0 < total_len (cs k)), chs') \<and>
     (\<forall>k\<in>set ks. chan_rel (chs' k) (cs k) \<and> same_channel (chs' k) (chs k)) \<and> (\<forall>k. k \<notin> set ks \<longrightarrow> chs' k = chs k)"
  using assms
proof (induction ks arbitrary: chs)
  case (Cons k ks)
  obtain n chn where a: "chan_available (chs k) = (n, chn)" "chan_rel chn (cs k)"
    "ch_alive chn = ch_alive (chs k)" "chan_capacity chn = chan_capacity (chs k)"
    "n = 0 \<longleftrightarrow> total_len (cs k) = 0"
    using chan_available_spec Cons.prems(1) by (meson list.set_intros(1))
  show ?case
  proof (cases "0 < n")
    case True
    then have "0 < total_len (cs k)" using a(5) by auto
    then show ?thesis using True a Cons.prems by (intro exI [of _ "chs(k := chn)"]) (auto simp: same_channel_def)
  next
    case False
    then have z: "total_len (cs k) = 0" using a(5) by (simp add: usize_pos)
    have "\<forall>j\<in>set ks. chan_rel ((chs(k := chn)) j) (cs j)" using Cons.prems by auto
    moreover have "distinct ks" using Cons.prems(2) by simp
    ultimately obtain chs' where ih:
      "any_pending ks (chs(k := chn)) = ((\<exists>k\<in>set ks. 0 < total_len (cs k)), chs')"
      "\<forall>j\<in>set ks. chan_rel (chs' j) (cs j) \<and> same_channel (chs' j) ((chs(k := chn)) j)"
      "\<forall>j. j \<notin> set ks \<longrightarrow> chs' j = (chs(k := chn)) j" using Cons.IH by blast
    then show ?thesis
      using False a z Cons.prems(2) by (intro exI [of _ chs']) (auto simp: same_channel_def)
  qed
qed simp

text \<open>The worker leaves with every registered queue empty when it has to drain, whatever others do.\<close>

lemma worker_turn_leaves:
  assumes "worker_turn V e streak rn = Inr (Leave, rn')" "wait_for_drain rn'" "k \<in> set (consumers rn')"
    and "chan_rel (channels rn' k) cs"
  shows "total_len cs = 0"
proof -
  have "\<not> (shutdown_flag rn \<and> \<not> wait_for_drain rn)"
    using assms(1,2) by (auto simp: worker_turn_def Let_def split: if_splits)
  then obtain rn3 where "any_queues_pending rn3 = (False, rn')"
    using assms(1) by (auto simp: worker_turn_def Let_def split: if_splits prod.splits bool.splits)
  then obtain chs where "any_pending (consumers rn3) (channels rn3) = (False, chs)" "rn' = rn3\<lparr>channels := chs\<rparr>"
    by (auto simp: any_queues_pending_def split: prod.splits)
  then have "chan_available (channels rn' k) = (0, channels rn' k)"
    using any_pending_False assms(3) by auto
  then show ?thesis using available_zero(2) assms(4) by blast
qed

lemma run_worker_leaves:
  "run_worker V E i fuel streak rn = Some (Inr rn') \<Longrightarrow> wait_for_drain rn' \<Longrightarrow> k \<in> set (consumers rn') \<Longrightarrow>
   chan_rel (channels rn' k) cs \<Longrightarrow> total_len cs = 0"
proof (induction fuel arbitrary: i streak rn)
  case (Suc fuel)
  show ?case
  proof (cases "worker_turn V (E i) streak rn")
    case (Inr r)
    obtain t rn1 where r: "r = (t, rn1)" by fastforce
    show ?thesis
    proof (cases t)
      case Leave
      then show ?thesis using Suc.prems Inr r worker_turn_leaves by (metis (no_types, lifting) old.prod.case option.inject run_worker.simps(2) sum.case(2) sum.inject(2) turn.case(1))
    next
      case (Again s)
      then show ?thesis using Suc.prems Inr r Suc.IH by auto
    qed
  qed (use Suc.prems in simp)
qed simp


section \<open>Shutdown drains\<close>

text \<open>The order in which \<open>n\<close> passes take the records: up to 32 of each queue in turn.\<close>

fun rounds :: "nat \<Rightarrow> nat list \<Rightarrow> (nat \<Rightarrow> 'a list) \<Rightarrow> 'a list" where
  "rounds 0 ks rs = []"
| "rounds (Suc n) ks rs =
     concat (map (\<lambda>k. take max_batch (rs k)) ks) @ rounds n ks (\<lambda>k. drop max_batch (rs k))"

lemma concat_map_Nil [simp]: "concat (map (\<lambda>k. []) ks) = []"
  by (induction ks) auto

lemma concat_filter_empty:
  "\<forall>k\<in>set ks. \<not> P k \<longrightarrow> f k = [] \<Longrightarrow> concat (map f (filter P ks)) = concat (map f ks)"
  by (induction ks) auto

lemma rounds_filter:
  "\<forall>k\<in>set ks. \<not> P k \<longrightarrow> rs k = [] \<Longrightarrow> rounds n (filter P ks) rs = rounds n ks rs"
  by (induction n arbitrary: rs) (simp_all add: concat_filter_empty)

lemma rounds_empty: "\<forall>k\<in>set ks. rs k = [] \<Longrightarrow> rounds n ks rs = []"
  by (induction n arbitrary: rs) auto

text \<open>Each queue's records keep their order, and enough passes take them all.\<close>

lemma rounds_order:
  assumes "distinct ks" "k \<in> set ks" "\<forall>j. \<forall>x\<in>set (rs j). tag x = j"
  shows "filter (\<lambda>x. tag x = k) (rounds n ks rs) = take (max_batch * n) (rs k)"
  using assms(3)
proof (induction n arbitrary: rs)
  case (Suc n)
  have "filter (\<lambda>x. tag x = k) (concat (map (\<lambda>j. take max_batch (rs j)) ks')) =
      (if k \<in> set ks' then take max_batch (rs k) else [])" if "distinct ks'" for ks'
    using that
  proof (induction ks')
    case (Cons j js)
    have "filter (\<lambda>x. tag x = k) (take max_batch (rs j)) = (if j = k then take max_batch (rs j) else [])"
      using Suc.prems by (auto simp: filter_id_conv filter_empty_conv dest: in_set_takeD)
    then show ?case using Cons by auto
  qed simp
  moreover have "\<forall>j. \<forall>x\<in>set (drop max_batch (rs j)). tag x = j"
    using Suc.prems by (auto dest: in_set_dropD)
  ultimately show ?case using Suc.IH assms(1,2) by (simp add: take_add)
qed simp

lemma shutdown_turn:
  assumes "shutdown_flag rn" "wait_for_drain rn" "distinct (consumers rn)"
    and "holding V (consumers rn) (channels rn) cs rs"
  shows "\<exists>chs os P. (let rn' = rn\<lparr>consumers := filter P (consumers rn), channels := chs, outs := os\<rparr> in
       worker_turn V (quiet i) streak rn =
         Inr (if \<exists>k\<in>set (consumers rn). drop max_batch (cs k) \<noteq> [] then Again streak else Leave, rn')) \<and>
     (\<forall>k\<in>set (consumers rn). chan_rel (chs k) (drop max_batch (cs k)) \<and> same_channel (chs k) (channels rn k)) \<and>
     (\<forall>k. k \<notin> set (consumers rn) \<longrightarrow> chs k = channels rn k) \<and>
     (\<forall>k\<in>set (consumers rn). \<not> P k \<longrightarrow> drop max_batch (cs k) = []) \<and>
     deliver_all V (concat (map (\<lambda>k. take max_batch (rs k)) (consumers rn))) (outs rn) = Inr os"
proof -
  let ?ks = "consumers rn" and ?cs = "\<lambda>k. drop max_batch (cs k)"
  obtain chs1 os where d: "drain_all V ?ks False rn =
       Inr (False \<or> (\<exists>k\<in>set ?ks. cs k \<noteq> []), rn\<lparr>channels := chs1, outs := os\<rparr>)"
    "\<forall>k\<in>set ?ks. chan_rel (chs1 k) (?cs k) \<and> same_channel (chs1 k) (channels rn k)"
    "\<forall>k. k \<notin> set ?ks \<longrightarrow> chs1 k = channels rn k"
    "deliver_all V (concat (map (\<lambda>k. take max_batch (rs k)) ?ks)) (outs rn) = Inr os"
    using drain_all_spec [OF assms(3,4)] by blast
  let ?rn1 = "rn\<lparr>channels := chs1, outs := os\<rparr>"
  define P where "P = (\<lambda>k. ch_alive (chs1 k) \<or> 0 < total_len (?cs k))"
  have silent: "dead_silent (\<lambda>k chn. chn)" by (simp add: dead_silent_def)
  have "\<forall>k\<in>set (consumers ?rn1). \<not> ch_alive (channels ?rn1 k) \<longrightarrow> chan_rel (channels ?rn1 k) (?cs k)"
    using d(2) by simp
  from retire_spec [OF _ silent this] assms(3) obtain chs2 where r:
    "retire_dead_consumers (\<lambda>k chn. chn) ?rn1 = ?rn1\<lparr>consumers := filter P ?ks, channels := chs2\<rparr>"
    "\<forall>k\<in>set ?ks. \<not> ch_alive (chs1 k) \<longrightarrow> chan_rel (chs2 k) (?cs k) \<and> same_channel (chs2 k) (chs1 k)"
    "\<forall>k\<in>set ?ks. ch_alive (chs1 k) \<longrightarrow> chs2 k = chs1 k" "\<forall>k. k \<notin> set ?ks \<longrightarrow> chs2 k = chs1 k"
    by (auto simp: P_def)
  have rel2: "chan_rel (chs2 k) (?cs k) \<and> same_channel (chs2 k) (channels rn k)" if "k \<in> set ?ks" for k
    using that r(2,3) d(2) same_channel_trans by (cases "ch_alive (chs1 k)") auto
  have dec: "total_len (?cs k) = 0 \<longleftrightarrow> ?cs k = []" if "k \<in> set ?ks" for k
  proof -
    have "decodes V (?cs k) (drop max_batch (rs k))"
      using assms(4) that by (intro decodes_drop) (simp add: holding_def)
    then show ?thesis by (rule decodes_total)
  qed
  have "\<forall>k\<in>set (filter P ?ks). chan_rel (chs2 k) (?cs k)" using rel2 by simp
  from any_pending_total [OF this] assms(3) obtain chs3 where p:
    "any_pending (filter P ?ks) chs2 = ((\<exists>k\<in>set (filter P ?ks). 0 < total_len (?cs k)), chs3)"
    "\<forall>k\<in>set (filter P ?ks). chan_rel (chs3 k) (?cs k) \<and> same_channel (chs3 k) (chs2 k)"
    "\<forall>k. k \<notin> set (filter P ?ks) \<longrightarrow> chs3 k = chs2 k" by auto
  have out: "?cs k = []" if "k \<in> set ?ks" "\<not> P k" for k using that dec by (auto simp: P_def)
  have pend: "(\<exists>k\<in>set (filter P ?ks). 0 < total_len (?cs k)) \<longleftrightarrow> (\<exists>k\<in>set ?ks. ?cs k \<noteq> [])"
    using dec out by (auto simp: neq0_conv [symmetric] simp del: neq0_conv)
  have rel3: "chan_rel (chs3 k) (?cs k) \<and> same_channel (chs3 k) (channels rn k)" if "k \<in> set ?ks" for k
    using that p(2,3) rel2 [OF that] by (cases "P k") (auto simp: same_channel_def)
  have "worker_turn V (quiet i) streak rn =
      Inr (if \<exists>k\<in>set ?ks. ?cs k \<noteq> [] then Again streak else Leave,
        rn\<lparr>consumers := filter P ?ks, channels := chs3, outs := os\<rparr>)"
    using assms(1,2) d(1) r(1) p(1) unfolding pend
    by (simp add: worker_turn_def quiet_def Let_def any_queues_pending_def)
  moreover have "chs3 k = channels rn k" if "k \<notin> set ?ks" for k using that p(3) r(4) d(3) by simp
  ultimately show ?thesis
    unfolding Let_def using rel3 out d(4) by (intro exI [of _ chs3] exI [of _ os] exI [of _ P]) blast
qed

lemma run_drains:
  assumes "shutdown_flag rn" "wait_for_drain rn" "distinct (consumers rn)"
    and "holding V (consumers rn) (channels rn) cs rs"
    and "\<forall>k\<in>set (consumers rn). length (rs k) \<le> max_batch * n" "n < fuel"
  shows "\<exists>rn'. run_worker V quiet i fuel streak rn = Some (Inr rn') \<and>
     (\<forall>k\<in>set (consumers rn). chan_rel (channels rn' k) []) \<and>
     (\<forall>k. k \<notin> set (consumers rn) \<longrightarrow> channels rn' k = channels rn k) \<and>
     deliver_all V (rounds n (consumers rn) rs) (outs rn) = Inr (outs rn')"
  using assms
proof (induction n arbitrary: fuel i streak rn cs rs)
  case 0
  then have "\<forall>k\<in>set (consumers rn). cs k = [] \<and> rs k = []"
    by (auto simp: holding_def dest: decodes_length)
  moreover obtain fuel' where "fuel = Suc fuel'" using 0 by (cases fuel) auto
  ultimately show ?case
    using shutdown_turn [OF "0.prems"(1-4), of i streak]
    by (auto simp: Let_def concat_filter_empty cong: map_cong)
next
  case (Suc n)
  let ?ks = "consumers rn"
  obtain fuel' where fuel: "fuel = Suc fuel'" "n < fuel'" using Suc.prems(6) by (cases fuel) auto
  obtain chs os P where t: "worker_turn V (quiet i) streak rn =
       Inr (if \<exists>k\<in>set ?ks. drop max_batch (cs k) \<noteq> [] then Again streak else Leave,
         rn\<lparr>consumers := filter P ?ks, channels := chs, outs := os\<rparr>)"
    "\<forall>k\<in>set ?ks. chan_rel (chs k) (drop max_batch (cs k)) \<and> same_channel (chs k) (channels rn k)"
    "\<forall>k. k \<notin> set ?ks \<longrightarrow> chs k = channels rn k"
    "\<forall>k\<in>set ?ks. \<not> P k \<longrightarrow> drop max_batch (cs k) = []"
    "deliver_all V (concat (map (\<lambda>k. take max_batch (rs k)) ?ks)) (outs rn) = Inr os"
    using shutdown_turn [OF Suc.prems(1-4), of i streak] by (auto simp: Let_def)
  have dec: "\<forall>k\<in>set ?ks. decodes V (drop max_batch (cs k)) (drop max_batch (rs k))"
    using Suc.prems(4) by (auto simp: holding_def intro: decodes_drop)
  then have emp: "\<forall>k\<in>set ?ks. drop max_batch (cs k) = [] \<longleftrightarrow> drop max_batch (rs k) = []"
    by (metis decodes_length length_0_conv)
  let ?rn = "rn\<lparr>consumers := filter P ?ks, channels := chs, outs := os\<rparr>"
  show ?case
  proof (cases "\<exists>k\<in>set ?ks. drop max_batch (cs k) \<noteq> []")
    case False
    then have "rounds n ?ks (\<lambda>k. drop max_batch (rs k)) = []" using emp by (intro rounds_empty) blast
    then show ?thesis using False t(1-3,5) fuel by auto
  next
    case True
    have "holding V (consumers ?rn) (channels ?rn) (\<lambda>k. drop max_batch (cs k)) (\<lambda>k. drop max_batch (rs k))"
      using t(2) dec by (auto simp: holding_def)
    moreover have "\<forall>k\<in>set (consumers ?rn). length (drop max_batch (rs k)) \<le> max_batch * n"
      using Suc.prems(5) by auto
    moreover have "shutdown_flag ?rn" "wait_for_drain ?rn" "distinct (consumers ?rn)"
      using Suc.prems(1-3) by simp_all
    ultimately obtain rn' where ih: "run_worker V quiet (Suc i) fuel' streak ?rn = Some (Inr rn')"
      "\<forall>k\<in>set (consumers ?rn). chan_rel (channels rn' k) []"
      "deliver_all V (rounds n (consumers ?rn) (\<lambda>k. drop max_batch (rs k))) (outs ?rn) = Inr (outs rn')"
      "\<forall>k. k \<notin> set (consumers ?rn) \<longrightarrow> channels rn' k = channels ?rn k"
      using Suc.IH fuel(2) by blast
    have "chan_rel (channels rn' k) []" if "k \<in> set ?ks" for k
      using that ih(2,4) t(2,4) by (cases "P k") auto
    moreover have "channels rn' k = channels rn k" if "k \<notin> set ?ks" for k
      using that ih(4) t(3) by simp
    moreover
    have "rounds n (filter P ?ks) (\<lambda>k. drop max_batch (rs k)) = rounds n ?ks (\<lambda>k. drop max_batch (rs k))"
      using t(4) emp by (intro rounds_filter) blast
    ultimately show ?thesis
      using True t(1,5) ih(1,3) fuel(1) by (intro exI [of _ rn']) (simp add: deliver_all_append)
  qed
qed


section \<open>Panics and back-off\<close>

lemma fanout_loop_append:
  "\<not> fst (fanout_loop sks r os) \<Longrightarrow>
   fanout_loop (sks @ sks') r os = fanout_loop sks' r (snd (fanout_loop sks r os))"
  by (induction sks r os rule: fanout_loop.induct) (auto split: prod.splits sink_result.splits if_splits)

lemma panic_after:
  assumes "\<not> fst (fanout_loop a r os)" "sink_level sk \<le> md_level (lr_metadata r)"
    and "write_record sk r (sink_states (snd (fanout_loop a r os))) = (SinkPanic, st)"
  shows "fanout_loop (a @ sk # b) r os = (True, (snd (fanout_loop a r os))\<lparr>sink_states := st\<rparr>)"
  using assms by (simp add: fanout_loop_append leD)

text \<open>A run of \<open>n\<close> idle rounds.\<close>

fun idle_rounds :: "nat \<Rightarrow> u32 \<Rightarrow> 's runner \<Rightarrow> u32 \<times> 's runner" where
  "idle_rounds 0 streak rn = (streak, rn)"
| "idle_rounds (Suc n) streak rn = (let (streak', rn') = idle_round streak rn in idle_rounds n streak' rn')"

definition u32_max :: nat where
  "u32_max = 2 ^ 32 - 1"

lemma unat_max [simp]: "unat (- 1 :: u32) = u32_max"
  by (simp add: unsigned_minus_1_eq_mask mask_eq_exp_minus_1 u32_max_def)

lemma unat_saturating_inc: "unat (saturating_inc n) = min (Suc (unat n)) u32_max"
proof (cases "n = - 1")
  case True
  then show ?thesis by (simp add: saturating_inc_def)
next
  case False
  then have "unat n \<noteq> u32_max" by (metis unat_max word_unat_eq_iff)
  then have "unat n < u32_max" using unsigned_less [of n, where ?'a = nat] by (simp add: u32_max_def)
  moreover have "unat (n + 1) = Suc (unat n)" proof -
    have "1 + n \<noteq> 0" using False by (metis add.commute eq_neg_iff_add_eq_0)
    then show ?thesis using unatSuc [of n] by (metis add.commute)
  qed
  ultimately show ?thesis using False by (simp add: saturating_inc_def)
qed

text \<open>The action of the round in which the streak would reach \<open>s\<close>.\<close>

definition idle_action_at :: "'s runner \<Rightarrow> nat \<Rightarrow> idle_action" where
  "idle_action_at rn s =
     (if min s u32_max \<le> unat (idle_yield_rounds rn) then YieldNow else Sleep (idle_sleep rn))"

lemma idle_rounds_trace:
  "idle_trace (snd (idle_rounds n streak rn)) =
     idle_trace rn @ map (\<lambda>i. idle_action_at rn (Suc (unat streak + i))) [0..<n]"
proof (induction n arbitrary: streak rn)
  case (Suc n)
  let ?rn = "rn\<lparr>idle_trace := idle_trace rn @ [idle_action_at rn (Suc (unat streak))]\<rparr>"
  have one: "idle_round streak rn = (saturating_inc streak, ?rn)"
    by (simp add: idle_round_def Let_def word_le_nat_alt unat_saturating_inc idle_action_at_def)
  have "idle_action_at ?rn (Suc (unat (saturating_inc streak) + i)) = idle_action_at rn (Suc (unat streak + Suc i))" for i
    by (auto simp: idle_action_at_def unat_saturating_inc min_def)
  moreover have "[0..<Suc n] = 0 # map Suc [0..<n]" by (simp add: upt_conv_Cons map_Suc_upt del: upt_Suc)
  ultimately show ?case by (simp add: one Suc.IH comp_def del: upt_Suc)
qed simp


section \<open>Properties\<close>

text \<open>
  A small system for the witnesses: one call site, one logger, and a channel that holds one record
  without arguments.
\<close>

definition demo_env :: "unit env" where
  "demo_env =
     \<lparr>env_target = dev_build, env_decoders = (\<lambda>_. None),
      env_metadata = (\<lambda>p. if p = 64 then Some (lr_metadata demo_record) else None),
      env_loggers = (\<lambda>p. if p = 128 then Some (new_logger (lit ''main'') [null_sink Info] Info) else None)\<rparr>"

definition demo_chunk :: bytes where
  "demo_chunk = write_header dev_build (new_header 5 64 128 0)"

definition demo_raw :: raw_record where
  "demo_raw = \<lparr>raw_timestamp = 5, raw_logger = 128, raw_metadata = lr_metadata demo_record, raw_args = []\<rparr>"

definition demo_runner :: "channel \<Rightarrow> unit runner" where
  "demo_runner chn = (new_runner 2 100 True (\<lambda>_. chn) ())\<lparr>shutdown_flag := True, consumers := [0]\<rparr>"

lemma demo_chunk_record: "is_record dev_build demo_chunk"
  using read_write_header [of dev_build "new_header 5 64 128 0" "[]"]
  by (simp add: is_record_def demo_chunk_def)

lemma demo_chunk_decodes: "decode_closure demo_env demo_chunk = Inr (Some demo_raw)"
  using decode_record_encode [of "[]" dev_build "[]" "env_metadata demo_env" 64 "lr_metadata demo_record" "\<lambda>_. None" 5 128]
  by (simp add: decode_closure_def demo_env_def demo_chunk_def encode_args_def demo_raw_def)

lemma demo_decodes: "decodes demo_env [demo_chunk] [demo_raw]"
  using demo_chunk_record demo_chunk_decodes by (simp add: decodes_def demo_env_def demo_raw_def)

lemma demo_channel: "\<exists>chn. chan_rel chn [demo_chunk]"
proof -
  have "0 < unat (64 :: usize)" "unat (64 :: usize) \<le> 2 ^ 62" by simp_all
  from new_channel_ok [OF this, of dev_build] obtain chn where
    chn: "chan_rel chn []" "64 \<le> chan_capacity chn" by auto
  have len: "length demo_chunk = unat (32 :: usize)" by (simp add: demo_chunk_def header_size_def)
  show ?thesis using chan_write_spec [OF chn(1), of 32 "\<lambda>_. Inr demo_chunk" demo_chunk dev_build] chn(2) len
    by (auto split: if_splits)
qed

text \<open>Reading one record hands out exactly what decoding the oldest chunk yields and removes that
  chunk whole. An undecodable record is removed as well and reported as no record at all: it is lost
  without any trace. Only a fault of the decoding (a panicking decoder, a bad pointer) passes on.\<close>

lemma read_one_takes_one_chunk:
  assumes "chan_rel chn (chunk # ds)" "is_record (env_target V) chunk"
  shows "\<exists>chn'. chan_rel chn' ds \<and>
     try_read_one V chn = rbind (decode_closure V chunk) (\<lambda>r. Inr (r, chn'))"
  using try_read_one_spec [OF assms] by blast

text \<open>Second filter: a record reaches exactly the sinks whose level accepts it. Dispatch to a list of
  sinks is dispatch to the sublist with levels at most the record's, in order.\<close>

lemma dispatch_respects_sink_levels:
  "fanout_to_sinks lg r os =
   fanout_to_sinks (lg\<lparr>logger_sinks := filter (\<lambda>sk. sink_level sk \<le> md_level (lr_metadata r)) (logger_sinks lg)\<rparr>) r os"
  using fanout_loop_filter [of "logger_sinks lg" r os] by (simp add: fanout_to_sinks_def)

text \<open>C13. A sink that panics is contained: the sinks before it have had the record, those after it do not
  get it, the panic is counted once and reported, and processing the record returns normally.\<close>

theorem panicking_sink_contained:
  assumes "env_loggers V (raw_logger raw) = Some lg" "logger_sinks lg = a @ sk # b"
    and "sink_level sk \<le> md_level (raw_metadata raw)"
    and "fanout_loop a (log_record_of lg raw) os = (False, os1)"
    and "write_record sk (log_record_of lg raw) (sink_states os1) = (SinkPanic, st)"
  shows "process_record V raw os = Inr (os1\<lparr>sink_states := st, panic_count := panic_count os1 + 1,
     stderr := stderr os1 @ [lit ''insomnilog: a sink panicked during write_record'']\<rparr>)"
proof -
  have "fanout_loop (logger_sinks lg) (log_record_of lg raw) os = (True, os1\<lparr>sink_states := st\<rparr>)"
    unfolding assms(2)
    using panic_after [of a "log_record_of lg raw" os sk st b] assms(3-5) by (simp add: log_record_of_def)
  then show ?thesis by (simp add: process_record_total [OF assms(1)] fanout_to_sinks_def)
qed

definition panic_sink :: "nat sink" where
  "panic_sink = \<lparr>sink_level = Trace, write_record = (\<lambda>r n. (SinkPanic, n)), sink_flush = (\<lambda>n. (SinkOk, n))\<rparr>"

definition count_sink :: "nat sink" where
  "count_sink = \<lparr>sink_level = Trace, write_record = (\<lambda>r n. (SinkOk, Suc n)), sink_flush = (\<lambda>n. (SinkOk, n))\<rparr>"

definition panic_env :: "nat env" where
  "panic_env = \<lparr>env_target = dev_build, env_decoders = (\<lambda>_. None), env_metadata = (\<lambda>_. None),
     env_loggers = (\<lambda>_. Some (new_logger [] [count_sink, panic_sink, count_sink] Info))\<rparr>"

theorem panicking_sink_contained_witness:
  "\<exists>os'. process_record panic_env demo_raw
       \<lparr>write_errors = 0, flush_errors = 0, panic_count = 0, stderr = [], sink_states = 0\<rparr> = Inr os' \<and>
     sink_states os' = 1 \<and> panic_count os' = 1"
proof -
  let ?os = "\<lparr>write_errors = 0, flush_errors = 0, panic_count = 0, stderr = [], sink_states = 0 :: nat\<rparr>"
  let ?lg = "new_logger [] [count_sink, panic_sink, count_sink] Info :: nat logger"
  have low: "\<not> md_level m < Trace" "Trace \<le> md_level m" for m
    by (cases "md_level m"; simp add: less_log_level_def less_eq_log_level_def)+
  have "process_record panic_env demo_raw ?os = Inr (?os\<lparr>sink_states := 1, sink_states := 1, panic_count := 0 + 1,
     stderr := [] @ [lit ''insomnilog: a sink panicked during write_record'']\<rparr>)"
    using panicking_sink_contained [of panic_env demo_raw ?lg "[count_sink]" panic_sink "[count_sink]" ?os
        "?os\<lparr>sink_states := 1\<rparr>" 1]
    by (simp add: panic_env_def new_logger_def count_sink_def panic_sink_def low)
  then show ?thesis by simp
qed

text \<open>C14. Retirement forgets a queue only if its thread has ended and nothing is left in it: every
  consumer that is not kept was dead with no unread byte, although its thread may act between the load
  of the liveness flag and the look at the queue (a dropped producer writes no more).\<close>

theorem retirement_loses_nothing:
  assumes "distinct (consumers rn)" "dead_silent h"
    and "\<forall>k\<in>set (consumers rn). chan_rel (channels rn k) (cs k)"
  shows "consumers (retire_dead_consumers h rn) =
     filter (\<lambda>k. ch_alive (channels rn k) \<or> 0 < total_len (cs k)) (consumers rn) \<and>
     (\<forall>k\<in>set (consumers rn). \<not> ch_alive (channels rn k) \<longrightarrow>
        chan_rel (channels (retire_dead_consumers h rn) k) (cs k))"
  using retire_spec [OF assms(1,2), of cs] assms(3) by auto

theorem retirement_loses_nothing_witness:
  "\<exists>chn. consumers (retire_dead_consumers (\<lambda>k c. c) (demo_runner (drop_producer chn))) = [0]"
proof -
  obtain chn where chn: "chan_rel chn [demo_chunk]" using demo_channel by blast
  have "dead_silent (\<lambda>k c. c)" by (simp add: dead_silent_def)
  from retirement_loses_nothing [OF _ this, of "demo_runner (drop_producer chn)" "\<lambda>_. [demo_chunk]"] chn
  show ?thesis by (intro exI [of _ chn]) (simp add: demo_runner_def new_runner_def demo_chunk_def header_size_def)
qed


definition late_thread :: "channel \<Rightarrow> nat \<Rightarrow> unit others" where
  "late_thread chn = (\<lambda>_. \<lparr>before_drain = (\<lambda>rn. rn), between_loads = (\<lambda>k c. c),
     before_check = (\<lambda>rn. rn\<lparr>consumers := [0], channels := (\<lambda>_. chn)\<rparr>)\<rparr>)"




text \<open>Back-off: in a run of idle rounds the worker yields as long as the streak is within the configured
  rounds and sleeps after that; the streak saturates, so a worker that has begun to sleep never goes back
  to spinning by wrap-around.\<close>

lemma idle_backoff:
  "idle_trace (snd (idle_rounds n 0 rn)) =
     idle_trace rn @ map (\<lambda>i. if min (Suc i) u32_max \<le> unat (idle_yield_rounds rn) then YieldNow
                             else Sleep (idle_sleep rn)) [0..<n]"
  by (simp add: idle_rounds_trace idle_action_at_def)

end
