(* ===== verification/Backend.thy ===== *)
theory Backend
  imports Backend_Runner
begin

text \<open>
  \<open>backend.rs\<close>: the process-wide backend. It owns the registries of sinks and loggers, the state it
  shares with the worker, and the worker's join handle. Each operation on a registry holds its lock
  from the lookup to the insertion, so operations of different threads are atomic and a concurrent
  run is a sequence of them.
\<close>

section \<open>State\<close>

record backend_options =
  opt_thread_name :: ustr
  opt_queue_capacity :: usize
  opt_idle_yield_rounds :: u32
  opt_idle_sleep :: nat
  opt_wait_for_queues_to_empty :: bool

text \<open>\<open>Default for BackendOptions\<close>; durations in microseconds.\<close>

definition default_options :: backend_options where
  "default_options =
     \<lparr>opt_thread_name = lit ''insomnilog-backend'', opt_queue_capacity = 128 * 1024,
      opt_idle_yield_rounds = 32, opt_idle_sleep = 100, opt_wait_for_queues_to_empty = True\<rparr>"

text \<open>
  An \<open>Arc<Logger>\<close> is the address of a logger in \<open>be_heap\<close>. Channels are numbered in the order
  they are created; \<open>be_next\<close> is the next number. \<open>be_worker\<close> says that the join handle is there.
\<close>

record 's backend =
  be_options :: backend_options
  be_sinks :: "ustr \<Rightarrow> 's sink option"
  be_loggers :: "ustr \<Rightarrow> usize option"
  be_heap :: "usize \<Rightarrow> 's logger option"
  be_runner :: "'s runner"
  be_next :: nat
  be_worker :: bool
  be_worker_thread_id :: nat

datatype ('e, 'r) registered = AlreadyRegistered 'e | Registered 'r

text \<open>\<open>Display\<close> of the two errors.\<close>

definition display_logger_already :: ustr where
  "display_logger_already = lit ''a logger with this name is already registered''"

definition display_sink_already :: ustr where
  "display_sink_already = lit ''a sink with this name is already registered''"


section \<open>Operations\<close>

text \<open>
  \<open>Backend::start\<close>. Spawning is the operating system's: \<open>spawned\<close> is the id of the new thread, or
  \<open>None\<close> if there is none and the \<open>expect\<close> panics. The sinks' initial state is \<open>st\<close>; the channels
  that do not exist yet are arbitrary.
\<close>

definition backend_start :: "backend_options \<Rightarrow> nat option \<Rightarrow> (nat \<Rightarrow> channel) \<Rightarrow> 's \<Rightarrow> fault + 's backend" where
  "backend_start opts spawned chs st =
     (case spawned of
        None \<Rightarrow> Inl PanicExpect
      | Some tid \<Rightarrow> Inr
          \<lparr>be_options = opts, be_sinks = (\<lambda>_. None), be_loggers = (\<lambda>_. None), be_heap = (\<lambda>_. None),
           be_runner = new_runner (opt_idle_yield_rounds opts) (opt_idle_sleep opts)
             (opt_wait_for_queues_to_empty opts) chs st,
           be_next = 0, be_worker = True, be_worker_thread_id = tid\<rparr>)"

definition get_sink :: "'s backend \<Rightarrow> ustr \<Rightarrow> 's sink option" where
  "get_sink be name = be_sinks be name"

definition register_sink :: "ustr \<Rightarrow> 's sink \<Rightarrow> 's backend \<Rightarrow> ('s sink, unit) registered \<times> 's backend" where
  "register_sink name sk be =
     (case be_sinks be name of
        Some existing \<Rightarrow> (AlreadyRegistered existing, be)
      | None \<Rightarrow> (Registered (), be\<lparr>be_sinks := (be_sinks be)(name \<mapsto> sk)\<rparr>))"

definition get_logger :: "'s backend \<Rightarrow> ustr \<Rightarrow> usize option" where
  "get_logger be name = be_loggers be name"

text \<open>\<open>create_logger\<close>; \<open>a\<close> is where \<open>Arc::new\<close> puts the logger.\<close>

definition create_logger :: "ustr \<Rightarrow> usize \<times> 's sink list \<times> log_level \<Rightarrow> 's backend \<Rightarrow>
    (usize, usize) registered \<times> 's backend" where
  "create_logger name x be =
     (case be_loggers be name of
        Some existing \<Rightarrow> (AlreadyRegistered existing, be)
      | None \<Rightarrow>
          (let (a, sinks, level) = x
           in (Registered a,
               be\<lparr>be_loggers := (be_loggers be)(name \<mapsto> a),
                  be_heap := (be_heap be)(a \<mapsto> new_logger name sinks level)\<rparr>)))"

text \<open>\<open>Logger::set_level\<close> through an \<open>Arc<Logger>\<close>.\<close>

definition set_logger_level :: "usize \<Rightarrow> log_level \<Rightarrow> 's backend \<Rightarrow> 's backend" where
  "set_logger_level a level be = be\<lparr>be_heap := (be_heap be)(a := map_option (set_level level) (be_heap be a))\<rparr>"

definition increment_dropped_records :: "'s backend \<Rightarrow> 's backend" where
  "increment_dropped_records be =
     be\<lparr>be_runner := (be_runner be)\<lparr>dropped_records := dropped_records (be_runner be) + 1\<rparr>\<rparr>"

text \<open>\<open>create_producer\<close>, called on thread \<open>t\<close>; the result names the new channel.\<close>

definition create_producer :: "target \<Rightarrow> nat \<Rightarrow> 's backend \<Rightarrow> fault + nat \<times> 's backend" where
  "create_producer T t be =
     (if t = be_worker_thread_id be then Inl PanicReentrant
      else rbind (new_channel T (opt_queue_capacity (be_options be))) (\<lambda>chn.
        let k = be_next be; rn = be_runner be
        in Inr (k, be\<lparr>be_runner := rn\<lparr>consumers := consumers rn @ [k], channels := (channels rn)(k := chn)\<rparr>,
                      be_next := Suc k\<rparr>)))"

text \<open>The two summaries of \<open>shutdown\<close>; 8212 is the dash of the message.\<close>

definition sink_error_summary :: "'s outputs \<Rightarrow> ustr" where
  "sink_error_summary os =
     lit ''insomnilog: sink errors at shutdown '' @ [8212] @ lit '' write_record: '' @
     show_nat (unat (write_errors os)) @ lit '', flush: '' @ show_nat (unat (flush_errors os)) @
     lit '', panics: '' @ show_nat (unat (panic_count os))"

definition dropped_summary :: "u64 \<Rightarrow> ustr" where
  "dropped_summary n =
     lit ''insomnilog: '' @ show_nat (unat n) @
     lit '' log record(s) dropped at shutdown (queue full or oversized)''"

definition summary_lines :: "'s runner \<Rightarrow> ustr list" where
  "summary_lines rn =
     (if 0 < write_errors (outs rn) \<or> 0 < flush_errors (outs rn) \<or> 0 < panic_count (outs rn)
      then [sink_error_summary (outs rn)] else []) @
     (if 0 < dropped_records rn then [dropped_summary (dropped_records rn)] else [])"

definition print_summary :: "'s runner \<Rightarrow> 's runner" where
  "print_summary rn = rn\<lparr>outs := (outs rn)\<lparr>stderr := stderr (outs rn) @ summary_lines rn\<rparr>\<rparr>"

text \<open>What the records of this backend's queues point to.\<close>

definition env_of :: "target \<Rightarrow> decoder_mem \<Rightarrow> metadata_mem \<Rightarrow> 's backend \<Rightarrow> 's env" where
  "env_of T D M be = \<lparr>env_target = T, env_decoders = D, env_metadata = M, env_loggers = be_heap be\<rparr>"

text \<open>
  Joining the worker is the rest of its loop, with \<open>fuel\<close> turns; \<open>None\<close> when it has not ended by
  then, so that the join still blocks. A worker that panics is contained by the ignored result of
  the join; \<open>unwound\<close> is the state such a worker leaves, which the model of the loop does not say.
\<close>

definition join_worker :: "'s env \<Rightarrow> (nat \<Rightarrow> 's others) \<Rightarrow> nat \<Rightarrow> (fault \<Rightarrow> 's runner) \<Rightarrow> 's runner \<Rightarrow>
    (fault + 's runner) option" where
  "join_worker V E fuel unwound rn =
     (case run_worker V E 0 fuel 0 rn of
        None \<Rightarrow> None
      | Some (Inr rn') \<Rightarrow> Some (Inr rn')
      | Some (Inl f) \<Rightarrow>
          Some (if f = UbOutOfBounds \<or> f = UbDangling then Inl f else Inr (unwound f)))"

definition backend_shutdown :: "'s env \<Rightarrow> (nat \<Rightarrow> 's others) \<Rightarrow> nat \<Rightarrow> (fault \<Rightarrow> 's runner) \<Rightarrow> 's backend \<Rightarrow>
    (fault + 's backend) option" where
  "backend_shutdown V E fuel unwound be =
     (let rn = (be_runner be)\<lparr>shutdown_flag := True\<rparr>
      in if be_worker be
         then map_option (\<lambda>res. rbind res (\<lambda>rn'. Inr (be\<lparr>be_worker := False, be_runner := print_summary rn'\<rparr>)))
                (join_worker V E fuel unwound rn)
         else Some (Inr (be\<lparr>be_runner := print_summary rn\<rparr>)))"


section \<open>Registries: the first registration of a name wins\<close>

text \<open>
  The contract shared by the registry of sinks and that of loggers: a taken name is refused with what
  is there and changes nothing; a free name is taken, and no other name changes.
\<close>

locale named_registry =
  fixes find_name :: "'b \<Rightarrow> ustr \<Rightarrow> 'v option"
    and register :: "ustr \<Rightarrow> 'x \<Rightarrow> 'b \<Rightarrow> ('v, 'r) registered \<times> 'b"
    and entry :: "'x \<Rightarrow> 'v"
    and reply :: "'x \<Rightarrow> 'r"
  assumes taken: "find_name b n = Some v \<Longrightarrow> register n x b = (AlreadyRegistered v, b)"
    and free: "find_name b n = None \<Longrightarrow>
      \<exists>b'. register n x b = (Registered (reply x), b') \<and> find_name b' = (find_name b)(n \<mapsto> entry x)"
begin

text \<open>A sequence of registrations: its answers and the registry after it.\<close>

fun run_calls :: "(ustr \<times> 'x) list \<Rightarrow> 'b \<Rightarrow> ('v, 'r) registered list \<times> 'b" where
  "run_calls [] b = ([], b)"
| "run_calls ((n, x) # calls) b =
     (let (r, b') = register n x b; (rs, b'') = run_calls calls b' in (r # rs, b''))"

lemma run_holds:
  "find_name (snd (run_calls calls b)) n =
     (case find_name b n of
        Some v \<Rightarrow> Some v
      | None \<Rightarrow> map_option (\<lambda>c. entry (snd c)) (find (\<lambda>c. fst c = n) calls))"
proof (induction calls arbitrary: b)
  case Nil
  then show ?case by (simp split: option.split)
next
  case (Cons c calls)
  obtain m x where c: "c = (m, x)" by fastforce
  show ?case
  proof (cases "find_name b m")
    case None
    then obtain b' where "register m x b = (Registered (reply x), b')"
      "find_name b' = (find_name b)(m \<mapsto> entry x)" using free by blast
    then show ?thesis using Cons.IH [of b'] None by (auto simp: c split: prod.splits option.splits)
  next
    case (Some v)
    then have "register m x b = (AlreadyRegistered v, b)" by (rule taken)
    then show ?thesis using Cons.IH [of b] Some by (auto simp: c split: prod.splits option.splits)
  qed
qed

text \<open>A contested name: whoever comes first wins, and all others are told the winner.\<close>

lemma contested:
  assumes "find_name b n = None"
  shows "fst (run_calls (map (Pair n) (x # xs)) b) =
      Registered (reply x) # replicate (length xs) (AlreadyRegistered (entry x)) \<and>
    find_name (snd (run_calls (map (Pair n) (x # xs)) b)) = (find_name b)(n \<mapsto> entry x)"
proof -
  have losers: "run_calls (map (Pair n) xs) b' = (replicate (length xs) (AlreadyRegistered v), b')"
    if "find_name b' n = Some v" for b' v
    using that by (induction xs) (simp_all add: taken)
  obtain b' where "register n x b = (Registered (reply x), b')"
    "find_name b' = (find_name b)(n \<mapsto> entry x)" using free [OF assms] by blast
  then show ?thesis using losers [of b' "entry x"] by simp
qed

end

interpretation sink_reg: named_registry get_sink register_sink "\<lambda>sk. sk" "\<lambda>sk. ()"
  by unfold_locales (auto simp: get_sink_def register_sink_def)

interpretation logger_reg: named_registry get_logger create_logger fst fst
  by unfold_locales (auto simp: get_logger_def create_logger_def split: prod.splits)

fun register_sinks :: "(ustr \<times> 's sink) list \<Rightarrow> 's backend \<Rightarrow> ('s sink, unit) registered list \<times> 's backend" where
  "register_sinks [] be = ([], be)"
| "register_sinks ((n, sk) # calls) be =
     (let (r, be') = register_sink n sk be; (rs, be'') = register_sinks calls be' in (r # rs, be''))"

fun create_loggers :: "(ustr \<times> usize \<times> 's sink list \<times> log_level) list \<Rightarrow> 's backend \<Rightarrow>
    (usize, usize) registered list \<times> 's backend" where
  "create_loggers [] be = ([], be)"
| "create_loggers ((n, x) # calls) be =
     (let (r, be') = create_logger n x be; (rs, be'') = create_loggers calls be' in (r # rs, be''))"

lemma register_sinks_run: "register_sinks calls be = sink_reg.run_calls calls be"
  by (induction calls arbitrary: be) auto

lemma create_loggers_run: "create_loggers calls be = logger_reg.run_calls calls be"
  by (induction calls arbitrary: be) auto

text \<open>Every registered name leads to a logger of that name.\<close>

definition registry_sound :: "'s backend \<Rightarrow> bool" where
  "registry_sound be \<longleftrightarrow>
     (\<forall>n a. be_loggers be n = Some a \<longrightarrow> (\<exists>lg. be_heap be a = Some lg \<and> logger_name lg = n))"

lemma registry_sound_start: "backend_start opts spawned chs st = Inr be \<Longrightarrow> registry_sound be"
  by (auto simp: backend_start_def registry_sound_def split: option.splits)

lemma registry_sound_create:
  "registry_sound be \<Longrightarrow> be_heap be a = None \<Longrightarrow>
   registry_sound (snd (create_logger name (a, sinks, level) be))"
  by (auto simp: registry_sound_def create_logger_def new_logger_def split: option.splits)
    (metis option.distinct(1))

lemma registry_sound_level [simp]: "registry_sound (set_logger_level a level be) = registry_sound be"
  by (auto simp: registry_sound_def set_logger_level_def) (metis set_level_fixed(1))+


section \<open>Shutdown\<close>

lemma shutdown_joined:
  assumes "\<not> be_worker be"
  shows "backend_shutdown V E fuel unwound be =
     Some (Inr (be\<lparr>be_runner := print_summary ((be_runner be)\<lparr>shutdown_flag := True\<rparr>)\<rparr>))"
  using assms by (simp add: backend_shutdown_def)

lemma summary_lines_stable [simp]:
  "summary_lines (print_summary rn) = summary_lines rn"
  "summary_lines (rn\<lparr>shutdown_flag := b\<rparr>) = summary_lines rn"
  by (simp_all add: print_summary_def summary_lines_def sink_error_summary_def)


section \<open>Properties\<close>

text \<open>Whatever names the callers of \<open>register_sink\<close> ask for and in whatever order the lock serves
  them, a name holds the sink it held before, or else the first one registered under it; nothing is
  ever replaced or removed.\<close>

lemma sink_registry_first_wins:
  "get_sink (snd (register_sinks calls be)) n =
     (case get_sink be n of
        Some sk \<Rightarrow> Some sk
      | None \<Rightarrow> map_option snd (find (\<lambda>c. fst c = n) calls))"
  unfolding register_sinks_run by (rule sink_reg.run_holds)

text \<open>When several threads create a logger under one free name, exactly one succeeds and gets the
  new logger; every other one is refused and handed that logger, and no other name is touched.\<close>

lemma contested_logger_one_winner:
  assumes "get_logger be n = None"
  shows "fst (create_loggers (map (Pair n) ((a, sinks, level) # xs)) be) =
      Registered a # replicate (length xs) (AlreadyRegistered a) \<and>
    get_logger (snd (create_loggers (map (Pair n) ((a, sinks, level) # xs)) be)) = (get_logger be)(n \<mapsto> a)"
  unfolding create_loggers_run using logger_reg.contested [OF assms, of "(a, sinks, level)" xs]
  by (simp del: logger_reg.run_calls.simps)

definition demo_backend :: "unit backend" where
  "demo_backend =
     \<lparr>be_options = default_options, be_sinks = (\<lambda>_. None), be_loggers = (\<lambda>_. None), be_heap = (\<lambda>_. None),
      be_runner = new_runner 32 100 True undefined (), be_next = 0, be_worker = True, be_worker_thread_id = 7\<rparr>"



text \<open>A new producer is a fresh, empty queue of at least the configured size, alive and registered
  behind all others; none of the existing queues changes. On the worker's own thread it panics.\<close>

lemma producer_gets_own_queue:
  assumes "0 < unat (opt_queue_capacity (be_options be))" "unat (opt_queue_capacity (be_options be)) \<le> 2 ^ 62"
  shows "if t = be_worker_thread_id be then create_producer T t be = Inl PanicReentrant
     else \<exists>chn. create_producer T t be = Inr (be_next be, be
            \<lparr>be_runner := (be_runner be)\<lparr>consumers := consumers (be_runner be) @ [be_next be],
               channels := (channels (be_runner be))(be_next be := chn)\<rparr>, be_next := Suc (be_next be)\<rparr>) \<and>
          chan_rel chn [] \<and> ch_alive chn \<and> unat (opt_queue_capacity (be_options be)) \<le> chan_capacity chn"
proof (cases "t = be_worker_thread_id be")
  case False
  from new_channel_ok [OF assms, of T] obtain chn where
    "new_channel T (opt_queue_capacity (be_options be)) = Inr chn" "chan_rel chn []" "ch_alive chn"
    "unat (opt_queue_capacity (be_options be)) \<le> chan_capacity chn" by auto
  then show ?thesis using False by (auto simp: create_producer_def Let_def)
qed (simp add: create_producer_def)

text \<open>Shutting down again: after one shutdown has returned there is no worker left to join, so a second
  call never blocks and changes no counter, registry or queue. It does print the summary once more,
  word for word: the lines that ended the error stream are appended to it again.\<close>

lemma second_shutdown_only_reprints:
  assumes "backend_shutdown V E fuel unwound be = Some (Inr be')"
  shows "(\<exists>pre. stderr (outs (be_runner be')) = pre @ summary_lines (be_runner be')) \<and>
    backend_shutdown V' E' fuel' unwound' be' = Some (Inr (be'
      \<lparr>be_runner := (be_runner be')\<lparr>shutdown_flag := True,
         outs := (outs (be_runner be'))\<lparr>stderr := stderr (outs (be_runner be')) @ summary_lines (be_runner be')\<rparr>\<rparr>\<rparr>))"
proof -
  obtain rn where rn: "be_runner be' = print_summary rn" "\<not> be_worker be'"
    using assms by (auto simp: backend_shutdown_def Let_def split: if_splits)
  have "stderr (outs (be_runner be')) = stderr (outs rn) @ summary_lines (be_runner be')"
    unfolding rn(1) summary_lines_stable by (simp add: print_summary_def)
  then show ?thesis using shutdown_joined [OF rn(2), of V' E' fuel' unwound']
    by (auto simp: print_summary_def [of "(be_runner be')\<lparr>shutdown_flag := True\<rparr>"])
qed

end
