(* ===== verification/Lifecycle.thy ===== *)
theory Lifecycle
  imports Backend
begin

text \<open>
  \<open>lifecycle.rs\<close>: the process-wide state. \<open>started\<close> is the latch \<open>STARTED\<close>, \<open>the_backend\<close> the cell
  \<open>BACKEND\<close>; the thread-local producer slots of \<open>frontend.rs\<close> and the clock are here too, and
  \<open>user\<close> is the state of the program that logs. Every function of the API is an action on this world.
\<close>

section \<open>State\<close>

record tl_slot =
  slot_producer :: "nat option"
  slot_borrowed :: bool

record ('s, 'p) world =
  started :: bool
  the_backend :: "'s backend option"
  tls :: "nat \<Rightarrow> tl_slot"
  clock :: int
  user :: 'p

datatype start_result = AlreadyStarted | ShutdownGuard


section \<open>Operations\<close>

text \<open>
  \<open>start\<close> in its two atomic parts: the compare-and-exchange on the latch, and the setting of the
  cell, in between of which the worker is spawned.
\<close>

definition start_latch :: "(('s, 'p) world, bool) act" where
  "start_latch = (\<lambda>w. (Inr (\<not> started w), w\<lparr>started := True\<rparr>))"

definition start_publish :: "'s backend \<Rightarrow> (('s, 'p) world, start_result) act" where
  "start_publish be = (\<lambda>w.
     case the_backend w of
       Some _ \<Rightarrow> (Inl PanicUnreachable, w)
     | None \<Rightarrow> (Inr ShutdownGuard, w\<lparr>the_backend := Some be\<rparr>))"

definition start :: "backend_options \<Rightarrow> nat option \<Rightarrow> (nat \<Rightarrow> channel) \<Rightarrow> 's \<Rightarrow> (('s, 'p) world, start_result) act" where
  "start opts spawned chs st =
     bind_act start_latch (\<lambda>won.
       if won then bind_act (lift_act (backend_start opts spawned chs st)) start_publish
       else ret_act AlreadyStarted)"

definition get_backend :: "(('s, 'p) world, 's backend) act" where
  "get_backend = (\<lambda>w. (case the_backend w of None \<Rightarrow> Inl PanicNotStarted | Some be \<Rightarrow> Inr be, w))"

text \<open>An operation of the backend on the process-wide one.\<close>

definition on_backend :: "('s backend \<Rightarrow> 'a \<times> 's backend) \<Rightarrow> (('s, 'p) world, 'a) act" where
  "on_backend f = bind_act get_backend (\<lambda>be.
     let (r, be') = f be in (\<lambda>w. (Inr r, w\<lparr>the_backend := Some be'\<rparr>)))"

definition lc_get_sink :: "ustr \<Rightarrow> (('s, 'p) world, 's sink option) act" where
  "lc_get_sink name = on_backend (\<lambda>be. (get_sink be name, be))"

definition lc_register_sink :: "ustr \<Rightarrow> 's sink \<Rightarrow> (('s, 'p) world, ('s sink, unit) registered) act" where
  "lc_register_sink name sk = on_backend (register_sink name sk)"

definition lc_get_logger :: "ustr \<Rightarrow> (('s, 'p) world, usize option) act" where
  "lc_get_logger name = on_backend (\<lambda>be. (get_logger be name, be))"

definition lc_create_logger :: "ustr \<Rightarrow> usize \<Rightarrow> 's sink list \<Rightarrow> log_level \<Rightarrow>
    (('s, 'p) world, (usize, usize) registered) act" where
  "lc_create_logger name a sinks level = on_backend (create_logger name (a, sinks, level))"

text \<open>\<open>shutdown\<close>: \<open>None\<close> while the join blocks. A no-op before \<open>start\<close>. The guard's drop calls it.\<close>

definition shutdown :: "target \<Rightarrow> decoder_mem \<Rightarrow> metadata_mem \<Rightarrow> (nat \<Rightarrow> 's others) \<Rightarrow> nat \<Rightarrow> (fault \<Rightarrow> 's runner) \<Rightarrow>
    ('s, 'p) world \<Rightarrow> ((fault + unit) \<times> ('s, 'p) world) option" where
  "shutdown T D M E fuel unwound w =
     (case the_backend w of
        None \<Rightarrow> Some (Inr (), w)
      | Some be \<Rightarrow> map_option
          (\<lambda>res. case res of Inl f \<Rightarrow> (Inl f, w) | Inr be' \<Rightarrow> (Inr (), w\<lparr>the_backend := Some be'\<rparr>))
          (backend_shutdown (env_of T D M be) E fuel unwound be))"

definition drop_guard :: "target \<Rightarrow> decoder_mem \<Rightarrow> metadata_mem \<Rightarrow> (nat \<Rightarrow> 's others) \<Rightarrow> nat \<Rightarrow> (fault \<Rightarrow> 's runner) \<Rightarrow>
    ('s, 'p) world \<Rightarrow> ((fault + unit) \<times> ('s, 'p) world) option" where
  "drop_guard = shutdown"


section \<open>Concurrent calls of start\<close>

text \<open>Where a call of \<open>start\<close> stands; calls are numbered and each carries what it will spawn.\<close>

datatype call_state = Calling | Latched | Returned start_result | Panicked fault

text \<open>
  One step: a call passes the latch, or fails to; or, having passed it, it fails to spawn, or
  publishes its backend. \<open>spawn c\<close> is what \<open>Backend::start\<close> gives in call \<open>c\<close>.
\<close>

inductive start_step :: "(nat \<Rightarrow> fault + 's backend) \<Rightarrow> ('s, 'p) world \<times> (nat \<Rightarrow> call_state) \<Rightarrow>
    ('s, 'p) world \<times> (nat \<Rightarrow> call_state) \<Rightarrow> bool" for spawn where
  latch_won: "pc c = Calling \<Longrightarrow> start_latch w = (Inr True, w') \<Longrightarrow> start_step spawn (w, pc) (w', pc(c := Latched))"
| latch_lost: "pc c = Calling \<Longrightarrow> start_latch w = (Inr False, w') \<Longrightarrow>
    start_step spawn (w, pc) (w', pc(c := Returned AlreadyStarted))"
| spawn_failed: "pc c = Latched \<Longrightarrow> spawn c = Inl f \<Longrightarrow> start_step spawn (w, pc) (w, pc(c := Panicked f))"
| published: "pc c = Latched \<Longrightarrow> spawn c = Inr be \<Longrightarrow> start_publish be w = (Inr r, w') \<Longrightarrow>
    start_step spawn (w, pc) (w', pc(c := Returned r))"
| publish_panic: "pc c = Latched \<Longrightarrow> spawn c = Inr be \<Longrightarrow> start_publish be w = (Inl f, w') \<Longrightarrow>
    start_step spawn (w, pc) (w', pc(c := Panicked f))"

inductive start_reach :: "(nat \<Rightarrow> fault + 's backend) \<Rightarrow> ('s, 'p) world \<Rightarrow>
    ('s, 'p) world \<times> (nat \<Rightarrow> call_state) \<Rightarrow> bool" for spawn w0 where
  start_init: "start_reach spawn w0 (w0, \<lambda>_. Calling)"
| start_more: "start_reach spawn w0 s \<Longrightarrow> start_step spawn s s' \<Longrightarrow> start_reach spawn w0 s'"

text \<open>The call that passed the latch, if any, is the only one past it.\<close>

definition past :: "call_state \<Rightarrow> bool" where
  "past s \<longleftrightarrow> s = Latched \<or> s = Returned ShutdownGuard \<or> (\<exists>f. s = Panicked f)"

definition start_inv :: "(nat \<Rightarrow> fault + 's backend) \<Rightarrow> ('s, 'p) world \<times> (nat \<Rightarrow> call_state) \<Rightarrow> bool" where
  "start_inv spawn s \<longleftrightarrow> (case s of (w, pc) \<Rightarrow>
     (\<forall>c c'. past (pc c) \<longrightarrow> past (pc c') \<longrightarrow> c = c') \<and>
     (\<forall>c. past (pc c) \<longrightarrow> started w) \<and>
     (\<forall>c f. pc c = Panicked f \<longrightarrow> spawn c = Inl f) \<and>
     (\<forall>be. the_backend w = Some be \<longrightarrow> (\<exists>c. pc c = Returned ShutdownGuard \<and> spawn c = Inr be)) \<and>
     (\<forall>c. pc c = Returned ShutdownGuard \<longrightarrow> the_backend w \<noteq> None))"

lemma past_simps [simp]:
  "past Latched" "past (Panicked f)" "past (Returned ShutdownGuard)" "\<not> past Calling"
  "\<not> past (Returned AlreadyStarted)"
  by (simp_all add: past_def)

lemma not_past:
  "\<not> past s \<longleftrightarrow> s \<noteq> Latched \<and> s \<noteq> Returned ShutdownGuard \<and> (\<forall>f. s \<noteq> Panicked f)"
  by (simp add: past_def)

lemma latched_alone:
  assumes "start_inv spawn (w, pc)" "pc c = Latched"
  shows "started w \<and> the_backend w = None \<and> (\<forall>d. d \<noteq> c \<longrightarrow> \<not> past (pc d))"
proof -
  have alone: "\<forall>d. past (pc d) \<longrightarrow> d = c" using assms by (auto simp: start_inv_def)
  have "the_backend w = None"
  proof (cases "the_backend w")
    case (Some be)
    then obtain d where "pc d = Returned ShutdownGuard" using assms(1) by (auto simp: start_inv_def)
    then show ?thesis using alone assms(2) by (metis call_state.distinct(7) past_simps(3))
  qed simp
  moreover have "past (pc c)" using assms(2) by simp
  then have "started w" using assms(1) unfolding start_inv_def by blast
  ultimately show ?thesis using alone by blast
qed

lemma start_inv_step:
  assumes "start_inv spawn s" "start_step spawn s s'"
  shows "start_inv spawn s'"
  using assms(2,1)
proof cases
  case (latch_won pc c w w')
  then have w': "\<not> started w" "w' = w\<lparr>started := True\<rparr>" by (auto simp: start_latch_def)
  with latch_won assms(1) have none: "\<forall>d. \<not> past (pc d)" by (auto simp: start_inv_def)
  then have "the_backend w = None"
    using assms(1) latch_won(1) by (cases "the_backend w") (auto simp: start_inv_def not_past)
  then show ?thesis
    using latch_won(1,2) none by (auto simp: start_inv_def w'(2) not_past past_def)
next
  case (latch_lost pc c w w')
  then have w': "started w" "w' = w\<lparr>started := True\<rparr>" by (auto simp: start_latch_def)
  then have "w' = w" by simp
  then show ?thesis using assms(1) latch_lost(1-3) by (auto simp: start_inv_def) (metis call_state.distinct(3))+
next
  case (spawn_failed pc c f w)
  note alone = latched_alone [OF assms(1) [unfolded spawn_failed(1)] spawn_failed(3)]
  then show ?thesis using spawn_failed(2,4) by (auto simp: start_inv_def past_def)
next
  case (published pc c be w r w')
  note alone = latched_alone [OF assms(1) [unfolded published(1)] published(3)]
  have "w' = w\<lparr>the_backend := Some be\<rparr>" "r = ShutdownGuard"
    using published(5) alone by (auto simp: start_publish_def)
  then show ?thesis using published(2,4) alone by (auto simp: start_inv_def past_def)
next
  case (publish_panic pc c be w f w')
  note alone = latched_alone [OF assms(1) [unfolded publish_panic(1)] publish_panic(3)]
  then show ?thesis using publish_panic(5) by (simp add: start_publish_def)
qed

lemma start_inv_reach:
  "start_reach spawn w0 s \<Longrightarrow> \<not> started w0 \<Longrightarrow> the_backend w0 = None \<Longrightarrow> start_inv spawn s"
proof (induction rule: start_reach.induct)
  case start_init
  then show ?case by (simp add: start_inv_def)
next
  case (start_more s s')
  then show ?case using start_inv_step by blast
qed


section \<open>Properties\<close>

text \<open>C37. However concurrent calls of \<open>start\<close> interleave, at most one gets past the latch: no two calls
  return a guard, the \<open>unreachable!\<close> is never reached (a call panics only if its spawn failed), and the
  backend that is set is the one of the call that returned the guard.\<close>

theorem start_once:
  assumes "start_reach spawn w0 (w, pc)" "\<not> started w0" "the_backend w0 = None"
  shows "(\<forall>c c'. pc c = Returned ShutdownGuard \<longrightarrow> pc c' = Returned ShutdownGuard \<longrightarrow> c = c') \<and>
    (\<forall>c f. pc c = Panicked f \<longrightarrow> spawn c = Inl f) \<and>
    (\<forall>c. pc c = Returned ShutdownGuard \<longrightarrow> (\<exists>be. spawn c = Inr be \<and> the_backend w = Some be))"
proof -
  have inv: "start_inv spawn (w, pc)" using start_inv_reach [OF assms] .
  then have one: "pc c = Returned ShutdownGuard \<Longrightarrow> pc c' = Returned ShutdownGuard \<Longrightarrow> c = c'" for c c'
    by (auto simp: start_inv_def)
  moreover have "\<exists>be. spawn c = Inr be \<and> the_backend w = Some be" if c: "pc c = Returned ShutdownGuard" for c
  proof -
    obtain be where be: "the_backend w = Some be" using inv c by (auto simp: start_inv_def)
    then obtain d where "pc d = Returned ShutdownGuard" "spawn d = Inr be" using inv by (auto simp: start_inv_def)
    then show ?thesis using one c be by blast
  qed
  ultimately show ?thesis using inv by (auto simp: start_inv_def)
qed

definition fresh_world :: "(unit, nat) world" where
  "fresh_world = \<lparr>started = False, the_backend = None,
     tls = (\<lambda>_. \<lparr>slot_producer = None, slot_borrowed = False\<rparr>), clock = 5, user = 0\<rparr>"

definition demo_spawn :: "nat \<Rightarrow> fault + unit backend" where
  "demo_spawn = (\<lambda>_. Inr demo_backend)"

text \<open>Call 0 takes the latch, call 1 is turned away, and then call 0 publishes.\<close>

lemma start_race:
  "start_reach demo_spawn fresh_world (fresh_world\<lparr>started := True\<rparr>, (\<lambda>_. Calling)(0 := Latched, 1 := Returned AlreadyStarted))"
proof -
  have "start_reach demo_spawn fresh_world (fresh_world\<lparr>started := True\<rparr>, (\<lambda>_. Calling)(0 := Latched))"
    by (rule start_more [OF start_init]) (intro latch_won, simp_all add: start_latch_def fresh_world_def)
  then show ?thesis
    by (rule start_more) (intro latch_lost, simp_all add: start_latch_def fresh_world_def)
qed

theorem start_once_witness:
  "\<exists>w pc. start_reach demo_spawn fresh_world (w, pc) \<and> pc 0 = Returned ShutdownGuard \<and>
     pc 1 = Returned AlreadyStarted \<and> the_backend w = Some demo_backend"
proof -
  let ?pc = "((\<lambda>_. Calling)(0 := Latched, 1 := Returned AlreadyStarted))(0 := Returned ShutdownGuard)"
  let ?w = "fresh_world\<lparr>started := True, the_backend := Some demo_backend\<rparr>"
  have "start_reach demo_spawn fresh_world (?w, ?pc)"
    by (rule start_more [OF start_race])
      (intro published [of _ _ _ demo_backend], simp_all add: demo_spawn_def start_publish_def fresh_world_def)
  from start_once [OF this] this show ?thesis
    by (intro exI [of _ ?w] exI [of _ ?pc]) (simp add: fresh_world_def)
qed

text \<open>\<open>AlreadyStarted\<close> may be returned before the backend is there: between the latch and the setting of
  the cell another thread can be told that the backend has already been started, and then panics with
  the message that \<open>start\<close> was not called when it uses the API.\<close>

lemma already_started_before_available:
  "\<exists>w pc. start_reach demo_spawn fresh_world (w, pc) \<and> pc 1 = Returned AlreadyStarted \<and>
     lc_get_logger (lit ''app'') w = (Inl PanicNotStarted, w)"
  using start_race by (intro exI conjI, assumption) (simp_all add: lc_get_logger_def on_backend_def get_backend_def fresh_world_def bind_act_def)

text \<open>\<open>start\<close> is one-shot: whatever the first call does, also when it panics because no thread could be
  spawned, every later call returns \<open>AlreadyStarted\<close> and changes nothing. The options of a later call
  are never looked at.\<close>

lemma start_is_one_shot:
  assumes "start opts spawned chs st w = (r, w')"
  shows "start opts' spawned' chs' st' w' = (Inr AlreadyStarted, w') \<and>
    (\<not> started w \<longrightarrow> spawned = None \<longrightarrow> r = Inl PanicExpect \<and> the_backend w' = the_backend w)"
proof -
  have "started w'"
    using assms by (auto simp: start_def bind_act_def start_latch_def start_publish_def ret_act_def lift_act_def
        split: if_splits sum.splits option.splits prod.splits)
  moreover have "r = Inl PanicExpect \<and> the_backend w' = the_backend w" if "\<not> started w" "spawned = None"
    using assms that by (auto simp: start_def bind_act_def start_latch_def lift_act_def backend_start_def)
  ultimately show ?thesis by (auto simp: start_def bind_act_def start_latch_def ret_act_def)
qed

text \<open>Before \<open>start\<close>, every lookup or registration panics with the not-started message and changes
  nothing, while \<open>shutdown\<close> and a guard's drop are no-ops that return at once.\<close>

lemma unstarted_api:
  assumes "the_backend w = None"
  shows "lc_get_sink n w = (Inl PanicNotStarted, w) \<and> lc_register_sink n sk w = (Inl PanicNotStarted, w) \<and>
    lc_get_logger n w = (Inl PanicNotStarted, w) \<and> lc_create_logger n a sinks l w = (Inl PanicNotStarted, w) \<and>
    shutdown T D M E fuel unwound w = Some (Inr (), w) \<and> drop_guard T D M E fuel unwound w = Some (Inr (), w)"
  using assms
  by (simp add: lc_get_sink_def lc_register_sink_def lc_get_logger_def lc_create_logger_def on_backend_def
      get_backend_def bind_act_def shutdown_def drop_guard_def)

end
