(* ===== verification/Hot_Path.thy ===== *)
theory Hot_Path
  imports Lifecycle
begin

text \<open>
  \<open>frontend.rs\<close> and \<open>macros.rs\<close>: what a log macro does on the calling thread. The macro is expanded
  here as the source writes it: the level check, the static metadata, the sizes of the arguments, and
  the closure that fills the bytes reserved in the thread's queue. An argument of the macro is an
  expression of the caller, so it is an action on the world, and every occurrence of \<open>$arg\<close> in the
  macro's body runs it.
\<close>

section \<open>The thread's producer\<close>

definition set_slot :: "nat \<Rightarrow> tl_slot \<Rightarrow> ('s, 'p) world \<Rightarrow> ('s, 'p) world" where
  "set_slot t s w = w\<lparr>tls := (tls w)(t := s)\<rparr>"

definition ensure_producer_registered :: "target \<Rightarrow> nat \<Rightarrow> (('s, 'p) world, unit) act" where
  "ensure_producer_registered T t = (\<lambda>w.
     if slot_borrowed (tls w t) then (Inl PanicBorrow, w)
     else case slot_producer (tls w t) of
       Some _ \<Rightarrow> (Inr (), w)
     | None \<Rightarrow> bind_act get_backend (\<lambda>be.
         bind_act (lift_act (create_producer T t be)) (\<lambda>(k, be').
           (\<lambda>w. (Inr (), set_slot t ((tls w t)\<lparr>slot_producer := Some k\<rparr>) (w\<lparr>the_backend := Some be'\<rparr>))))) w)"

definition preallocate_thread :: "target \<Rightarrow> nat \<Rightarrow> (('s, 'p) world, unit) act" where
  "preallocate_thread = ensure_producer_registered"

text \<open>
  The slot is borrowed while \<open>f\<close> runs; the guard is dropped on return and on unwinding alike. The
  producer is handed on as the number of its channel.
\<close>

definition with_producer :: "target \<Rightarrow> nat \<Rightarrow> (nat \<Rightarrow> (('s, 'p) world, 'a) act) \<Rightarrow> (('s, 'p) world, 'a) act" where
  "with_producer T t f =
     bind_act (ensure_producer_registered T t) (\<lambda>_. \<lambda>w.
       if slot_borrowed (tls w t) then (Inl PanicBorrow, w)
       else case slot_producer (tls w t) of
         None \<Rightarrow> (Inl PanicExpect, w)
       | Some k \<Rightarrow>
           (let (r, w') = f k (set_slot t ((tls w t)\<lparr>slot_borrowed := True\<rparr>) w)
            in (r, set_slot t ((tls w' t)\<lparr>slot_borrowed := False\<rparr>) w')))"

text \<open>The end of a thread drops its producer.\<close>

definition put_channel :: "nat \<Rightarrow> channel \<Rightarrow> ('s, 'p) world \<Rightarrow> ('s, 'p) world" where
  "put_channel k chn w = w\<lparr>the_backend := map_option (\<lambda>be. be\<lparr>be_runner :=
     (be_runner be)\<lparr>channels := (channels (be_runner be))(k := chn)\<rparr>\<rparr>) (the_backend w)\<rparr>"

definition get_channel :: "nat \<Rightarrow> ('s, 'p) world \<Rightarrow> channel option" where
  "get_channel k w = map_option (\<lambda>be. channels (be_runner be) k) (the_backend w)"

definition exit_thread :: "nat \<Rightarrow> ('s, 'p) world \<Rightarrow> ('s, 'p) world" where
  "exit_thread t w =
     (case slot_producer (tls w t) of
        None \<Rightarrow> w
      | Some k \<Rightarrow> (case get_channel k w of
            None \<Rightarrow> w
          | Some chn \<Rightarrow> set_slot t \<lparr>slot_producer = None, slot_borrowed = False\<rparr> (put_channel k (drop_producer chn) w)))"

text \<open>
  \<open>Producer::write\<close> with a closure that acts on the world. The other side of the queue may move on
  while the closure runs, so the commit is on the channel as it is then. What a closure that panics
  has written stays behind the write position, where nobody reads it, and is left out.
\<close>

definition producer_write :: "target \<Rightarrow> nat \<Rightarrow> usize \<Rightarrow> (bytes \<Rightarrow> (('s, 'p) world, bytes) act) \<Rightarrow>
    (('s, 'p) world, write_error + unit) act" where
  "producer_write T k n f = (\<lambda>w.
     case get_channel k w of
       None \<Rightarrow> (Inl UbDangling, w)
     | Some chn \<Rightarrow> (case try_reserve T (ch_inner chn) (ch_prod chn) n of
         Inl flt \<Rightarrow> (Inl flt, w)
       | Inr (None, p) \<Rightarrow>
           (Inr (Inl (if capacity (ch_inner chn) < n then OversizedWrite else QueueFull)),
            put_channel k (chn\<lparr>ch_prod := p\<rparr>) w)
       | Inr (Some off, p) \<Rightarrow>
           (if length (buf (ch_inner chn)) < unat off + unat n then (Inl UbOutOfBounds, w)
            else bind_act (f (subslice (unat off) (unat n) (buf (ch_inner chn)))) (\<lambda>bs. \<lambda>w.
              case get_channel k w of
                None \<Rightarrow> (Inl UbDangling, w)
              | Some chn \<Rightarrow>
                  (let q = ch_inner chn; (q', p') = commit (q\<lparr>buf := blit (unat off) bs (buf q)\<rparr>) (ch_prod chn) n
                   in (Inr (Inr ()), put_channel k (chn\<lparr>ch_inner := q', ch_prod := p'\<rparr>) w)))
              (put_channel k (chn\<lparr>ch_prod := p\<rparr>) w))))"


section \<open>The macro\<close>

text \<open>\<open>timestamp_ns\<close>: nanoseconds since the epoch, 0 for a clock before it, cut to 64 bits.\<close>

definition timestamp_now :: "int \<Rightarrow> u64" where
  "timestamp_now now = word_of_int (max 0 now)"

definition log_write :: "target \<Rightarrow> nat \<Rightarrow> usize \<Rightarrow> (bytes \<Rightarrow> (('s, 'p) world, bytes) act) \<Rightarrow> (('s, 'p) world, unit) act" where
  "log_write T t total_size f =
     with_producer T t (\<lambda>k. bind_act (producer_write T k total_size f) (\<lambda>r.
       case r of
         Inr _ \<Rightarrow> ret_act ()
       | Inl _ \<Rightarrow> on_backend (\<lambda>be. ((), increment_dropped_records be))))"

fun count_args :: "'a list \<Rightarrow> u8" where
  "count_args [] = 0"
| "count_args (_ # tail) = 1 + count_args tail"

text \<open>A call site: where its static \<open>METADATA\<close> lies, and the macros \<open>file!\<close>, \<open>line!\<close>, \<open>module_path!\<close>.\<close>

record call_site =
  cs_metadata :: usize
  cs_file :: ustr
  cs_line :: u32
  cs_module :: ustr

definition site_metadata :: "call_site \<Rightarrow> log_level \<Rightarrow> ustr \<Rightarrow> 'a list \<Rightarrow> log_metadata" where
  "site_metadata site level fmt args =
     \<lparr>md_level = level, fmt_str = fmt, md_file = cs_file site, md_line = cs_line site,
      module_path = cs_module site, arg_count = count_args args\<rparr>"

type_synonym ('s, 'p) arg_expr = "(('s, 'p) world, arg) act"

text \<open>\<open>0usize + encoded_size(&$arg) + ...\<close>, from left to right.\<close>

definition add_chk :: "target \<Rightarrow> usize \<Rightarrow> usize \<Rightarrow> fault + usize" where
  "add_chk T a b = (if checks T \<and> 2 ^ 64 \<le> unat a + unat b then Inl PanicOverflow else Inr (a + b))"

fun sum_sizes :: "target \<Rightarrow> ('s, 'p) arg_expr list \<Rightarrow> usize \<Rightarrow> (('s, 'p) world, usize) act" where
  "sum_sizes T [] acc = ret_act acc"
| "sum_sizes T (e # es) acc =
     bind_act e (\<lambda>a. bind_act (lift_act (add_chk T acc (of_nat (encoded_size a)))) (sum_sizes T es))"

text \<open>
  The repetition that encodes: for every argument its size, then its encoding at the offset. \<open>n\<close> is
  the number of bytes reserved; writing past them is undefined behaviour.
\<close>

fun encode_each :: "target \<Rightarrow> nat \<Rightarrow> ('s, 'p) arg_expr list \<Rightarrow> nat \<Rightarrow> bytes \<Rightarrow> (('s, 'p) world, bytes) act" where
  "encode_each T n [] offset bs = ret_act bs"
| "encode_each T n (e # es) offset bs =
     bind_act e (\<lambda>a. let arg_size = encoded_size a in
       bind_act e (\<lambda>a'. bind_act (lift_act (encode_to T a')) (\<lambda>b.
         if n < offset + length b then fail_act UbOutOfBounds
         else encode_each T n es (offset + arg_size) (blit offset b bs))))"

definition fill_record :: "target \<Rightarrow> call_site \<Rightarrow> usize \<Rightarrow> u32 \<Rightarrow> ('s, 'p) arg_expr list \<Rightarrow> bytes \<Rightarrow>
    (('s, 'p) world, bytes) act" where
  "fill_record T site logger_ref args_size args old = (\<lambda>w.
     let header = new_header (timestamp_now (clock w)) (cs_metadata site) logger_ref args_size
     in encode_each T (length old) args header_size (blit 0 (write_header T header) old) w)"

text \<open>\<open>__log!\<close> on thread \<open>t\<close>; \<open>logger_ref\<close> is the address of the logger.\<close>

definition log_at :: "log_level \<Rightarrow> target \<Rightarrow> nat \<Rightarrow> call_site \<Rightarrow> usize \<Rightarrow> ustr \<Rightarrow> ('s, 'p) arg_expr list \<Rightarrow>
    (('s, 'p) world, unit) act" where
  "log_at level T t site logger_ref fmt args = (\<lambda>w.
     case Option.bind (the_backend w) (\<lambda>be. be_heap be logger_ref) of
       None \<Rightarrow> (Inl UbDangling, w)
     | Some lg \<Rightarrow> bind_act (lift_act (get_level lg)) (\<lambda>logger_level.
         if logger_level \<le> level then
           bind_act (sum_sizes T args 0) (\<lambda>sum.
             let args_size = ucast sum :: u32;
                 total_size = of_nat header_size + ucast args_size :: usize
             in log_write T t total_size (fill_record T site logger_ref args_size args))
         else ret_act ()) w)"

definition log_trace :: "target \<Rightarrow> nat \<Rightarrow> call_site \<Rightarrow> usize \<Rightarrow> ustr \<Rightarrow> ('s, 'p) arg_expr list \<Rightarrow> (('s, 'p) world, unit) act" where
  "log_trace = log_at Trace"

definition log_debug :: "target \<Rightarrow> nat \<Rightarrow> call_site \<Rightarrow> usize \<Rightarrow> ustr \<Rightarrow> ('s, 'p) arg_expr list \<Rightarrow> (('s, 'p) world, unit) act" where
  "log_debug = log_at Debug"

definition log_info :: "target \<Rightarrow> nat \<Rightarrow> call_site \<Rightarrow> usize \<Rightarrow> ustr \<Rightarrow> ('s, 'p) arg_expr list \<Rightarrow> (('s, 'p) world, unit) act" where
  "log_info = log_at Info"

definition log_warn :: "target \<Rightarrow> nat \<Rightarrow> call_site \<Rightarrow> usize \<Rightarrow> ustr \<Rightarrow> ('s, 'p) arg_expr list \<Rightarrow> (('s, 'p) world, unit) act" where
  "log_warn = log_at Warning"

definition log_error :: "target \<Rightarrow> nat \<Rightarrow> call_site \<Rightarrow> usize \<Rightarrow> ustr \<Rightarrow> ('s, 'p) arg_expr list \<Rightarrow> (('s, 'p) world, unit) act" where
  "log_error = log_at log_level.Error"


section \<open>Well-behaved arguments\<close>

text \<open>
  \<open>steady e a g\<close>: evaluating \<open>e\<close> yields \<open>a\<close> every time, and its only effect is \<open>g\<close> on the program's
  own state. A variable or a literal is the case where \<open>g\<close> does nothing.
\<close>

definition steady :: "('s, 'p) arg_expr \<Rightarrow> arg \<Rightarrow> ('p \<Rightarrow> 'p) \<Rightarrow> bool" where
  "steady e a g \<longleftrightarrow> (\<forall>w. e w = (Inr a, w\<lparr>user := g (user w)\<rparr>))"

inductive steady_all :: "('s, 'p) arg_expr list \<Rightarrow> arg list \<Rightarrow> ('p \<Rightarrow> 'p) list \<Rightarrow> bool" where
  "steady_all [] [] []"
| "steady e a g \<Longrightarrow> steady_all es as gs \<Longrightarrow> steady_all (e # es) (a # as) (g # gs)"

inductive_cases steady_allE: "steady_all es as gs"

text \<open>The program's state after one evaluation of each argument, and after two of each.\<close>

definition once :: "('p \<Rightarrow> 'p) list \<Rightarrow> 'p \<Rightarrow> 'p" where
  "once gs = fold (\<lambda>g. g) gs"

definition twice_each :: "('p \<Rightarrow> 'p) list \<Rightarrow> 'p \<Rightarrow> 'p" where
  "twice_each gs = fold (\<lambda>g. g \<circ> g) gs"

lemma effect_simps [simp]:
  "once [] u = u" "once (g # gs) u = once gs (g u)"
  "twice_each [] u = u" "twice_each (g # gs) u = twice_each gs (g (g u))"
  by (simp_all add: once_def twice_each_def)

definition args_len :: "arg list \<Rightarrow> nat" where
  "args_len as = sum_list (map encoded_size as)"

lemma args_len_simps [simp]: "args_len [] = 0" "args_len (a # as) = encoded_size a + args_len as"
  by (simp_all add: args_len_def)

lemma unat_usize: "n < 2 ^ 64 \<Longrightarrow> unat (of_nat n :: usize) = n"
  by (simp add: unat_of_nat take_bit_eq_mod)

lemma add_chk_ok:
  assumes "m + n < 2 ^ 64"
  shows "add_chk T (of_nat m) (of_nat n) = Inr (of_nat (m + n))"
proof -
  have "unat (of_nat m :: usize) = m" "unat (of_nat n :: usize) = n" using assms by (simp_all add: unat_usize)
  then show ?thesis using assms by (simp add: add_chk_def not_le)
qed

lemma sum_sizes_steady:
  "steady_all es as gs \<Longrightarrow> m + args_len as < 2 ^ 64 \<Longrightarrow>
   sum_sizes T es (of_nat m) w = (Inr (of_nat (m + args_len as)), w\<lparr>user := once gs (user w)\<rparr>)"
proof (induction arbitrary: m w rule: steady_all.induct)
  case (2 e a g es as gs)
  have e: "e w = (Inr a, w\<lparr>user := g (user w)\<rparr>)" using 2(1) by (simp add: steady_def)
  have "m + encoded_size a < 2 ^ 64" using 2(4) by simp
  from add_chk_ok [OF this] have chk: "add_chk T (of_nat m) (of_nat (encoded_size a)) = Inr (of_nat (m + encoded_size a))" .
  have "m + encoded_size a + args_len as < 2 ^ 64" using 2(4) by simp
  note rest = 2(3) [OF this, of "w\<lparr>user := g (user w)\<rparr>"]
  have "sum_sizes T (e # es) (of_nat m) w = sum_sizes T es (of_nat (m + encoded_size a)) (w\<lparr>user := g (user w)\<rparr>)"
    by (simp add: e chk del: of_nat_add)
  then show ?case unfolding rest by (simp add: add.assoc del: of_nat_add)
qed simp

lemma encode_each_steady:
  "steady_all es as gs \<Longrightarrow> list_all arg_ok as \<Longrightarrow> encode_args T as = Inr d \<Longrightarrow> length rest = length d \<Longrightarrow>
   length pre = offset \<Longrightarrow> offset + length d \<le> n \<Longrightarrow>
   encode_each T n es offset (pre @ rest) w = (Inr (pre @ d), w\<lparr>user := twice_each gs (user w)\<rparr>)"
proof (induction arbitrary: pre rest d offset w rule: steady_all.induct)
  case 1
  then show ?case by (simp add: encode_args_def)
next
  case (2 e a g es as gs)
  have e: "e w = (Inr a, w\<lparr>user := g (user w)\<rparr>)" for w using 2(1) by (simp add: steady_def)
  obtain b ds where b: "encode_to T a = Inr b" and ds: "encode_args T as = Inr ds" and d: "d = b @ ds"
    using 2(5) by (auto simp: encode_args_def)
  have lb: "length b = encoded_size a" using 2(4) b by (auto simp: encode_to_length arg_ok_custom)
  have fits: "\<not> n < offset + length b" using 2(8) d by simp
  have blit: "blit offset b (pre @ rest) = (pre @ b) @ drop (length b) rest"
    using 2(7) by (simp add: blit_def)
  have step: "encode_each T n (e # es) offset (pre @ rest) w =
      encode_each T n es (offset + length b) ((pre @ b) @ drop (length b) rest) (w\<lparr>user := g (g (user w))\<rparr>)"
    using fits by (simp add: e b blit lb)
  have "encode_each T n es (offset + length b) ((pre @ b) @ drop (length b) rest) (w\<lparr>user := g (g (user w))\<rparr>) =
      (Inr ((pre @ b) @ ds), w\<lparr>user := g (g (user w)), user := twice_each gs (g (g (user w)))\<rparr>)"
    using 2(3) [of ds "drop (length b) rest" "pre @ b" "offset + length b" "w\<lparr>user := g (g (user w))\<rparr>"]
      2(4,6-8) ds d by simp
  then show ?case unfolding step d by simp
qed


section \<open>Writing to the thread's queue\<close>

lemma channel_simps [simp]:
  "get_channel k (put_channel k chn w) = (if the_backend w = None then None else Some chn)"
  "put_channel k chn' (put_channel k chn w) = put_channel k chn' w"
  "get_channel k (w\<lparr>user := u\<rparr>) = get_channel k w"
  "get_channel k (set_slot t s w) = get_channel k w"
  "put_channel k chn (w\<lparr>user := u\<rparr>) = (put_channel k chn w)\<lparr>user := u\<rparr>"
  "put_channel k chn (set_slot t s w) = set_slot t s (put_channel k chn w)"
  "clock (put_channel k chn w) = clock w" "user (put_channel k chn w) = user w"
  "tls (put_channel k chn w) = tls w" "started (put_channel k chn w) = started w"
  by (auto simp: get_channel_def put_channel_def set_slot_def option.map_comp comp_def)

lemma slot_simps [simp]:
  "tls (set_slot t s w) t = s" "set_slot t s' (set_slot t s w) = set_slot t s' w"
  "the_backend (set_slot t s w) = the_backend w" "clock (set_slot t s w) = clock w"
  "user (set_slot t s w) = user w" "(set_slot t s w)\<lparr>user := u\<rparr> = set_slot t s (w\<lparr>user := u\<rparr>)"
  by (simp_all add: set_slot_def)

lemma set_slot_same: "tls w t = s \<Longrightarrow> set_slot t s w = w"
  by (simp add: set_slot_def fun_upd_idem)

lemma producer_write_chan:
  assumes chn: "get_channel k w = Some chn"
    and f: "\<And>old w'. length old = unat n \<Longrightarrow> clock w' = clock w \<Longrightarrow> f old w' = (Inr d, w'\<lparr>user := h (user w')\<rparr>)"
    and wr: "chan_write T chn n (\<lambda>_. Inr d) = Inr (r, chn')"
  shows "producer_write T k n f w =
     (Inr r, if r = Inr () then (put_channel k chn' w)\<lparr>user := h (user w)\<rparr> else put_channel k chn' w)"
proof -
  have some: "the_backend w \<noteq> None" using chn by (auto simp: get_channel_def)
  obtain o' p where res: "try_reserve T (ch_inner chn) (ch_prod chn) n = Inr (o', p)"
    using wr by (auto simp: chan_write_def write_queue_def)
  show ?thesis
  proof (cases o')
    case None
    then show ?thesis using wr chn by (auto simp: producer_write_def chan_write_def write_queue_def res)
  next
    case (Some off)
    have room: "\<not> length (buf (ch_inner chn)) < unat off + unat n"
      using wr by (auto simp: chan_write_def write_queue_def res Some)
    let ?old = "subslice (unat off) (unat n) (buf (ch_inner chn))"
    have "length ?old = unat n" using room by simp
    from f [OF this] have fill: "f ?old (put_channel k (chn\<lparr>ch_prod := p\<rparr>) w) =
        (Inr d, (put_channel k (chn\<lparr>ch_prod := p\<rparr>) w)\<lparr>user := h (user w)\<rparr>)" by simp
    obtain q' p' where com: "commit ((ch_inner chn)\<lparr>buf := blit (unat off) d (buf (ch_inner chn))\<rparr>) p n = (q', p')"
      by fastforce
    have r: "r = Inr ()" "chn' = chn\<lparr>ch_inner := q', ch_prod := p'\<rparr>"
      using wr room by (auto simp: chan_write_def write_queue_def res Some com)
    show ?thesis using room some
      by (simp add: producer_write_def chn res Some bind_act_def fill com r Let_def)
  qed
qed

lemma producer_write_spec:
  assumes chn: "get_channel k w = Some chn" "chan_rel chn cs" "length d = unat n"
    and f: "\<And>old w'. length old = unat n \<Longrightarrow> clock w' = clock w \<Longrightarrow> f old w' = (Inr d, w'\<lparr>user := h (user w')\<rparr>)"
  shows "\<exists>chn'. chan_capacity chn' = chan_capacity chn \<and> ch_alive chn' = ch_alive chn \<and>
     (if chan_capacity chn < unat n then
        producer_write T k n f w = (Inr (Inl OversizedWrite), put_channel k chn' w) \<and> chan_rel chn' cs
      else if chan_capacity chn < total_len cs + unat n then
        producer_write T k n f w = (Inr (Inl QueueFull), put_channel k chn' w) \<and> chan_rel chn' cs
      else producer_write T k n f w = (Inr (Inr ()), (put_channel k chn' w)\<lparr>user := h (user w)\<rparr>) \<and>
        chan_rel chn' (cs @ [d]))"
proof -
  obtain chn' where c: "chan_capacity chn' = chan_capacity chn" "ch_alive chn' = ch_alive chn"
    "if chan_capacity chn < unat n then chan_write T chn n (\<lambda>_. Inr d) = Inr (Inl OversizedWrite, chn') \<and> chan_rel chn' cs
      else if chan_capacity chn < total_len cs + unat n then chan_write T chn n (\<lambda>_. Inr d) = Inr (Inl QueueFull, chn') \<and> chan_rel chn' cs
      else chan_write T chn n (\<lambda>_. Inr d) = Inr (Inr (), chn') \<and> chan_rel chn' (cs @ [d])"
    using chan_write_spec [OF chn(2), of n "\<lambda>_. Inr d" d T] chn(3) by blast
  have w: "producer_write T k n f w = (Inr r, if r = Inr () then (put_channel k chn' w)\<lparr>user := h (user w)\<rparr> else put_channel k chn' w)"
    if "chan_write T chn n (\<lambda>_. Inr d) = Inr (r, chn')" for r
    using producer_write_chan [OF chn(1) _ that, of f h] f by blast
  show ?thesis using c w by (intro exI [of _ chn']) (auto split: if_splits)
qed


section \<open>One log call\<close>

definition registered :: "('s, 'p) world \<Rightarrow> nat \<Rightarrow> nat \<Rightarrow> bool" where
  "registered w t k \<longleftrightarrow> tls w t = \<lparr>slot_producer = Some k, slot_borrowed = False\<rparr>"

definition count_drop :: "('s, 'p) world \<Rightarrow> ('s, 'p) world" where
  "count_drop w = w\<lparr>the_backend := map_option increment_dropped_records (the_backend w)\<rparr>"

text \<open>The bytes of the record that a log call writes.\<close>

definition record_chunk :: "target \<Rightarrow> int \<Rightarrow> call_site \<Rightarrow> usize \<Rightarrow> arg list \<Rightarrow> fault + bytes" where
  "record_chunk T now site logger_ref as =
     rbind (encode_args T as) (\<lambda>bs.
       Inr (write_header T (new_header (timestamp_now now) (cs_metadata site) logger_ref (of_nat (args_len as))) @ bs))"

lemma with_producer_registered:
  "registered w t k \<Longrightarrow> with_producer T t f w =
     (let (r, w') = f k (set_slot t \<lparr>slot_producer = Some k, slot_borrowed = True\<rparr> w)
      in (r, set_slot t ((tls w' t)\<lparr>slot_borrowed := False\<rparr>) w'))"
  by (simp add: with_producer_def registered_def ensure_producer_registered_def bind_act_def)

lemma fill_record_steady:
  assumes "steady_all es as gs" "list_all arg_ok as" "record_chunk T (clock w) site la as = Inr d"
    and "length old = header_size + args_len as"
  shows "fill_record T site la (of_nat (args_len as)) es old w = (Inr d, w\<lparr>user := twice_each gs (user w)\<rparr>)"
proof -
  obtain bs where bs: "encode_args T as = Inr bs" using assms(2) encode_args_total by blast
  have ok: "list_all custom_arg_ok as" using assms(2) arg_ok_custom by (auto simp: list_all_iff)
  have len: "length bs = args_len as" using length_encode_args [OF ok bs] by (simp add: args_len_def)
  let ?h = "write_header T (new_header (timestamp_now (clock w)) (cs_metadata site) la (of_nat (args_len as)))"
  have "blit 0 ?h old = ?h @ drop header_size old" by (simp add: blit_def)
  moreover have "d = ?h @ bs" using assms(3) bs by (simp add: record_chunk_def)
  ultimately show ?thesis
    using encode_each_steady [OF assms(1,2) bs, of "drop header_size old" ?h header_size "length old" w] len assms(4)
    by (simp add: fill_record_def Let_def)
qed

lemma record_chunk_ok:
  assumes "list_all arg_ok as"
  shows "\<exists>d. record_chunk T now site la as = Inr d \<and> length d = header_size + args_len as"
proof -
  obtain bs where bs: "encode_args T as = Inr bs" using assms encode_args_total by blast
  have ok: "list_all custom_arg_ok as" using assms arg_ok_custom by (auto simp: list_all_iff)
  show ?thesis using length_encode_args [OF ok bs] by (simp add: record_chunk_def bs args_len_def)
qed

lemma total_size_word:
  assumes "n < 2 ^ 32"
  shows "of_nat header_size + ucast (ucast (of_nat n :: usize) :: u32) = (of_nat (header_size + n) :: usize)"
    "ucast (of_nat n :: usize) = (of_nat n :: u32)"
proof -
  have "ucast (of_nat n :: u32) = (of_nat n :: usize)"
    using assms by (simp add: word_unat_eq_iff unsigned_ucast_eq unat_of_nat take_bit_eq_mod)
  moreover show "ucast (of_nat n :: usize) = (of_nat n :: u32)"
    using assms by (simp add: word_unat_eq_iff unsigned_ucast_eq unat_of_nat take_bit_eq_mod)
  ultimately show "of_nat header_size + ucast (ucast (of_nat n :: usize) :: u32) = (of_nat (header_size + n) :: usize)"
    by simp
qed

text \<open>An enabled log call with well-behaved arguments on a registered thread.\<close>

lemma log_at_enabled:
  assumes w: "registered w t k" "the_backend w = Some be" "be_heap be la = Some lg"
    and level: "get_level lg = Inr l" "l \<le> level"
    and args: "steady_all es as gs" "list_all arg_ok as" "args_len as < 2 ^ 32"
    and q: "chan_rel (channels (be_runner be) k) cs" "record_chunk T (clock w) site la as = Inr d"
  shows "\<exists>chn. chan_capacity chn = chan_capacity (channels (be_runner be) k) \<and>
     ch_alive chn = ch_alive (channels (be_runner be) k) \<and>
     (if total_len cs + header_size + args_len as \<le> chan_capacity chn
      then log_at level T t site la fmt es w =
             (Inr (), (put_channel k chn w)\<lparr>user := twice_each gs (once gs (user w))\<rparr>) \<and> chan_rel chn (cs @ [d])
      else log_at level T t site la fmt es w =
             (Inr (), count_drop ((put_channel k chn w)\<lparr>user := once gs (user w)\<rparr>)) \<and> chan_rel chn cs)"
proof -
  let ?n = "header_size + args_len as" and ?s = "\<lparr>slot_producer = Some k, slot_borrowed = True\<rparr>"
  let ?w1 = "w\<lparr>user := once gs (user w)\<rparr>" and ?c = "channels (be_runner be) k"
  let ?f = "fill_record T site la (of_nat (args_len as)) es"
  have sum: "sum_sizes T es 0 w = (Inr (of_nat (args_len as)), ?w1)"
    using sum_sizes_steady [OF args(1), of 0 T w] args(3) by simp
  have n: "unat (of_nat ?n :: usize) = ?n" using args(3) by (intro unat_usize) (simp add: header_size_def)
  have reg: "registered ?w1 t k" using w(1) by (simp add: registered_def)
  have go: "log_at level T t site la fmt es w = log_write T t (of_nat ?n) ?f ?w1"
    using w level sum total_size_word [OF args(3)] by (simp add: log_at_def Let_def)
  have ld: "length d = unat (of_nat ?n :: usize)"
    using record_chunk_ok [OF args(2), of T "clock w" site la] q(2) n by auto
  have "get_channel k (set_slot t ?s ?w1) = Some ?c" using w(2) by (simp add: get_channel_def)
  from producer_write_spec [OF this q(1) ld, of ?f "twice_each gs" T] obtain chn where
    chn: "chan_capacity chn = chan_capacity ?c" "ch_alive chn = ch_alive ?c" and
    wr: "if chan_capacity ?c < ?n then
        producer_write T k (of_nat ?n) ?f (set_slot t ?s ?w1) = (Inr (Inl OversizedWrite), put_channel k chn (set_slot t ?s ?w1)) \<and> chan_rel chn cs
      else if chan_capacity ?c < total_len cs + ?n then
        producer_write T k (of_nat ?n) ?f (set_slot t ?s ?w1) = (Inr (Inl QueueFull), put_channel k chn (set_slot t ?s ?w1)) \<and> chan_rel chn cs
      else producer_write T k (of_nat ?n) ?f (set_slot t ?s ?w1) =
        (Inr (Inr ()), (put_channel k chn (set_slot t ?s ?w1))\<lparr>user := twice_each gs (user ?w1)\<rparr>) \<and> chan_rel chn (cs @ [d])"
    using fill_record_steady [OF args(1,2)] q(2) n by (auto simp del: of_nat_add)
  note run = go log_write_def with_producer_registered [OF reg]
  have plain: "log_at level T t site la fmt es w = (Inr (), (put_channel k chn w)\<lparr>user := twice_each gs (once gs (user w))\<rparr>)"
    if "producer_write T k (of_nat ?n) ?f (set_slot t ?s ?w1) =
      (Inr (Inr ()), (put_channel k chn (set_slot t ?s ?w1))\<lparr>user := twice_each gs (user ?w1)\<rparr>)"
    unfolding run using that w(1) by (simp add: Let_def set_slot_same registered_def)
  have dropped: "log_at level T t site la fmt es w = (Inr (), count_drop ((put_channel k chn w)\<lparr>user := once gs (user w)\<rparr>))"
    if "producer_write T k (of_nat ?n) ?f (set_slot t ?s ?w1) = (Inr (Inl e), put_channel k chn (set_slot t ?s ?w1))" for e
    unfolding run using that w(1,2)
    by (simp add: Let_def on_backend_def get_backend_def bind_act_def count_drop_def put_channel_def
        set_slot_def registered_def fun_upd_idem)
  show ?thesis using chn wr plain dropped
    by (intro exI [of _ chn]) (auto simp: not_less add.assoc split: if_splits)
qed


section \<open>Closures that panic\<close>

text \<open>A closure that panics commits nothing: the queue holds what it held.\<close>

lemma producer_write_panics:
  assumes chn: "get_channel k w = Some chn" "chan_rel chn cs" "total_len cs + unat n \<le> chan_capacity chn"
    and f: "\<And>old chn'. length old = unat n \<Longrightarrow>
      f old (put_channel k chn' w) = (Inl flt, (put_channel k chn' w)\<lparr>user := u\<rparr>)"
  shows "\<exists>chn'. producer_write T k n f w = (Inl flt, (put_channel k chn' w)\<lparr>user := u\<rparr>) \<and> chan_rel chn' cs"
proof -
  obtain m r cr k' where inv: "q_inv (ch_inner chn) (ch_prod chn) (ch_cons chn) m r cr k' cs"
    using chn(2) by (auto simp: chan_rel_def q_rel_def)
  have cap: "chan_capacity chn = 2 ^ m" using q_inv_capacity [OF inv] by (simp add: chan_capacity_def)
  obtain p cr' off where res: "try_reserve T (ch_inner chn) (ch_prod chn) n = Inr (Some off, p)"
    and inv': "q_inv (ch_inner chn) p (ch_cons chn) m r cr' k' cs" and off: "unat off = (r + total_len cs) mod 2 ^ m"
    using try_reserve_spec [OF inv, of n T] chn(3) cap by (auto split: if_splits)
  have "length (buf (ch_inner chn)) = 2 * 2 ^ m" using inv by (auto simp: q_inv_def inner_wf_def)
  moreover have "unat off < 2 ^ m" by (simp add: off)
  ultimately have room: "\<not> length (buf (ch_inner chn)) < unat off + unat n" using chn(3) cap by linarith
  let ?chn = "chn\<lparr>ch_prod := p\<rparr>"
  have "length (subslice (unat off) (unat n) (buf (ch_inner chn))) = unat n" using room by simp
  from f [OF this, of ?chn] have "producer_write T k n f w = (Inl flt, (put_channel k ?chn w)\<lparr>user := u\<rparr>)"
    using room by (simp add: producer_write_def chn(1) res)
  moreover have "chan_rel ?chn cs" using inv' by (auto simp: chan_rel_def q_rel_def)
  ultimately show ?thesis by blast
qed

lemma log_write_panics:
  assumes "registered w t k" "get_channel k w = Some chn" "chan_rel chn cs"
    and "total_len cs + unat n \<le> chan_capacity chn"
    and f: "\<And>old chn'. length old = unat n \<Longrightarrow>
      f old (put_channel k chn' (set_slot t \<lparr>slot_producer = Some k, slot_borrowed = True\<rparr> w)) =
        (Inl flt, (put_channel k chn' (set_slot t \<lparr>slot_producer = Some k, slot_borrowed = True\<rparr> w))\<lparr>user := u\<rparr>)"
  shows "\<exists>chn'. log_write T t n f w = (Inl flt, (put_channel k chn' w)\<lparr>user := u\<rparr>) \<and> chan_rel chn' cs"
proof -
  let ?w = "set_slot t \<lparr>slot_producer = Some k, slot_borrowed = True\<rparr> w"
  have "get_channel k ?w = Some chn" using assms(2) by simp
  from producer_write_panics [OF this assms(3,4), of f flt u T, OF f] obtain chn' where
    chn': "producer_write T k n f ?w = (Inl flt, (put_channel k chn' ?w)\<lparr>user := u\<rparr>)" "chan_rel chn' cs" by blast
  then have "log_write T t n f w = (Inl flt, (put_channel k chn' w)\<lparr>user := u\<rparr>)"
    using assms(1) unfolding log_write_def with_producer_registered [OF assms(1)]
    by (simp add: Let_def set_slot_same registered_def)
  then show ?thesis using chn'(2) by blast
qed

text \<open>A log call while the thread's slot is borrowed: an argument that logs.\<close>

lemma log_while_borrowed:
  assumes "slot_borrowed (tls w t)" "the_backend w = Some be" "be_heap be la = Some lg"
    and "get_level lg = Inr l" "l \<le> level"
  shows "log_at level T t site la fmt [] w = (Inl PanicBorrow, w)"
  using assms by (simp add: log_at_def log_write_def with_producer_def ensure_producer_registered_def bind_act_def)


section \<open>Properties\<close>

text \<open>A world for the witnesses: thread 1 has channel 0, and a logger of level Info lies at 128.\<close>

definition demo_site :: call_site where
  "demo_site = \<lparr>cs_metadata = 64, cs_file = lit ''main.rs'', cs_line = 7, cs_module = lit ''app''\<rparr>"

definition demo_world :: "channel \<Rightarrow> (unit, nat) world" where
  "demo_world chn =
     \<lparr>started = True,
      the_backend = Some (demo_backend
        \<lparr>be_heap := (\<lambda>_. None)(128 \<mapsto> new_logger (lit ''main'') [null_sink Info] Info),
         be_runner := (be_runner demo_backend)\<lparr>consumers := [0], channels := (\<lambda>_. chn)\<rparr>\<rparr>),
      tls = (\<lambda>_. \<lparr>slot_producer = None, slot_borrowed = False\<rparr>)(1 := \<lparr>slot_producer = Some 0, slot_borrowed = False\<rparr>),
      clock = 5, user = 0\<rparr>"

lemma demo_world_simps [simp]:
  "registered (demo_world chn) 1 0" "get_channel 0 (demo_world chn) = Some chn"
  "clock (demo_world chn) = 5" "user (demo_world chn) = 0" "user (put_channel k c (demo_world chn)) = 0"
  by (simp_all add: registered_def demo_world_def get_channel_def)

lemma demo_world_backend:
  "\<exists>be. the_backend (demo_world chn) = Some be \<and> be_heap be 128 = Some (new_logger (lit ''main'') [null_sink Info] Info) \<and>
     channels (be_runner be) 0 = chn"
  by (simp add: demo_world_def)

lemma demo_empty_channel: "\<exists>chn. chan_rel chn [] \<and> 131072 \<le> chan_capacity chn"
proof -
  have "0 < unat (131072 :: usize)" "unat (131072 :: usize) \<le> 2 ^ 62" by simp_all
  from new_channel_ok [OF this, of dev_build] show ?thesis by auto
qed

text \<open>An argument with a side effect: it counts its evaluations.\<close>

definition counting_arg :: "(unit, nat) arg_expr" where
  "counting_arg = (\<lambda>w. (Inr (ArgU32 7), w\<lparr>user := Suc (user w)\<rparr>))"

lemma steady_counting: "steady_all [counting_arg] [ArgU32 7] [Suc]"
  by (intro steady_all.intros) (simp add: steady_def counting_arg_def)

text \<open>C10. An enabled log call with well-behaved arguments, on a thread that has its queue: if header and
  encoded arguments fit behind what is pending, exactly that record is appended to the thread's queue
  and nothing else changes but the argument's own effects; if they do not fit, the queue keeps its
  records and the dropped-records counter grows by one. The caller sees success either way.\<close>

theorem log_call_writes_record:
  assumes "registered w t k" "the_backend w = Some be" "be_heap be la = Some lg"
    and "get_level lg = Inr l" "l \<le> level"
    and "steady_all es as gs" "list_all arg_ok as" "args_len as < 2 ^ 32"
    and "chan_rel (channels (be_runner be) k) cs" "record_chunk T (clock w) site la as = Inr d"
  shows "\<exists>chn. chan_capacity chn = chan_capacity (channels (be_runner be) k) \<and>
     (if total_len cs + header_size + args_len as \<le> chan_capacity chn
      then log_at level T t site la fmt es w =
             (Inr (), (put_channel k chn w)\<lparr>user := twice_each gs (once gs (user w))\<rparr>) \<and> chan_rel chn (cs @ [d])
      else log_at level T t site la fmt es w =
             (Inr (), count_drop ((put_channel k chn w)\<lparr>user := once gs (user w)\<rparr>)) \<and> chan_rel chn cs)"
  using log_at_enabled [OF assms] by blast

lemma demo_args: "list_all arg_ok [ArgU32 7]" "args_len [ArgU32 7] < 2 ^ 32"
  by simp_all

lemma demo_level: "get_level (new_logger (lit ''main'') [null_sink Info :: unit sink] Info) = Inr Info" "Info \<le> Info"
  by (simp, simp add: less_eq_log_level_def)

theorem log_call_writes_record_witness:
  "\<exists>chn chn' d. chan_rel chn [] \<and>
     log_info dev_build 1 demo_site 128 (lit ''x = {}'') [counting_arg] (demo_world chn) =
       (Inr (), (put_channel 0 chn' (demo_world chn))\<lparr>user := 3\<rparr>) \<and> chan_rel chn' [d]"
proof -
  obtain chn where chn: "chan_rel chn []" "131072 \<le> chan_capacity chn" using demo_empty_channel by blast
  obtain d where d: "record_chunk dev_build 5 demo_site 128 [ArgU32 7] = Inr d"
    using record_chunk_ok [OF demo_args(1)] by blast
  obtain be where be: "the_backend (demo_world chn) = Some be"
    "be_heap be 128 = Some (new_logger (lit ''main'') [null_sink Info] Info)" "channels (be_runner be) 0 = chn"
    using demo_world_backend by blast
  have "chan_rel (channels (be_runner be) 0) []" using chn(1) be(3) by simp
  from log_call_writes_record [OF demo_world_simps(1) be(1,2) demo_level steady_counting demo_args this, of dev_build demo_site d "lit ''x = {}''"]
    d chn be(3) obtain chn' where "log_at Info dev_build 1 demo_site 128 (lit ''x = {}'') [counting_arg] (demo_world chn) =
      (Inr (), (put_channel 0 chn' (demo_world chn))\<lparr>user := 3\<rparr>)" "chan_rel chn' [d]"
    by (auto simp: header_size_def numeral_3_eq_3)
  then show ?thesis using chn(1) by (auto simp: log_info_def)
qed

text \<open>The level check comes first: below the logger's level nothing happens at all. No argument is
  evaluated, the thread is not registered, nothing is counted, for any arguments whatever.\<close>

lemma disabled_level_no_effect:
  assumes "the_backend w = Some be" "be_heap be la = Some lg" "get_level lg = Inr l" "level < l"
  shows "log_at level T t site la fmt es w = (Inr (), w)"
proof -
  have "\<not> l \<le> level" using assms(4) by (simp add: not_le)
  then show ?thesis using assms(1-3) by (simp add: log_at_def)
qed

text \<open>The macro evaluates each argument expression three times when the record is written, once for
  its size and twice in the closure, and once when it is dropped: a side effect \<open>g\<close> of the argument is
  performed that often by a single log statement.\<close>

lemma arguments_evaluated_three_times:
  assumes "registered w t k" "the_backend w = Some be" "be_heap be la = Some lg"
    and "get_level lg = Inr l" "l \<le> level"
    and "steady e a g" "arg_ok a" "encoded_size a < 2 ^ 32"
    and "chan_rel (channels (be_runner be) k) cs"
  shows "user (snd (log_at level T t site la fmt [e] w)) =
     (if total_len cs + header_size + encoded_size a \<le> chan_capacity (channels (be_runner be) k)
      then g (g (g (user w))) else g (user w))"
proof -
  have "steady_all [e] [a] [g]" using assms(6) by (intro steady_all.intros)
  moreover have ok: "list_all arg_ok [a]" "args_len [a] < 2 ^ 32" using assms(7,8) by simp_all
  obtain d where "record_chunk T (clock w) site la [a] = Inr d" using record_chunk_ok [OF ok(1)] by blast
  ultimately show ?thesis
    using log_at_enabled [OF assms(1-5) _ ok assms(9), of "[e]" "[g]" T site d fmt]
    by (auto simp: count_drop_def)
qed

text \<open>A panic inside the closure, in an argument's evaluation or in a payload encoder, is contained: the
  queue keeps exactly the records it had, the half-written one is never seen, and the thread's slot is
  free again, so that the thread can log on if it catches the panic.\<close>

lemma closure_panic_contained:
  assumes "registered w t k" "get_channel k w = Some chn" "chan_rel chn cs"
    and "total_len cs + unat n \<le> chan_capacity chn"
    and "\<And>old chn'. length old = unat n \<Longrightarrow>
      f old (put_channel k chn' (set_slot t \<lparr>slot_producer = Some k, slot_borrowed = True\<rparr> w)) =
        (Inl flt, (put_channel k chn' (set_slot t \<lparr>slot_producer = Some k, slot_borrowed = True\<rparr> w))\<lparr>user := u\<rparr>)"
  shows "\<exists>w' chn'. log_write T t n f w = (Inl flt, w') \<and> registered w' t k \<and>
     get_channel k w' = Some chn' \<and> chan_rel chn' cs"
proof -
  obtain chn' where "log_write T t n f w = (Inl flt, (put_channel k chn' w)\<lparr>user := u\<rparr>)" "chan_rel chn' cs"
    using log_write_panics [OF assms(1-4), of f flt u T, OF assms(5)] by blast
  moreover have "registered ((put_channel k chn' w)\<lparr>user := u\<rparr>) t k" using assms(1) by (simp add: registered_def)
  moreover have "get_channel k ((put_channel k chn' w)\<lparr>user := u\<rparr>) = Some chn'"
    using assms(2) by (auto simp: get_channel_def put_channel_def)
  ultimately show ?thesis by blast
qed

definition logging_arg :: "log_level \<Rightarrow> target \<Rightarrow> nat \<Rightarrow> call_site \<Rightarrow> usize \<Rightarrow> ustr \<Rightarrow> arg \<Rightarrow> ('s, 'p) arg_expr" where
  "logging_arg level T t site la fmt a = bind_act (log_at level T t site la fmt []) (\<lambda>_. ret_act a)"

text \<open>C40. An argument expression that itself logs at an enabled level panics: its first evaluation, for the
  sizes, writes the inner record; the second happens inside the closure, where the thread's slot is
  borrowed. The outer record is never written, the inner one has been.\<close>

theorem nested_log_panics:
  assumes "registered w t k" "the_backend w = Some be" "be_heap be la = Some lg"
    and "get_level lg = Inr l" "l \<le> level" "l \<le> level'"
    and "arg_ok a" "encoded_size a < 2 ^ 32" "chan_rel (channels (be_runner be) k) cs"
    and "total_len cs + 2 * header_size + encoded_size a \<le> chan_capacity (channels (be_runner be) k)"
    and "record_chunk T (clock w) site' la [] = Inr inner"
  shows "\<exists>w' chn. log_at level T t site la fmt [logging_arg level' T t site' la fmt' a] w = (Inl PanicBorrow, w') \<and>
     registered w' t k \<and> get_channel k w' = Some chn \<and> chan_rel chn (cs @ [inner])"
proof -
  let ?e = "logging_arg level' T t site' la fmt' a :: ('a, 'b) arg_expr"
  let ?s = "\<lparr>slot_producer = Some k, slot_borrowed = True\<rparr>"
  obtain chn1 where chn1: "chan_capacity chn1 = chan_capacity (channels (be_runner be) k)"
    "log_at level' T t site' la fmt' [] w = (Inr (), put_channel k chn1 w)" "chan_rel chn1 (cs @ [inner])"
    using log_at_enabled [OF assms(1-4,6) steady_all.intros(1) _ _ assms(9,11), of fmt'] assms(10) by auto
  let ?w1 = "put_channel k chn1 w" and ?n = "of_nat header_size + of_nat (encoded_size a) :: usize"
  have e: "?e w = (Inr a, ?w1)" by (simp add: logging_arg_def chn1(2))
  have "add_chk T 0 (of_nat (encoded_size a)) = Inr (of_nat (encoded_size a))"
    using add_chk_ok [of 0 "encoded_size a" T] assms(8) by simp
  then have sum: "sum_sizes T [?e] 0 w = (Inr (of_nat (encoded_size a)), ?w1)" by (simp add: e)
  let ?f = "fill_record T site la (of_nat (encoded_size a)) [?e]"
  have go: "log_at level T t site la fmt [?e] w = log_write T t ?n ?f ?w1"
    using assms(2-5) sum total_size_word [OF assms(8)] by (simp add: log_at_def Let_def)
  have n: "unat ?n = header_size + encoded_size a"
    using unat_usize [of "header_size + encoded_size a"] assms(8) by (simp add: header_size_def)
  have reg: "registered ?w1 t k" using assms(1) by (simp add: registered_def)
  have get: "get_channel k ?w1 = Some chn1" using assms(2) by simp
  have len: "length inner = header_size" using assms(11) by (auto simp: record_chunk_def encode_args_def)
  have room: "total_len (cs @ [inner]) + unat ?n \<le> chan_capacity chn1" using assms(10) by (simp add: n chn1(1) len)
  have f: "?f old (put_channel k c (set_slot t ?s ?w1)) =
      (Inl PanicBorrow, (put_channel k c (set_slot t ?s ?w1))\<lparr>user := user w\<rparr>)" for old c
  proof -
    let ?w2 = "put_channel k c (set_slot t ?s ?w1)"
    obtain be2 where "the_backend ?w2 = Some be2" "be_heap be2 la = Some lg"
      using assms(2,3) by (auto simp: put_channel_def)
    then have "log_at level' T t site' la fmt' [] ?w2 = (Inl PanicBorrow, ?w2)"
      using assms(4,6) by (intro log_while_borrowed [of _ _ be2 _ lg l]) simp_all
    then have "?e ?w2 = (Inl PanicBorrow, ?w2)" by (simp add: logging_arg_def)
    moreover have "?w2\<lparr>user := user w\<rparr> = ?w2" by (simp add: put_channel_def set_slot_def)
    ultimately show ?thesis by (simp add: fill_record_def Let_def)
  qed
  from closure_panic_contained [OF reg get chn1(3) room, of ?f PanicBorrow "user w" T, OF f] go
  show ?thesis by auto
qed

theorem nested_log_panics_witness:
  "\<exists>chn w'. log_info dev_build 1 demo_site 128 (lit ''x = {}'')
     [logging_arg Info dev_build 1 demo_site 128 (lit ''inner'') (ArgU32 7)] (demo_world chn) = (Inl PanicBorrow, w')"
proof -
  obtain chn where chn: "chan_rel chn []" "131072 \<le> chan_capacity chn" using demo_empty_channel by blast
  obtain be where be: "the_backend (demo_world chn) = Some be"
    "be_heap be 128 = Some (new_logger (lit ''main'') [null_sink Info] Info)" "channels (be_runner be) 0 = chn"
    using demo_world_backend by blast
  obtain d where d: "record_chunk dev_build (clock (demo_world chn)) demo_site 128 [] = Inr d" 
    using record_chunk_ok [of "[]" dev_build "clock (demo_world chn)" demo_site 128] by auto
  have q: "chan_rel (channels (be_runner be) 0) []"
    "total_len [] + 2 * header_size + encoded_size (ArgU32 7) \<le> chan_capacity (channels (be_runner be) 0)"
    using chn be(3) by (simp_all add: header_size_def)
  have "arg_ok (ArgU32 7)" "encoded_size (ArgU32 7) < 2 ^ 32" by simp_all
  from nested_log_panics [OF demo_world_simps(1) be(1,2) demo_level demo_level(2) this q d] show ?thesis
    unfolding log_info_def by blast
qed

definition growing_arg :: "(unit, nat) arg_expr" where
  "growing_arg = (\<lambda>w. (Inr (ArgStr (if user w = 0 then [] else lit ''x'')), w\<lparr>user := Suc (user w)\<rparr>))"


text \<open>The size is cut to 32 bits before the bytes are reserved: a string of 4 GiB or more, in safe code,
  reserves too little room and is copied in full behind it, instead of being counted as dropped.\<close>

lemma oversized_argument_overruns:
  assumes "registered w t k" "the_backend w = Some be" "be_heap be la = Some lg"
    and "get_level lg = Inr l" "l \<le> level"
    and "steady e (ArgStr s) g" "2 ^ 32 \<le> encoded_size (ArgStr s)" "encoded_size (ArgStr s) < 2 ^ 64"
    and "chan_rel (channels (be_runner be) k) cs"
    and "total_len cs + header_size + encoded_size (ArgStr s) mod 2 ^ 32 \<le> chan_capacity (channels (be_runner be) k)"
  shows "fst (log_at level T t site la fmt [e] w) = Inl UbOutOfBounds"
proof -
  let ?N = "encoded_size (ArgStr s)" and ?s = "\<lparr>slot_producer = Some k, slot_borrowed = True\<rparr>"
  let ?w1 = "w\<lparr>user := g (user w)\<rparr>" and ?r = "encoded_size (ArgStr s) mod 2 ^ 32"
  let ?f = "fill_record T site la (of_nat ?r) [e]" and ?n = "of_nat header_size + of_nat ?r :: usize"
  have e: "e w = (Inr (ArgStr s), w\<lparr>user := g (user w)\<rparr>)" for w using assms(6) by (simp add: steady_def)
  have "add_chk T 0 (of_nat ?N) = Inr (of_nat ?N)" using add_chk_ok [of 0 ?N T] assms(8) by simp
  then have sum: "sum_sizes T [e] 0 w = (Inr (of_nat ?N), ?w1)" by (simp add: e del: encoded_size.simps)
  have cut: "ucast (of_nat ?N :: usize) = (of_nat ?r :: u32)"
    using assms(8) by (simp add: word_unat_eq_iff unsigned_ucast_eq unat_of_nat take_bit_eq_mod del: encoded_size.simps)
  have wide: "ucast (of_nat ?r :: u32) = (of_nat ?r :: usize)"
    by (simp add: word_unat_eq_iff unsigned_ucast_eq unat_of_nat take_bit_eq_mod del: encoded_size.simps)
  have go: "log_at level T t site la fmt [e] w = log_write T t ?n ?f ?w1"
    using assms(2-5) sum cut wide by (simp add: log_at_def Let_def del: encoded_size.simps)
  have n: "unat ?n = header_size + ?r"
    using unat_usize [of "header_size + ?r"] by (simp add: header_size_def del: encoded_size.simps)
  have reg: "registered ?w1 t k" "get_channel k ?w1 = Some (channels (be_runner be) k)"
    using assms(1,2) by (simp_all add: registered_def get_channel_def)
  have room: "total_len cs + unat ?n \<le> chan_capacity (channels (be_runner be) k)" unfolding n using assms(10) by simp
  have less: "?r < ?N" using assms(7) by (metis linorder_not_less mod_less_eq_dividend nat_less_le mod_less_divisor zero_less_numeral zero_less_power)
  obtain b where b: "encode_to T (ArgStr s) = Inr b" "length b = ?N" by (simp add: encode_str_def Let_def)
  have f: "?f old (put_channel k c (set_slot t ?s ?w1)) =
      (Inl UbOutOfBounds, (put_channel k c (set_slot t ?s ?w1))\<lparr>user := g (g (g (user w)))\<rparr>)"
    if "length old = unat ?n" for old c
    using that less n b by (simp add: fill_record_def Let_def e del: encoded_size.simps encode_to.simps)
  from log_write_panics [OF reg assms(9) room, of ?f UbOutOfBounds "g (g (g (user w)))" T, OF f] go show ?thesis
    by auto
qed

text \<open>Registration: the first call on a thread creates its queue, and every later one finds the thread
  registered and does nothing. Before \<open>start\<close> it panics, on the worker's own thread too; both leave the
  world as it was.\<close>

lemma registration_is_lazy_and_once:
  assumes "slot_borrowed (tls w t) = False"
  shows "case slot_producer (tls w t) of
      Some k \<Rightarrow> ensure_producer_registered T t w = (Inr (), w)
    | None \<Rightarrow> (case the_backend w of
        None \<Rightarrow> preallocate_thread T t w = (Inl PanicNotStarted, w)
      | Some be \<Rightarrow> (case create_producer T t be of
          Inl f \<Rightarrow> preallocate_thread T t w = (Inl f, w)
        | Inr (k, be') \<Rightarrow> (\<exists>w'. preallocate_thread T t w = (Inr (), w') \<and> registered w' t k \<and>
            the_backend w' = Some be' \<and> ensure_producer_registered T t w' = (Inr (), w') \<and>
            (\<forall>t'. t' \<noteq> t \<longrightarrow> tls w' t' = tls w t'))))"
proof (cases "slot_producer (tls w t)")
  case None
  show ?thesis
  proof (cases "the_backend w")
    case (Some be)
    have slot: "(tls w t)\<lparr>slot_producer := Some k\<rparr> = \<lparr>slot_producer = Some k, slot_borrowed = False\<rparr>" for k
      using assms by simp
    show ?thesis using None Some assms slot
      by (auto simp: preallocate_thread_def ensure_producer_registered_def get_backend_def bind_act_def registered_def
          set_slot_def split: sum.split)
  qed (use None assms in \<open>simp add: preallocate_thread_def ensure_producer_registered_def get_backend_def bind_act_def\<close>)
qed (use assms in \<open>simp add: ensure_producer_registered_def\<close>)

end
