(* ===== verification/Js_Values.thy ===== *)
theory Js_Values
  imports Rust_Num
begin

text \<open>
  The part of JavaScript that the modelled pieces of \<open>docs/mermaid.tiny.js\<close> use: values, truthiness,
  the operators \<open>||\<close> and \<open>??\<close>, conversion to a string as template literals do it, a few string
  methods, and template literals themselves. Strings are lists of code points. Of the numbers only the
  integers are here: the modelled code prints them, compares and counts. An object is the list of its
  own properties in insertion order.
\<close>

section \<open>Values\<close>

datatype js =
    JUndef
  | JNull
  | JBool bool
  | JNum int
  | JStr ustr
  | JArr "js list"
  | JObj "(ustr \<times> js) list"

fun truthy :: "js \<Rightarrow> bool" where
  "truthy JUndef = False"
| "truthy JNull = False"
| "truthy (JBool b) = b"
| "truthy (JNum n) = (n \<noteq> 0)"
| "truthy (JStr s) = (s \<noteq> [])"
| "truthy (JArr _) = True"
| "truthy (JObj _) = True"

definition nullish :: "js \<Rightarrow> bool" where
  "nullish v \<longleftrightarrow> v = JUndef \<or> v = JNull"

definition js_or :: "js \<Rightarrow> js \<Rightarrow> js" where
  "js_or a b = (if truthy a then a else b)"

definition js_coalesce :: "js \<Rightarrow> js \<Rightarrow> js" where
  "js_coalesce a b = (if nullish a then b else a)"

definition js_if :: "js \<Rightarrow> js \<Rightarrow> js \<Rightarrow> js" where
  "js_if c a b = (if truthy c then a else b)"

fun join_with :: "ustr \<Rightarrow> ustr list \<Rightarrow> ustr" where
  "join_with sep [] = []"
| "join_with sep [s] = s"
| "join_with sep (s # ss) = s @ sep @ join_with sep ss"

text \<open>\<open>String(v)\<close>; an array joins its elements with commas, and leaves the nullish ones empty.\<close>

fun to_string :: "js \<Rightarrow> ustr" where
  "to_string JUndef = lit ''undefined''"
| "to_string JNull = lit ''null''"
| "to_string (JBool b) = (if b then lit ''true'' else lit ''false'')"
| "to_string (JNum n) = show_int n"
| "to_string (JStr s) = s"
| "to_string (JArr vs) = join_with (lit '','') (map (\<lambda>v. if v = JUndef \<or> v = JNull then [] else to_string v) vs)"
| "to_string (JObj _) = lit ''[object Object]''"


section \<open>String methods\<close>

fun starts_with :: "ustr \<Rightarrow> ustr \<Rightarrow> bool" where
  "starts_with s [] = True"
| "starts_with [] (_ # _) = False"
| "starts_with (c # s) (p # ps) = (c = p \<and> starts_with s ps)"

text \<open>Where \<open>pat\<close> first occurs in \<open>s\<close>: what comes before and what comes after it.\<close>

fun split_first :: "ustr \<Rightarrow> ustr \<Rightarrow> (ustr \<times> ustr) option" where
  "split_first pat [] = (if pat = [] then Some ([], []) else None)"
| "split_first pat (c # s) =
     (if starts_with (c # s) pat then Some ([], drop (length pat) (c # s))
      else map_option (\<lambda>(pre, post). (c # pre, post)) (split_first pat s))"

definition js_includes :: "ustr \<Rightarrow> ustr \<Rightarrow> bool" where
  "js_includes s pat \<longleftrightarrow> split_first pat s \<noteq> None"

text \<open>
  The replacement text of \<open>replace\<close> with its \<open>$\<close>-sequences: \<open>$$\<close>, \<open>$&\<close>, and the parts before and
  after the match. The other ones need a regular expression and stand for themselves here.
\<close>

fun get_substitution :: "ustr \<Rightarrow> ustr \<Rightarrow> ustr \<Rightarrow> ustr \<Rightarrow> ustr" where
  "get_substitution pre pat post (d # c # r) =
     (if d \<noteq> 36 then d # get_substitution pre pat post (c # r)
      else if c = 36 then 36 # get_substitution pre pat post r
      else if c = 38 then pat @ get_substitution pre pat post r
      else if c = 96 then pre @ get_substitution pre pat post r
      else if c = 39 then post @ get_substitution pre pat post r
      else 36 # get_substitution pre pat post (c # r))"
| "get_substitution pre pat post [c] = [c]"
| "get_substitution pre pat post [] = []"

definition replace_first :: "ustr \<Rightarrow> ustr \<Rightarrow> ustr \<Rightarrow> ustr" where
  "replace_first s pat rep =
     (case split_first pat s of
        None \<Rightarrow> s
      | Some (pre, post) \<Rightarrow> pre @ get_substitution pre pat post rep @ post)"

lemma split_first_Some: "split_first pat s = Some (pre, post) \<Longrightarrow> s = pre @ pat @ post"
proof (induction s arbitrary: pre)
  case Nil
  then show ?case by (auto split: if_splits)
next
  case (Cons c s)
  have pat: "starts_with t p \<Longrightarrow> t = p @ drop (length p) t" for t p
    by (induction t p rule: starts_with.induct) auto
  show ?case
  proof (cases "starts_with (c # s) pat")
    case True
    then show ?thesis using Cons.prems pat [OF True] by auto
  next
    case False
    then show ?thesis using Cons.prems Cons.IH by auto
  qed
qed


section \<open>Template literals\<close>

text \<open>
  A template literal is its lines, each the list of its pieces: text, a character written by its code
  point, and \<open>${...}\<close> with the value of the expression.
\<close>

datatype piece = Txt string | Chr uchar | Val js

type_synonym template = "piece list list"

fun piece_str :: "piece \<Rightarrow> ustr" where
  "piece_str (Txt s) = lit s"
| "piece_str (Chr c) = [c]"
| "piece_str (Val v) = to_string v"

definition render :: "template \<Rightarrow> ustr" where
  "render lines = join_with [10] (map (\<lambda>ps. concat (map piece_str ps)) lines)"


section \<open>Balanced braces\<close>

text \<open>The depth of open braces after \<open>s\<close>; \<open>None\<close> when a brace closes what was not opened.\<close>

fun depth_after :: "nat \<Rightarrow> ustr \<Rightarrow> nat option" where
  "depth_after d [] = Some d"
| "depth_after d (c # s) =
     (if c = 123 then depth_after (Suc d) s
      else if c = 125 then (case d of 0 \<Rightarrow> None | Suc d' \<Rightarrow> depth_after d' s)
      else depth_after d s)"

definition balanced :: "ustr \<Rightarrow> bool" where
  "balanced s \<longleftrightarrow> depth_after 0 s = Some 0"

definition brace_free :: "ustr \<Rightarrow> bool" where
  "brace_free s \<longleftrightarrow> 123 \<notin> set s \<and> 125 \<notin> set s"

lemma depth_after_append: "depth_after d (s @ t) = Option.bind (depth_after d s) (\<lambda>e. depth_after e t)"
  by (induction d s rule: depth_after.induct) (auto split: nat.split)

lemma depth_after_shift: "depth_after d s = Some e \<Longrightarrow> depth_after (d + k) s = Some (e + k)"
proof (induction d s rule: depth_after.induct)
  case (2 d c s)
  then show ?case by (cases d) (auto split: if_splits)
qed simp

lemma balanced_anywhere: "balanced s \<Longrightarrow> depth_after d s = Some d"
  using depth_after_shift [of 0 s 0 d] by (simp add: balanced_def)

lemma brace_free_balanced: "brace_free s \<Longrightarrow> balanced s"
proof -
  have "brace_free s \<Longrightarrow> depth_after d s = Some d" for d
    by (induction s) (auto simp: brace_free_def)
  then show "brace_free s \<Longrightarrow> balanced s" by (simp add: balanced_def)
qed

lemma brace_free_simps [simp]:
  "brace_free []" "brace_free (s @ t) \<longleftrightarrow> brace_free s \<and> brace_free t"
  "brace_free (c # s) \<longleftrightarrow> c \<noteq> 123 \<and> c \<noteq> 125 \<and> brace_free s"
  by (auto simp: brace_free_def)

text \<open>The depth after a template whose values are balanced depends on its text alone.\<close>

fun text_depth :: "nat \<Rightarrow> string \<Rightarrow> nat option" where
  "text_depth d [] = Some d"
| "text_depth d (c # s) =
     (if c = CHR ''{'' then text_depth (Suc d) s
      else if c = CHR ''}'' then (case d of 0 \<Rightarrow> None | Suc d' \<Rightarrow> text_depth d' s)
      else text_depth d s)"

fun line_depth :: "nat \<Rightarrow> piece list \<Rightarrow> nat option" where
  "line_depth d [] = Some d"
| "line_depth d (Txt s # ps) = Option.bind (text_depth d s) (\<lambda>e. line_depth e ps)"
| "line_depth d (Chr c # ps) = (if c = 123 \<or> c = 125 then None else line_depth d ps)"
| "line_depth d (Val v # ps) = line_depth d ps"

fun template_depth :: "nat \<Rightarrow> template \<Rightarrow> nat option" where
  "template_depth d [] = Some d"
| "template_depth d (ps # lines) = Option.bind (line_depth d ps) (\<lambda>e. template_depth e lines)"

fun values_of :: "piece list \<Rightarrow> js list" where
  "values_of [] = []"
| "values_of (Val v # ps) = v # values_of ps"
| "values_of (_ # ps) = values_of ps"

definition values_balanced :: "template \<Rightarrow> bool" where
  "values_balanced lines \<longleftrightarrow> (\<forall>ps\<in>set lines. \<forall>v\<in>set (values_of ps). balanced (to_string v))"

lemma depth_after_lit: "depth_after d (lit s) = text_depth d s"
proof (induction d s rule: text_depth.induct)
  case (2 d c s)
  have "ch c = 123 \<longleftrightarrow> c = CHR ''{''" "ch c = 125 \<longleftrightarrow> c = CHR ''}''"
    using inj_ch [THEN inj_eq, of c "CHR ''{''"] inj_ch [THEN inj_eq, of c "CHR ''}''"] by (simp_all add: ch_def)
  then show ?case using 2 by (auto simp: lit_def split: nat.split)
qed (simp add: lit_def)

lemma line_depth_sound:
  "line_depth d ps = Some e \<Longrightarrow> \<forall>v\<in>set (values_of ps). balanced (to_string v) \<Longrightarrow>
   depth_after d (concat (map piece_str ps)) = Some e"
  by (induction d ps rule: line_depth.induct)
    (auto simp: depth_after_append depth_after_lit balanced_anywhere bind_eq_Some_conv split: if_splits)

lemma template_depth_sound:
  "template_depth d lines = Some e \<Longrightarrow> values_balanced lines \<Longrightarrow> depth_after d (render lines) = Some e"
proof (induction d lines rule: template_depth.induct)
  case (1 d)
  then show ?case by (simp add: render_def)
next
  case (2 d ps lines)
  obtain d' where d': "line_depth d ps = Some d'" "template_depth d' lines = Some e"
    using 2(2) by (auto simp: bind_eq_Some_conv)
  have here: "depth_after d (concat (map piece_str ps)) = Some d'"
    using line_depth_sound [OF d'(1)] 2(3) by (simp add: values_balanced_def)
  have rest: "depth_after d' (render lines) = Some e"
    using 2(1) d' 2(3) by (simp add: values_balanced_def)
  show ?case
  proof (cases lines)
    case Nil
    then show ?thesis using here d'(2) by (simp add: render_def)
  next
    case (Cons qs lines')
    then have "render (ps # lines) = concat (map piece_str ps) @ [10] @ render lines" by (simp add: render_def)
    then show ?thesis using here rest by (simp add: depth_after_append)
  qed
qed

lemma template_balanced:
  "template_depth 0 lines = Some 0 \<Longrightarrow> values_balanced lines \<Longrightarrow> balanced (render lines)"
  by (simp add: balanced_def template_depth_sound)

end
