(* ===== verification/Js_Library.thy ===== *)
theory Js_Library
  imports Js_Values
begin

text \<open>
  Functions of JavaScript on strings and maps that several of the modelled parts use, the style classes that several
  diagrams have, and what it means that a database implements an abstract one. A map is the list of its entries
  in the order of their insertion.
\<close>

section \<open>Strings\<close>

definition is_upper :: "uchar \<Rightarrow> bool" where
  "is_upper c \<longleftrightarrow> 65 \<le> c \<and> c \<le> 90"

definition js_space :: "uchar \<Rightarrow> bool" where
  "js_space c \<longleftrightarrow> 9 \<le> c \<and> c \<le> 13 \<or> c \<in> {32, 160, 5760, 8232, 8233, 8239, 8287, 12288, 65279} \<or>
     8192 \<le> c \<and> c \<le> 8202"

definition ascii_lower :: "uchar \<Rightarrow> uchar" where
  "ascii_lower c = (if is_upper c then c + 32 else c)"

text \<open>\<open>trim\<close>\<close>

definition js_trim :: "ustr \<Rightarrow> ustr" where
  "js_trim s = rev (dropWhile js_space (rev (dropWhile js_space s)))"

text \<open>\<open>replace\<close> with a global literal pattern, and \<open>split\<close> at a character.\<close>

function replace_all :: "ustr \<Rightarrow> ustr \<Rightarrow> ustr \<Rightarrow> ustr" where
  "replace_all pat rep [] = []"
| "replace_all pat rep (c # s) =
     (if pat \<noteq> [] \<and> starts_with (c # s) pat then rep @ replace_all pat rep (drop (length pat) (c # s))
      else c # replace_all pat rep s)"
  by pat_completeness auto

termination by (relation "measure (\<lambda>(_, _, s). length s)") auto

fun split_at :: "uchar \<Rightarrow> ustr \<Rightarrow> ustr list" where
  "split_at d [] = [[]]"
| "split_at d (c # s) =
     (if c = d then [] # split_at d s
      else case split_at d s of [] \<Rightarrow> [[c]] | w # ws \<Rightarrow> (c # w) # ws)"


section \<open>Maps\<close>

text \<open>\<open>Map.set\<close> keeps the place of a key that is there.\<close>

fun map_set :: "ustr \<Rightarrow> 'a \<Rightarrow> (ustr \<times> 'a) list \<Rightarrow> (ustr \<times> 'a) list" where
  "map_set k v [] = [(k, v)]"
| "map_set k v ((j, w) # m) = (if j = k then (k, v) # m else (j, w) # map_set k v m)"

text \<open>A call that changes the value of a key, when it is there.\<close>

definition map_change :: "ustr \<Rightarrow> ('a \<Rightarrow> 'a) \<Rightarrow> (ustr \<times> 'a) list \<Rightarrow> (ustr \<times> 'a) list" where
  "map_change k f m = (case map_of m k of None \<Rightarrow> m | Some v \<Rightarrow> map_set k (f v) m)"

lemma map_of_map_set: "map_of (map_set k v m) = (map_of m)(k \<mapsto> v)"
  by (induction m) auto

lemma map_set_new: "k \<notin> fst ` set m \<Longrightarrow> map_set k v m = m @ [(k, v)]"
  by (induction m) auto

lemma map_set_at: "k \<notin> fst ` set m \<Longrightarrow> map_set k v (m @ (k, w) # m') = m @ (k, v) # m'"
  by (induction m) auto

lemma map_set_keys: "k \<in> fst ` set m \<Longrightarrow> map fst (map_set k v m) = map fst m"
  by (induction m) force+

lemma map_set_same:
  "map_of m k = Some v \<Longrightarrow> f (k, w) = f (k, v) \<Longrightarrow> map f (map_set k w m) = map f m"
  by (induction m) (auto split: if_splits)

lemma map_change_same:
  "(\<And>v. f (k, g v) = f (k, v)) \<Longrightarrow> map f (map_change k g m) = map f m"
  by (auto simp: map_change_def map_set_same split: option.splits)


section \<open>Style classes\<close>

text \<open>What \<open>classDef\<close> defines: the styles of a name, and those of them for its text.\<close>

record style_class =
  sc_id :: ustr
  sc_styles :: "ustr list"
  sc_text_styles :: "ustr list"

text \<open>\<open>addClass\<close> of \<open>ErDB\<close> and \<open>defineClass\<close> of \<open>RequirementDB\<close>: their loop over the styles, and over the names\<close>

definition add_style :: "style_class \<Rightarrow> ustr \<Rightarrow> style_class" where
  "add_style n s =
     (let n' = (if js_includes s (lit ''color'')
                then n\<lparr>sc_text_styles := sc_text_styles n @ [replace_first s (lit ''fill'') (lit ''bgFill'')]\<rparr> else n) in
      n'\<lparr>sc_styles := sc_styles n' @ [s]\<rparr>)"

definition class_of :: "(ustr \<times> style_class) list \<Rightarrow> ustr \<Rightarrow> style_class" where
  "class_of classes i =
     (case map_of classes i of None \<Rightarrow> \<lparr>sc_id = i, sc_styles = [], sc_text_styles = []\<rparr> | Some n \<Rightarrow> n)"

definition define_style :: "ustr list option \<Rightarrow> (ustr \<times> style_class) list \<Rightarrow> ustr \<Rightarrow> (ustr \<times> style_class) list" where
  "define_style r classes i =
     map_set i (foldl add_style (class_of classes i) (case r of None \<Rightarrow> [] | Some ss \<Rightarrow> ss)) classes"


section \<open>Simulation\<close>

text \<open>
  A database is a state that statements change one after the other. It implements an abstract one when a relation
  holds at the start and every statement keeps it.
\<close>

locale simulation =
  fixes start :: 's and step :: "'op \<Rightarrow> 's \<Rightarrow> 's"
    and spec_start :: 'a and spec_step :: "'op \<Rightarrow> 'a \<Rightarrow> 'a"
    and implements :: "'s \<Rightarrow> 'a \<Rightarrow> bool"
  assumes at_start: "implements start spec_start"
    and at_step: "implements s a \<Longrightarrow> implements (step x s) (spec_step x a)"
begin

lemma simulated: "implements s a \<Longrightarrow> implements (foldl (\<lambda>s x. step x s) s xs) (foldl (\<lambda>a x. spec_step x a) a xs)"
  by (induction xs arbitrary: s a) (simp_all add: at_step)

lemma run_simulated: "implements (foldl (\<lambda>s x. step x s) start xs) (foldl (\<lambda>a x. spec_step x a) spec_start xs)"
  using at_start by (rule simulated)

end

end
