(* ===== verification/Mermaid_Sanitize.thy ===== *)
theory Mermaid_Sanitize
  imports Js_Library Insomni_Prelude
begin

text \<open>
  The sanitiser of \<open>docs/mermaid.tiny.js\<close>: a diagram's text may carry configuration, and
  \<open>sanitizeDirective\<close> cleans it before it is merged. It changes the object in place; here it returns
  the object as it then is, or the \<open>TypeError\<close> that JavaScript throws on the way. The set of known keys
  is computed from the default configuration, a table that is a parameter here.
\<close>

datatype js_error = TypeError


section \<open>Known keys\<close>

text \<open>\<open>keyify\<close>: the keys of an object and, without prefix, those of the objects in it.\<close>

fun keyify :: "js \<Rightarrow> ustr list" and keyify_props :: "(ustr \<times> js) list \<Rightarrow> ustr list" where
  "keyify (JObj ps) = keyify_props ps"
| "keyify _ = []"
| "keyify_props [] = []"
| "keyify_props ((i, v) # ps) =
     (case v of
        JArr _ \<Rightarrow> []
      | JObj _ \<Rightarrow> i # keyify v
      | _ \<Rightarrow> [i]) @ keyify_props ps"


section \<open>Style sheets in options\<close>

definition unbalanced_css :: ustr where
  "unbalanced_css = lit ''{ /* ERROR: Unbalanced CSS */ }''"

text \<open>What \<open>for (let i of e)\<close> runs through; \<open>None\<close> when \<open>e\<close> is not iterable.\<close>

fun iterate :: "js \<Rightarrow> js list option" where
  "iterate (JStr s) = Some (map (\<lambda>c. JStr [c]) s)"
| "iterate (JArr vs) = Some vs"
| "iterate _ = None"

text \<open>The loop of \<open>sanitizeCss\<close>, with \<open>t\<close> opening and \<open>r\<close> closing braces so far.\<close>

fun css_loop :: "nat \<Rightarrow> nat \<Rightarrow> js list \<Rightarrow> bool" where
  "css_loop t r [] = (t = r)"
| "css_loop t r (i # is) =
     (if t < r then False
      else if i = JStr [123] then css_loop (Suc t) r is
      else if i = JStr [125] then css_loop t (Suc r) is
      else css_loop t r is)"

definition sanitize_css :: "js \<Rightarrow> js_error + js" where
  "sanitize_css e =
     (case iterate e of
        None \<Rightarrow> Inl TypeError
      | Some is \<Rightarrow> Inr (if css_loop 0 0 is then e else JStr unbalanced_css))"


section \<open>Colours and theme variables\<close>

definition is_lower :: "uchar \<Rightarrow> bool" where
  "is_lower c \<longleftrightarrow> 97 \<le> c \<and> c \<le> 122"

text \<open>
  The pattern of a colour, in any case: \<open>#\<close> and three to eight hexadecimal digits, \<open>rgb(\<close> or \<open>hsl(\<close>
  up to a closing parenthesis with only digits, white space, percent signs, commas and dots between
  them, or letters only.
\<close>

definition color_args :: "ustr \<Rightarrow> bool" where
  "color_args s \<longleftrightarrow> 1 < length s \<and> last s = ch (CHR '')'') \<and>
     list_all (\<lambda>c. is_digit c \<or> js_space c \<or> c \<in> set (lit ''%,.'')) (butlast s)"

definition color_ok :: "ustr \<Rightarrow> bool" where
  "color_ok s0 \<longleftrightarrow> (let s = map ascii_lower s0 in
     (s \<noteq> [] \<and> hd s = ch (CHR ''#'') \<and> 3 \<le> length (tl s) \<and> length (tl s) \<le> 8 \<and>
        list_all (\<lambda>c. is_digit c \<or> 97 \<le> c \<and> c \<le> 102) (tl s)) \<or>
     (starts_with s (lit ''rgb('') \<or> starts_with s (lit ''hsl('')) \<and> color_args (drop 4 s) \<or>
     s \<noteq> [] \<and> list_all is_lower s)"

text \<open>
  The pattern of a theme variable: one or more letters, digits, spaces, double quotes (code point 34)
  and the punctuation below.
\<close>

definition theme_char :: "uchar \<Rightarrow> bool" where
  "theme_char c \<longleftrightarrow> is_digit c \<or> is_lower c \<or> is_upper c \<or> c = 34 \<or> c \<in> set (lit '' #%(),.;'')"

definition theme_match :: "ustr \<Rightarrow> bool" where
  "theme_match s \<longleftrightarrow> s \<noteq> [] \<and> list_all theme_char s"

definition property :: "(ustr \<times> js) list \<Rightarrow> ustr \<Rightarrow> js" where
  "property ps k = (case map_of ps k of None \<Rightarrow> JUndef | Some v \<Rightarrow> v)"

text \<open>
  One theme variable: \<open>r?.match && !r.match(pattern)\<close> empties it. Only strings have the method; an
  object with a property of that name is called and throws.
\<close>

fun clean_variable :: "js \<Rightarrow> js_error + js" where
  "clean_variable (JStr s) = Inr (JStr (if theme_match s then s else []))"
| "clean_variable (JObj qs) = (if truthy (property qs (lit ''match'')) then Inl TypeError else Inr (JObj qs))"
| "clean_variable v = Inr v"

fun sequence_all :: "('e + 'a) list \<Rightarrow> 'e + 'a list" where
  "sequence_all [] = Inr []"
| "sequence_all (m # ms) = rbind m (\<lambda>x. rbind (sequence_all ms) (\<lambda>xs. Inr (x # xs)))"

definition in_entry :: "ustr \<Rightarrow> js_error + js \<Rightarrow> js_error + ustr \<times> js" where
  "in_entry k m = rbind m (\<lambda>v. Inr (k, v))"

text \<open>
  The loop over \<open>Object.keys(e.themeVariables)\<close>. The keys of a string are its positions, and the
  assignment to one throws in strict mode; numbers and booleans have no keys.
\<close>

fun clean_theme :: "js \<Rightarrow> js_error + js" where
  "clean_theme (JObj qs) = rbind (sequence_all (map (\<lambda>(k, r). in_entry k (clean_variable r)) qs)) (\<lambda>qs'. Inr (JObj qs'))"
| "clean_theme (JArr vs) = rbind (sequence_all (map clean_variable vs)) (\<lambda>vs'. Inr (JArr vs'))"
| "clean_theme (JStr s) = (if list_all (\<lambda>c. theme_match [c]) s then Inr (JStr s) else Inl TypeError)"
| "clean_theme v = Inr v"

text \<open>\<open>nodeColors\<close>: what is no colour is deleted; in an array this leaves a hole.\<close>

fun is_color :: "js \<Rightarrow> bool" where
  "is_color (JStr s) = color_ok s"
| "is_color _ = False"

fun clean_colors :: "js \<Rightarrow> js" where
  "clean_colors (JObj qs) = JObj (filter (\<lambda>(_, v). is_color v) qs)"
| "clean_colors (JArr vs) = JArr (map (\<lambda>v. if is_color v then v else JUndef) vs)"
| "clean_colors v = v"


section \<open>The sanitiser\<close>

text \<open>\<open>known\<close> is the set of the keys of the default configuration.\<close>

definition deleted :: "(ustr \<Rightarrow> bool) \<Rightarrow> ustr \<Rightarrow> js \<Rightarrow> bool" where
  "deleted known t v \<longleftrightarrow>
     starts_with t (lit ''__'') \<or> js_includes t (lit ''proto'') \<or> js_includes t (lit ''constr'') \<or>
     \<not> known t \<or> nullish v"

definition css_options :: "ustr list" where
  "css_options = [lit ''themeCSS'', lit ''fontFamily'', lit ''altFontFamily'']"

text \<open>\<open>for (let i of r) t.includes(i) && (e[t] = sanitizeCss(e[t]))\<close>\<close>

fun sanitize_option :: "ustr list \<Rightarrow> ustr \<Rightarrow> js \<Rightarrow> js_error + js" where
  "sanitize_option [] t v = Inr v"
| "sanitize_option (i # is) t v =
     (if js_includes t i then rbind (sanitize_css v) (sanitize_option is t) else sanitize_option is t v)"

definition node_colors :: ustr where
  "node_colors = lit ''nodeColors''"

definition theme_variables :: ustr where
  "theme_variables = lit ''themeVariables''"

definition sanitize_theme :: "(ustr \<times> js) list \<Rightarrow> js_error + (ustr \<times> js) list" where
  "sanitize_theme ps = sequence_all (map (\<lambda>(t, v).
     in_entry t (if t = theme_variables \<and> truthy v then clean_theme v else Inr v)) ps)"

fun is_object :: "js \<Rightarrow> bool" where
  "is_object (JArr _) = True"
| "is_object (JObj _) = True"
| "is_object _ = False"

function (sequential) sanitize_directive :: "(ustr \<Rightarrow> bool) \<Rightarrow> js \<Rightarrow> js_error + js"
  and sanitize_elements :: "(ustr \<Rightarrow> bool) \<Rightarrow> js list \<Rightarrow> js_error + js list"
  and sanitize_props :: "(ustr \<Rightarrow> bool) \<Rightarrow> (ustr \<times> js) list \<Rightarrow> js_error + (ustr \<times> js) list" where
  "sanitize_directive known (JArr vs) = rbind (sanitize_elements known vs) (\<lambda>vs'. Inr (JArr vs'))"
| "sanitize_directive known (JObj ps) =
     rbind (sanitize_props known ps) (\<lambda>ps'. rbind (sanitize_theme ps') (\<lambda>ps''. Inr (JObj ps'')))"
| "sanitize_directive known v = Inr v"
| "sanitize_elements known [] = Inr []"
| "sanitize_elements known (v # vs) =
     rbind (sanitize_directive known v) (\<lambda>v'. rbind (sanitize_elements known vs) (\<lambda>vs'. Inr (v' # vs')))"
| "sanitize_props known [] = Inr []"
| "sanitize_props known ((t, v) # ps) =
     (if deleted known t v then sanitize_props known ps
      else rbind
        (if is_object v then if t = node_colors then Inr (clean_colors v) else sanitize_directive known v
         else sanitize_option css_options t v)
        (\<lambda>v'. rbind (sanitize_props known ps) (\<lambda>ps'. Inr ((t, v') # ps'))))"
  by pat_completeness auto

termination
  by (relation "measure (\<lambda>x. case x of
        Inl (_, v) \<Rightarrow> size v
      | Inr (Inl (_, vs)) \<Rightarrow> size_list size vs
      | Inr (Inr (_, ps)) \<Rightarrow> size_list (size_prod (\<lambda>_. 0) size) ps)") auto


section \<open>What a sanitised object is\<close>

text \<open>
  The contract, without the code's control flow: no key, at any depth, that is unknown or reaches into a
  prototype; style sheets among the options have balanced braces; node colours are colours; a theme
  variable that is a string consists of harmless characters.
\<close>

definition names_css :: "ustr \<Rightarrow> bool" where
  "names_css t \<longleftrightarrow> list_ex (js_includes t) css_options"

definition safe_option :: "ustr \<Rightarrow> js \<Rightarrow> bool" where
  "safe_option t v \<longleftrightarrow> (names_css t \<longrightarrow> (\<exists>s. v = JStr s \<and> balanced s))"

fun safe_colors :: "js \<Rightarrow> bool" where
  "safe_colors (JObj qs) = list_all (is_color \<circ> snd) qs"
| "safe_colors (JArr vs) = list_all (\<lambda>v. is_color v \<or> v = JUndef) vs"
| "safe_colors _ = True"

fun safe_variable :: "js \<Rightarrow> bool" where
  "safe_variable (JStr s) = (s = [] \<or> theme_match s)"
| "safe_variable (JObj qs) = (\<not> truthy (property qs (lit ''match'')))"
| "safe_variable _ = True"

fun safe_theme :: "js \<Rightarrow> bool" where
  "safe_theme (JObj qs) = list_all (safe_variable \<circ> snd) qs"
| "safe_theme (JArr vs) = list_all safe_variable vs"
| "safe_theme (JStr s) = list_all (\<lambda>c. theme_match [c]) s"
| "safe_theme _ = True"

fun safe_value :: "(ustr \<Rightarrow> bool) \<Rightarrow> js \<Rightarrow> bool" where
  "safe_value known (JArr vs) = (\<forall>v\<in>set vs. safe_value known v)"
| "safe_value known (JObj ps) =
     (\<forall>(t, v)\<in>set ps. \<not> deleted known t v \<and> (t = theme_variables \<longrightarrow> safe_theme v) \<and>
        (if is_object v then if t = node_colors then safe_colors v else safe_value known v
         else safe_option t v))"
| "safe_value known _ = True"

definition safe_props :: "(ustr \<Rightarrow> bool) \<Rightarrow> (ustr \<times> js) list \<Rightarrow> bool" where
  "safe_props known ps \<longleftrightarrow>
     (\<forall>(t, v)\<in>set ps. \<not> deleted known t v \<and>
        (if is_object v then if t = node_colors then safe_colors v else safe_value known v
         else safe_option t v))"

lemma safe_props_simps [simp]:
  "safe_props known []"
  "safe_props known ((t, v) # ps) \<longleftrightarrow> \<not> deleted known t v \<and>
     (if is_object v then if t = node_colors then safe_colors v else safe_value known v
      else safe_option t v) \<and> safe_props known ps"
  by (auto simp: safe_props_def)

lemma safe_value_obj:
  "safe_value known (JObj ps) \<longleftrightarrow>
   safe_props known ps \<and> (\<forall>(t, v)\<in>set ps. t = theme_variables \<longrightarrow> safe_theme v)"
  by (fastforce simp: safe_props_def split: if_splits)


subsection \<open>Style sheets\<close>

lemma css_loop_depth: "css_loop (r + d) r (map (\<lambda>c. JStr [c]) s) \<longleftrightarrow> depth_after d s = Some 0"
proof (induction s arbitrary: r d)
  case (Cons c s)
  show ?case
  proof (cases "c = 125")
    case True
    show ?thesis
    proof (cases d)
      case 0
      have "\<not> css_loop r (Suc r) (map (\<lambda>c. JStr [c]) s)" by (cases s) auto
      then show ?thesis using True 0 by simp
    next
      case (Suc d')
      then show ?thesis using True Cons [of "Suc r" d'] by simp
    qed
  next
    case False
    then show ?thesis using Cons [of r "Suc d"] Cons [of r d] by simp
  qed
qed simp

lemma unbalanced_css_balanced [simp]: "balanced unbalanced_css"
  by (simp add: balanced_def unbalanced_css_def depth_after_lit)

lemma sanitize_css_string:
  "sanitize_css (JStr s) = Inr (JStr (if balanced s then s else unbalanced_css))"
  using css_loop_depth [of 0 0 s] by (simp add: sanitize_css_def balanced_def)

lemma sanitize_css_other:
  "\<not> is_object v \<Longrightarrow> (\<And>s. v \<noteq> JStr s) \<Longrightarrow> sanitize_css v = Inl TypeError"
  by (cases v) (auto simp: sanitize_css_def)

lemma sanitize_option_string:
  "sanitize_option is t (JStr s) =
   Inr (JStr (if list_ex (js_includes t) is \<and> \<not> balanced s then unbalanced_css else s))"
proof (induction "is" arbitrary: s)
  case (Cons i "is")
  show ?case using Cons [of s] Cons [of unbalanced_css] by (simp add: sanitize_css_string)
qed simp

lemma sanitize_option_other:
  "\<not> is_object v \<Longrightarrow> (\<And>s. v \<noteq> JStr s) \<Longrightarrow>
   sanitize_option is t v = (if list_ex (js_includes t) is then Inl TypeError else Inr v)"
  by (induction "is") (auto simp: sanitize_css_other)

lemma sanitize_option_result:
  assumes "\<not> is_object v" and "sanitize_option css_options t v = Inr v'"
  shows "safe_option t v' \<and> \<not> is_object v' \<and> (nullish v' \<longrightarrow> nullish v)"
proof (cases "\<exists>s. v = JStr s")
  case True
  then show ?thesis using assms(2)
    by (auto simp: sanitize_option_string safe_option_def names_css_def nullish_def split: if_splits)
next
  case False
  then show ?thesis using assms by (auto simp: sanitize_option_other safe_option_def names_css_def split: if_splits)
qed

lemma sanitize_option_fixed:
  assumes "\<not> is_object v" and "safe_option t v"
  shows "sanitize_option css_options t v = Inr v"
proof (cases "\<exists>s. v = JStr s")
  case True
  then show ?thesis using assms by (auto simp: sanitize_option_string safe_option_def names_css_def)
next
  case False
  then show ?thesis using assms by (auto simp: sanitize_option_other safe_option_def names_css_def)
qed


subsection \<open>Colours and theme variables\<close>

lemma clean_colors_result: "is_object v \<Longrightarrow> safe_colors (clean_colors v) \<and> is_object (clean_colors v)"
  by (cases v) (auto simp: list_all_iff)

lemma clean_colors_fixed: "safe_colors v \<Longrightarrow> clean_colors v = v"
  by (cases v) (auto simp: list_all_iff intro!: filter_True map_idI)

lemma clean_variable_result:
  "clean_variable r = Inr r' \<Longrightarrow> safe_variable r' \<and> (r' = r \<or> (\<exists>s. r = JStr s \<and> r' = JStr []))"
  by (cases r) (auto split: if_splits)

lemma clean_variable_fixed: "safe_variable r \<Longrightarrow> clean_variable r = Inr r"
  by (cases r) auto

lemma sequence_all_Inr: "sequence_all ms = Inr xs \<longleftrightarrow> ms = map Inr xs"
  by (induction ms arbitrary: xs) auto

lemma sequence_all_map: "(\<And>x. x \<in> set xs \<Longrightarrow> f x = Inr (g x)) \<Longrightarrow> sequence_all (map f xs) = Inr (map g xs)"
  by (induction xs) auto

lemma sequence_all_entries:
  assumes "sequence_all (map f xs) = Inr ys" and "y \<in> set ys"
  obtains x where "x \<in> set xs" and "f x = Inr y"
proof -
  have "map f xs = map Inr ys" using assms(1) by (simp add: sequence_all_Inr)
  then have "Inr y \<in> f ` set xs" using assms(2) by (metis image_eqI list.set_map)
  then show thesis using that by auto
qed

lemma sequence_pairs:
  assumes "sequence_all (map (\<lambda>(k, r). in_entry k (f k r)) ps) = Inr ps'" and "(k, r') \<in> set ps'"
  shows "\<exists>r. (k, r) \<in> set ps \<and> f k r = Inr r'"
  by (rule sequence_all_entries [OF assms]) (auto simp: in_entry_def)

lemma clean_entry_safe:
  assumes "clean_variable r = Inr r'" and "safe_props known [(t, r)]"
  shows "safe_variable r' \<and> safe_props known [(t, r')] \<and> (safe_theme r \<longrightarrow> safe_theme r')"
  using clean_variable_result [OF assms(1)] assms(2)
  by (auto simp: deleted_def nullish_def safe_option_def balanced_def)

lemma clean_theme_object:
  assumes "is_object v" and "safe_value known v" and "clean_theme v = Inr v'"
  shows "is_object v' \<and> safe_value known v' \<and> safe_theme v'"
proof (cases v)
  case (JObj qs)
  obtain qs' where seq: "sequence_all (map (\<lambda>(k, r). in_entry k (clean_variable r)) qs) = Inr qs'"
    and v': "v' = JObj qs'" using assms(3) JObj by auto
  have "safe_variable r' \<and> safe_props known [(k, r')] \<and> (k = theme_variables \<longrightarrow> safe_theme r')"
    if mem: "(k, r') \<in> set qs'" for k r'
  proof -
    obtain r where r: "(k, r) \<in> set qs" "clean_variable r = Inr r'" using sequence_pairs [OF seq mem] by auto
    have "safe_props known [(k, r)]" "k = theme_variables \<longrightarrow> safe_theme r"
      using assms(2) JObj r(1) unfolding safe_value_obj by (auto simp: safe_props_def)
    then show ?thesis using clean_entry_safe [OF r(2)] by blast
  qed
  then show ?thesis unfolding v' safe_value_obj by (auto simp: safe_props_def list_all_iff)
next
  case (JArr vs)
  obtain vs' where seq: "sequence_all (map clean_variable vs) = Inr vs'" and v': "v' = JArr vs'"
    using assms(3) JArr by auto
  have "safe_variable r' \<and> safe_value known r'" if r': "r' \<in> set vs'" for r'
  proof -
    obtain r where r: "r \<in> set vs" "clean_variable r = Inr r'" using sequence_all_entries [OF seq r'] by blast
    then show ?thesis using clean_variable_result [OF r(2)] assms(2) JArr by auto
  qed
  then show ?thesis by (auto simp: v' list_all_iff)
qed (use assms(1) in simp_all)

lemma clean_theme_value:
  assumes "\<not> is_object v" and "clean_theme v = Inr v'"
  shows "v' = v \<and> safe_theme v"
  using assms by (cases v) (auto split: if_splits)

lemma falsy_safe_theme: "\<not> truthy v \<Longrightarrow> safe_theme v \<and> \<not> is_object v"
  by (cases v) auto

lemma clean_theme_fixed: "safe_theme v \<Longrightarrow> clean_theme v = Inr v"
proof (cases v)
  case (JObj qs)
  assume "safe_theme v"
  then have "sequence_all (map (\<lambda>(k, r). in_entry k (clean_variable r)) qs) = Inr (map id qs)"
    using JObj by (intro sequence_all_map) (auto simp: list_all_iff in_entry_def clean_variable_fixed)
  then show ?thesis using JObj by simp
next
  case (JArr vs)
  assume "safe_theme v"
  then have "sequence_all (map clean_variable vs) = Inr (map id vs)"
    using JArr by (intro sequence_all_map) (auto simp: list_all_iff clean_variable_fixed)
  then show ?thesis using JArr by simp
qed simp_all


subsection \<open>The whole object\<close>

lemma sanitize_theme_safe:
  assumes "safe_props known ps" and "sanitize_theme ps = Inr ps'"
  shows "safe_value known (JObj ps')"
proof -
  have "\<not> deleted known t' v' \<and> (t' = theme_variables \<longrightarrow> safe_theme v') \<and>
      (if is_object v' then if t' = node_colors then safe_colors v' else safe_value known v' else safe_option t' v')"
    if mem: "(t', v') \<in> set ps'" for t' v'
  proof -
    obtain v where v: "(t', v) \<in> set ps"
        "(if t' = theme_variables \<and> truthy v then clean_theme v else Inr v) = Inr v'"
      using sequence_pairs [OF assms(2) [unfolded sanitize_theme_def] mem] by auto
    have old: "safe_props known [(t', v)]" using assms(1) v(1) by (auto simp: safe_props_def)
    show ?thesis
    proof (cases "t' = theme_variables \<and> truthy v")
      case True
      have ne: "theme_variables \<noteq> node_colors" by (simp add: theme_variables_def node_colors_def)
      show ?thesis
      proof (cases "is_object v")
        case obj: True
        then have "is_object v' \<and> safe_value known v' \<and> safe_theme v'"
          using clean_theme_object [of v known v'] old v(2) True ne by simp
        then show ?thesis using old True ne by (cases v') (auto simp: deleted_def nullish_def)
      next
        case False
        then show ?thesis using clean_theme_value [of v v'] old v(2) True by auto
      qed
    next
      case False
      then show ?thesis using old v(2) falsy_safe_theme [of v] by auto
    qed
  qed
  then show ?thesis unfolding safe_value.simps by blast
qed

lemma is_object_result: "sanitize_directive known v = Inr v' \<Longrightarrow> is_object v \<Longrightarrow> is_object v'"
  by (cases v) auto

lemma sanitize_safe:
  "sanitize_directive known v = Inr v' \<Longrightarrow> safe_value known v'"
  "sanitize_elements known vs = Inr vs' \<Longrightarrow> \<forall>v\<in>set vs'. safe_value known v"
  "sanitize_props known ps = Inr ps' \<Longrightarrow> safe_props known ps'"
proof (induction known v and known vs and known ps arbitrary: v' and vs' and ps'
    rule: sanitize_directive_sanitize_elements_sanitize_props.induct)
  case (2 known ps)
  then obtain qs qs' where "sanitize_props known ps = Inr qs" "sanitize_theme qs = Inr qs'" "v' = JObj qs'"
    by auto
  then show ?case using 2(1) [of qs] sanitize_theme_safe by blast
next
  case (7 known t v ps)
  show ?case
  proof (cases "deleted known t v")
    case True
    then show ?thesis using 7 by simp
  next
    case False
    then obtain w qs where w: "(if is_object v then if t = node_colors then Inr (clean_colors v)
          else sanitize_directive known v else sanitize_option css_options t v) = Inr w"
        and qs: "sanitize_props known ps = Inr qs" and ps': "ps' = (t, w) # qs"
      using "7.prems" by auto
    have rest: "safe_props known qs" using "7.IH" False w qs by blast
    show ?thesis
    proof (cases "is_object v")
      case True
      have obj: "is_object w" using w True is_object_result clean_colors_result by (auto split: if_splits)
      then have "\<not> nullish w" by (cases w) (auto simp: nullish_def)
      moreover have "if t = node_colors then safe_colors w else safe_value known w"
        using w True clean_colors_result [of v] "7.IH"(2) [OF False True] by (auto split: if_splits)
      ultimately show ?thesis using False obj rest ps' by (simp add: deleted_def)
    next
      case False
      then have "safe_option t w \<and> \<not> is_object w \<and> (nullish w \<longrightarrow> nullish v)"
        using w sanitize_option_result [of v t w] by simp
      then show ?thesis using \<open>\<not> deleted known t v\<close> rest ps' by (auto simp: deleted_def)
    qed
  qed
qed auto

lemma sanitize_theme_fixed:
  "\<forall>(t, v)\<in>set ps. t = theme_variables \<longrightarrow> safe_theme v \<Longrightarrow> sanitize_theme ps = Inr ps"
proof -
  assume safe: "\<forall>(t, v)\<in>set ps. t = theme_variables \<longrightarrow> safe_theme v"
  have "sanitize_theme ps = Inr (map id ps)"
    unfolding sanitize_theme_def
    by (rule sequence_all_map) (use safe in \<open>auto simp: in_entry_def clean_theme_fixed\<close>)
  then show ?thesis by simp
qed

lemma safe_fixed:
  "safe_value known v \<Longrightarrow> sanitize_directive known v = Inr v"
  "\<forall>v\<in>set vs. safe_value known v \<Longrightarrow> sanitize_elements known vs = Inr vs"
  "safe_props known ps \<Longrightarrow> sanitize_props known ps = Inr ps"
proof (induction known v and known vs and known ps rule: sanitize_directive_sanitize_elements_sanitize_props.induct)
  case (2 known ps)
  then show ?case using sanitize_theme_fixed [of ps] unfolding safe_value_obj by simp
next
  case (7 known t v ps)
  then show ?case
    by (cases "is_object v"; cases "t = node_colors") (simp_all add: clean_colors_fixed sanitize_option_fixed)
qed auto


section \<open>Secure keys\<close>

text \<open>
  \<open>sanitize\<close>, run on every directive when the configuration is recomputed: options that only the site may
  set are deleted at every depth, so are keys that start with two underscores, and strings with markup.
  \<open>secure\<close> stands for the option \<open>secure\<close> of the site configuration, a list of option names (not of
  array positions).
\<close>

fun has_markup :: "js \<Rightarrow> bool" where
  "has_markup (JStr s) = (js_includes s (lit ''<'') \<or> js_includes s (lit ''>'') \<or> js_includes s (lit ''url(data:''))"
| "has_markup _ = False"

definition denied_key :: "ustr list \<Rightarrow> ustr \<Rightarrow> bool" where
  "denied_key secure t \<longleftrightarrow> t \<in> set (lit ''secure'' # secure) \<or> starts_with t (lit ''__'')"

fun deny_secure :: "ustr list \<Rightarrow> js \<Rightarrow> js" where
  "deny_secure secure (JObj ps) =
     JObj (map (\<lambda>(t, v). (t, deny_secure secure v)) (filter (\<lambda>(t, v). \<not> denied_key secure t \<and> \<not> has_markup v) ps))"
| "deny_secure secure (JArr vs) = JArr (map (\<lambda>v. if has_markup v then JUndef else deny_secure secure v) vs)"
| "deny_secure secure v = v"

text \<open>What the loop is to achieve.\<close>

fun site_only_free :: "ustr list \<Rightarrow> js \<Rightarrow> bool" where
  "site_only_free secure (JObj ps) =
     (\<forall>(t, v)\<in>set ps. \<not> denied_key secure t \<and> \<not> has_markup v \<and> site_only_free secure v)"
| "site_only_free secure (JArr vs) = (\<forall>v\<in>set vs. \<not> has_markup v \<and> site_only_free secure v)"
| "site_only_free secure _ = True"

lemma has_markup_deny [simp]: "\<not> has_markup v \<Longrightarrow> \<not> has_markup (deny_secure secure v)"
  by (cases v) auto

lemma deny_secure_free: "site_only_free secure (deny_secure secure v)"
  by (induction secure v rule: deny_secure.induct) auto

lemma deny_secure_fixed: "site_only_free secure v \<Longrightarrow> deny_secure secure v = v"
proof (induction secure v rule: deny_secure.induct)
  case (1 secure ps)
  then have "filter (\<lambda>(t, v). \<not> denied_key secure t \<and> \<not> has_markup v) ps = ps" by (intro filter_True) auto
  then show ?case using 1 by (auto intro!: map_idI)
qed (auto intro!: map_idI)


section \<open>Adding a directive\<close>

text \<open>\<open>{...tv}\<close>: the own properties of a value; the positions of an array or a string are its keys.\<close>

fun spread :: "js \<Rightarrow> (ustr \<times> js) list" where
  "spread (JObj qs) = qs"
| "spread (JArr vs) = zip (map show_nat [0..<length vs]) vs"
| "spread (JStr s) = zip (map show_nat [0..<length s]) (map (\<lambda>c. JStr [c]) s)"
| "spread _ = []"

text \<open>Assignment to a property: in place when there is one of that name, else at the end.\<close>

definition put_property :: "(ustr \<times> js) list \<Rightarrow> ustr \<Rightarrow> js \<Rightarrow> (ustr \<times> js) list" where
  "put_property ps k v =
     (if k \<in> fst ` set ps then map (\<lambda>(t, w). (t, if t = k then v else w)) ps else ps @ [(k, v)])"

definition font_family :: ustr where
  "font_family = lit ''fontFamily''"

fun member :: "js \<Rightarrow> ustr \<Rightarrow> js" where
  "member (JObj qs) k = property qs k"
| "member _ k = JUndef"

text \<open>A font family of the directive itself becomes a theme variable when there is none.\<close>

fun promote_font :: "js \<Rightarrow> js_error + js" where
  "promote_font (JObj ps) =
     (let f = property ps font_family; tv = property ps theme_variables in
      if truthy f \<and> \<not> truthy (member tv font_family)
      then Inr (JObj (put_property ps theme_variables (JObj (put_property (spread tv) font_family f))))
      else Inr (JObj ps))"
| "promote_font JUndef = Inl TypeError"
| "promote_font JNull = Inl TypeError"
| "promote_font v = Inr v"

text \<open>\<open>addDirective\<close>, up to the recomputation of the configuration: \<open>cf\<close> are the directives so far.\<close>

definition add_directive :: "(ustr \<Rightarrow> bool) \<Rightarrow> js list \<Rightarrow> js \<Rightarrow> js_error + js list" where
  "add_directive known cf e =
     rbind (sanitize_directive known e) (\<lambda>e'. rbind (promote_font e') (\<lambda>d. Inr (cf @ [d])))"

text \<open>Values whose text has balanced braces: all but arrays of unchecked strings.\<close>

fun flat :: "js \<Rightarrow> bool" where
  "flat (JArr _) = False"
| "flat _ = True"

lemma property_mem: "property ps k = v \<Longrightarrow> v \<noteq> JUndef \<Longrightarrow> (k, v) \<in> set ps"
  by (auto simp: property_def split: option.splits dest: map_of_SomeD)

lemma theme_variables_kept:
  "known theme_variables \<Longrightarrow> \<not> nullish v \<Longrightarrow> \<not> deleted known theme_variables v \<and> theme_variables \<noteq> node_colors"
  by (simp add: deleted_def theme_variables_def node_colors_def js_includes_def lit_def ch_def)

lemma put_property_mem: "(k, v) \<in> set (put_property ps k' w) \<Longrightarrow> k = k' \<and> v = w \<or> (k, v) \<in> set ps"
  by (auto simp: put_property_def split: if_splits)

lemma property_put: "property (put_property ps k v) k = v"
proof (cases "k \<in> fst ` set ps")
  case True
  then have "map_of (map (\<lambda>(t, w). (t, if t = k then v else w)) ps) k = Some v" by (induction ps) auto
  then show ?thesis using True by (simp add: property_def put_property_def)
next
  case False
  then have "map_of ps k = None" by (simp add: map_of_eq_None_iff)
  then show ?thesis using False by (simp add: property_def put_property_def map_add_def)
qed

lemma brace_free_show_nat: "brace_free (show_nat n)"
proof (induction n rule: show_nat.induct)
  case (1 n)
  have "d < 10 \<Longrightarrow> 48 + d \<noteq> 123 \<and> 48 + d \<noteq> 125" for d :: nat by auto
  then show ?case using 1 by (subst show_nat.simps) auto
qed

lemma theme_match_brace_free: "theme_match s \<Longrightarrow> brace_free s"
  by (auto simp: theme_match_def theme_char_def list_all_iff brace_free_def is_digit_def is_lower_def
      is_upper_def lit_def ch_def)

lemma flat_brace_free: "flat v \<Longrightarrow> (\<And>s. v \<noteq> JStr s) \<Longrightarrow> brace_free (to_string v)"
  by (cases v) (auto simp: lit_def ch_def show_int_def brace_free_show_nat)

lemma safe_variable_brace_free: "safe_variable v \<Longrightarrow> flat v \<Longrightarrow> brace_free (to_string v)"
  by (cases "\<exists>s. v = JStr s") (auto simp: theme_match_brace_free intro: flat_brace_free)

lemma spread_safe:
  assumes "safe_theme tv" and "(k, v) \<in> set (spread tv)"
  shows "safe_variable v"
  using assms by (cases tv) (auto simp: list_all_iff dest!: set_zip_rightD)

lemma safe_property_theme:
  "safe_value known (JObj ps) \<Longrightarrow> safe_theme (property ps theme_variables)"
  by (cases "property ps theme_variables = JUndef") (auto dest: property_mem [OF refl])

lemma safe_property_font:
  assumes "safe_value known (JObj ps)" and "truthy (property ps font_family)" and "flat (property ps font_family)"
  shows "balanced (to_string (property ps font_family))"
proof -
  let ?f = "property ps font_family"
  have mem: "(font_family, ?f) \<in> set ps" using property_mem [OF refl, of ps font_family] assms(2) by force
  have "names_css font_family" by (simp add: names_css_def css_options_def font_family_def lit_def js_includes_def)
  then have "\<not> is_object ?f \<longrightarrow> (\<exists>s. ?f = JStr s \<and> balanced s)"
    using assms(1) mem by (auto simp: safe_option_def)
  then show ?thesis using assms(3) flat_brace_free [of ?f] brace_free_balanced
    by (cases "\<exists>s. ?f = JStr s") (auto simp: is_object.simps)
qed

lemma directive_variable_safe:
  assumes "add_directive known cf e = Inr (cf @ [JObj ps])"
    and "property ps theme_variables = JObj qs" and "(k, v) \<in> set qs" and "flat v"
  shows "balanced (to_string v) \<and> (k \<noteq> font_family \<longrightarrow> brace_free (to_string v))"
proof -
  obtain e' where e': "sanitize_directive known e = Inr e'" "promote_font e' = Inr (JObj ps)"
    using assms(1) by (auto simp: add_directive_def)
  have safe: "safe_value known e'" using e'(1) by (rule sanitize_safe)
  obtain ps0 where ps0: "e' = JObj ps0" using e'(2) by (cases e') auto
  let ?f = "property ps0 font_family" and ?tv = "property ps0 theme_variables"
  have tv: "safe_theme ?tv" using safe ps0 safe_property_theme by simp
  show ?thesis
  proof (cases "truthy ?f \<and> \<not> truthy (member ?tv font_family)")
    case True
    then have "qs = put_property (spread ?tv) font_family ?f"
      using e'(2) ps0 assms(2) property_put [of ps0 theme_variables] by (auto simp: Let_def)
    then consider "k = font_family \<and> v = ?f" | "(k, v) \<in> set (spread ?tv)"
      using assms(3) put_property_mem by blast
    then show ?thesis
    proof cases
      case 1
      then show ?thesis using safe_property_font [of known ps0] safe ps0 True assms(4) by simp
    next
      case 2
      then show ?thesis using spread_safe [OF tv] safe_variable_brace_free assms(4) brace_free_balanced by blast
    qed
  next
    case False
    then have "ps = ps0" using e'(2) ps0 by (auto simp: Let_def)
    then have "(k, v) \<in> set (spread ?tv)" using assms(2,3) by simp
    then show ?thesis using spread_safe [OF tv] safe_variable_brace_free assms(4) brace_free_balanced by blast
  qed
qed


section \<open>Properties\<close>

text \<open>\<open>sanitizeCss\<close> on a string: it is kept when its braces are balanced - never closed before they are
  opened, all closed at the end - and otherwise replaced by the fixed error rule; so what comes out is
  balanced.\<close>

lemma sanitize_css_exact:
  "sanitize_css (JStr s) = Inr (JStr (if balanced s then s else unbalanced_css)) \<and>
   balanced (if balanced s then s else unbalanced_css)"
  by (simp add: sanitize_css_string)


text \<open>\<open>sanitizeDirective\<close> changes nothing in an object that is safe and does not throw on it; in particular
  cleaning twice is cleaning once.\<close>

lemma safe_is_untouched:
  "(safe_value known v \<longrightarrow> sanitize_directive known v = Inr v) \<and>
   (sanitize_directive known v = Inr v' \<longrightarrow> sanitize_directive known v' = Inr v')"
  using safe_fixed(1) sanitize_safe(1) by blast

text \<open>The check that keeps options for the site: after \<open>sanitize\<close> no such key and no text with markup is
  left at any depth, and a value free of them is returned as it is.\<close>

lemma deny_secure_exact:
  "site_only_free secure (deny_secure secure v) \<and> (site_only_free secure v \<longleftrightarrow> deny_secure secure v = v)"
  using deny_secure_free deny_secure_fixed by metis

text \<open>What the checks let through: an array among the theme variables keeps its strings whatever they are.\<close>

lemma array_variable_unchecked:
  assumes "known theme_variables" and "\<not> deleted known k (JArr [JStr s])"
    and "k \<noteq> node_colors" and "k \<noteq> theme_variables"
  shows "sanitize_directive known (JObj [(theme_variables, JObj [(k, JArr [JStr s])])]) =
           Inr (JObj [(theme_variables, JObj [(k, JArr [JStr s])])]) \<and>
         to_string (JArr [JStr s]) = s"
proof -
  have "safe_value known (JObj [(theme_variables, JObj [(k, JArr [JStr s])])])"
    using assms theme_variables_kept [of known "JObj [(k, JArr [JStr s])]"] by (simp add: nullish_def)
  from safe_fixed(1) [OF this] have "sanitize_directive known (JObj [(theme_variables, JObj [(k, JArr [JStr s])])]) =
      Inr (JObj [(theme_variables, JObj [(k, JArr [JStr s])])])" .
  then show ?thesis by (simp del: sanitize_directive.simps)
qed

text \<open>A number where a style sheet or a font family is expected makes the sanitiser throw, wherever the
  entry stands in the object.\<close>

lemma numeric_css_throws:
  assumes "names_css t" and "\<not> deleted known t (JNum n)" and "(t, JNum n) \<in> set ps"
  shows "sanitize_directive known (JObj ps) = Inl TypeError"
proof -
  have "sanitize_props known ps = Inl TypeError" using assms(3)
  proof (induction ps)
    case (Cons p ps)
    have one: "x = TypeError" for x by (cases x)
    obtain u w where p: "p = (u, w)" by (cases p)
    show ?case
    proof (cases "p = (t, JNum n)")
      case True
      then show ?thesis using assms by (simp add: sanitize_option_other names_css_def)
    next
      case False
      then have rest: "sanitize_props known ps = Inl TypeError" using Cons by auto
      then have "rbind m (\<lambda>v'. rbind (sanitize_props known ps) (\<lambda>ps'. Inr ((u, v') # ps'))) = Inl TypeError"
        for m :: "js_error + js"
        by (cases m) (simp_all add: one)
      then show ?thesis using rest unfolding p by simp
    qed
  qed simp
  then show ?thesis by simp
qed

text \<open>A configuration with one known option of each kind, for the witnesses.\<close>

definition sample_known :: "ustr \<Rightarrow> bool" where
  "sample_known t \<longleftrightarrow> t \<in> {theme_variables, font_family, lit ''mainBkg''}"


end
