(* ===== verification/Mermaid_Merge.thy ===== *)
theory Mermaid_Merge
  imports Mermaid_Sanitize
begin

text \<open>
  \<open>assignWithDepth\<close> of \<open>docs/mermaid.tiny.js\<close>, by which configurations are merged, and what merging keeps. The
  objects of the code are copied before they are merged into, as deep as merging changes them, so values
  stand for them here. Object elements of two arrays are taken to be different objects. Keys are not names
  of members of \<open>Object.prototype\<close>: \<open>sanitizeDirective\<close> deletes them, as they are unknown or reach into the
  prototype. An undefined element of an array is a hole.
\<close>

text \<open>
  What an operation throws; \<open>ArrayProperty\<close> is no exception of the code but the one place where the model
  stops: an array would get named properties, which the values here do not have.
\<close>

datatype config_error = Thrown js_error | ArrayProperty

definition rethrow :: "js_error + 'a \<Rightarrow> config_error + 'a" where
  "rethrow m = (case m of Inl x \<Rightarrow> Inl (Thrown x) | Inr v \<Rightarrow> Inr v)"

lemma rbind_InrE:
  assumes "rbind m f = Inr y"
  obtains x where "m = Inr x" and "f x = Inr y"
  using assms by auto

lemma rethrow_eq_Inr [simp]: "rethrow m = Inr v \<longleftrightarrow> m = Inr v"
  by (cases m) (auto simp: rethrow_def)


section \<open>Merging objects\<close>

text \<open>\<open>typeof v == "object"\<close>\<close>

definition typeof_object :: "js \<Rightarrow> bool" where
  "typeof_object v \<longleftrightarrow> is_object v \<or> v = JNull"

text \<open>\<open>Object.assign\<close> into the properties of an object.\<close>

definition put_all :: "(ustr \<times> js) list \<Rightarrow> (ustr \<times> js) list \<Rightarrow> (ustr \<times> js) list" where
  "put_all ps qs = foldl (\<lambda>ps (k, v). put_property ps k v) ps qs"

definition object_assign :: "js \<Rightarrow> js \<Rightarrow> config_error + js" where
  "object_assign e t =
     (case (e, t) of
        (JObj ps, JObj qs) \<Rightarrow> Inr (JObj (put_all ps qs))
      | (JArr es, JObj (q # qs)) \<Rightarrow> Inl ArrayProperty
      | _ \<Rightarrow> Inr e)"

text \<open>\<open>e.includes(s) || e.push(s)\<close> for the elements \<open>s\<close> of another array, holes skipped.\<close>

definition push_new :: "js list \<Rightarrow> js list \<Rightarrow> js list" where
  "push_new es ts = foldl (\<lambda>es s.
     if s = JUndef \<or> \<not> is_object s \<and> s \<in> set es then es else es @ [s]) es ts"

definition empty_like :: "js \<Rightarrow> js" where
  "empty_like v = (case v of JArr _ \<Rightarrow> JArr [] | _ \<Rightarrow> JObj [])"

text \<open>
  \<open>assignWithDepth(e, t, {depth, clobber})\<close>. The elements of an array \<open>t\<close> are merged one after the other into
  an \<open>e\<close> that is none; what counts then is what becomes of the object \<open>e\<close>, not what the calls return.
\<close>

function (sequential) assign :: "nat \<Rightarrow> bool \<Rightarrow> js \<Rightarrow> js \<Rightarrow> config_error + js"
  and assign_each :: "nat \<Rightarrow> bool \<Rightarrow> js \<Rightarrow> js list \<Rightarrow> config_error + js"
  and assign_props :: "nat \<Rightarrow> bool \<Rightarrow> (ustr \<times> js) list \<Rightarrow> (ustr \<times> js) list \<Rightarrow> config_error + (ustr \<times> js) list" where
  "assign depth clobber e (JArr ts) =
     (case e of JArr es \<Rightarrow> Inr (JArr (push_new es ts)) | _ \<Rightarrow> assign_each depth clobber e ts)"
| "assign depth clobber e t =
     (if e = JUndef \<or> depth = 0 then
        (if is_object e \<and> typeof_object t then object_assign e t else Inr t)
      else if t \<noteq> JUndef \<and> typeof_object e \<and> typeof_object t then
        (case t of
           JObj qs \<Rightarrow>
             (case e of
                JObj ps \<Rightarrow> rbind (assign_props depth clobber ps qs) (\<lambda>ps'. Inr (JObj ps'))
              | JArr _ \<Rightarrow> if qs = [] then Inr e else Inl ArrayProperty
              | _ \<Rightarrow> if qs = [] then Inr e else Inl (Thrown TypeError))
         | _ \<Rightarrow> Inl (Thrown TypeError))
      else Inr e)"
| "assign_each depth clobber e [] = Inr e"
| "assign_each depth clobber e (s # ts) =
     (if s = JUndef then assign_each depth clobber e ts
      else rbind (assign depth clobber e s) (\<lambda>e'.
        assign_each depth clobber (if is_object e \<and> (0 < depth \<or> typeof_object s) then e' else e) ts))"
| "assign_props depth clobber ps [] = Inr ps"
| "assign_props depth clobber ps ((s, ts) # qs) =
     (let es = property ps s in
      rbind
        (if is_object ts \<and> (es = JUndef \<or> typeof_object es) then
           rbind (assign (depth - 1) clobber (if es = JUndef then empty_like ts else es) ts)
             (\<lambda>v. Inr (put_property ps s v))
         else if clobber \<or> \<not> typeof_object es \<and> \<not> typeof_object ts then Inr (put_property ps s ts)
         else Inr ps)
        (\<lambda>ps'. assign_props depth clobber ps' qs))"
  by pat_completeness auto

termination
  by (relation "measure (\<lambda>x. case x of
        Inl (_, _, _, t) \<Rightarrow> size t
      | Inr (Inl (_, _, _, ts)) \<Rightarrow> size_list size ts
      | Inr (Inr (_, _, _, qs)) \<Rightarrow> size_list (size_prod (\<lambda>_. 0) size) qs)") auto

lemmas assign_induct = assign_assign_each_assign_props.induct [case_names 1 undef null bool num str obj 3 4 5 6]

text \<open>With the defaults, a depth of two and no clobbering; and a copy that far down.\<close>

definition merge :: "js \<Rightarrow> js \<Rightarrow> config_error + js" where
  "merge e t = assign 2 False e t"

definition clone :: "js \<Rightarrow> config_error + js" where
  "clone t = merge (JObj []) t"


section \<open>What merging keeps\<close>

lemma map_of_put_property: "map_of (put_property ps k v) = (map_of ps)(k \<mapsto> v)"
proof (cases "k \<in> fst ` set ps")
  case True
  have "map_of (map (\<lambda>(t, w). (t, if t = k then v else w)) ps) k' =
      (if k' = k then map_option (\<lambda>_. v) (map_of ps k) else map_of ps k')" for k'
    by (induction ps) auto
  moreover obtain w where "map_of ps k = Some w" using True by (metis map_of_eq_None_iff not_None_eq)
  ultimately show ?thesis using True by (simp add: put_property_def fun_eq_iff)
next
  case False
  then have "map_of ps k = None" by (simp add: map_of_eq_None_iff)
  then show ?thesis using False by (auto simp: put_property_def fun_eq_iff map_add_def split: option.splits)
qed

lemma property_put_property [simp]:
  "property (put_property ps k v) k' = (if k' = k then v else property ps k')"
  by (simp add: property_def map_of_put_property)

lemma put_all_simps [simp]:
  "put_all ps [] = ps" "put_all ps ((k, v) # qs) = put_all (put_property ps k v) qs"
  by (simp_all add: put_all_def)

lemma property_put_all: "k \<notin> fst ` set qs \<Longrightarrow> property (put_all ps qs) k = property ps k"
  by (induction qs arbitrary: ps) auto

text \<open>What the loop over the keys does to one of them.\<close>

definition assign_prop :: "nat \<Rightarrow> bool \<Rightarrow> (ustr \<times> js) list \<Rightarrow> ustr \<Rightarrow> js \<Rightarrow> config_error + (ustr \<times> js) list" where
  "assign_prop depth clobber ps s ts =
     (let es = property ps s in
      if is_object ts \<and> (es = JUndef \<or> typeof_object es) then
        rbind (assign (depth - 1) clobber (if es = JUndef then empty_like ts else es) ts) (\<lambda>v. Inr (put_property ps s v))
      else if clobber \<or> \<not> typeof_object es \<and> \<not> typeof_object ts then Inr (put_property ps s ts)
      else Inr ps)"

lemmas assign_prop_unfold = assign_prop_def [unfolded Let_def]

lemma assign_props_Cons:
  "assign_props depth clobber ps ((s, ts) # qs) =
     rbind (assign_prop depth clobber ps s ts) (\<lambda>ps'. assign_props depth clobber ps' qs)"
  by (simp add: assign_prop_def Let_def)

lemma assign_prop_cases:
  assumes "assign_prop depth clobber ps s ts = Inr ps1"
  obtains (merged) v where "is_object ts" and "property ps s = JUndef \<or> typeof_object (property ps s)"
      and "assign (depth - 1) clobber (if property ps s = JUndef then empty_like ts else property ps s) ts = Inr v"
      and "ps1 = put_property ps s v"
    | (put) "clobber \<or> \<not> typeof_object (property ps s) \<and> \<not> typeof_object ts" and "ps1 = put_property ps s ts"
    | (kept) "ps1 = ps" and "typeof_object (property ps s) \<or> typeof_object ts"
proof (cases "is_object ts \<and> (property ps s = JUndef \<or> typeof_object (property ps s))")
  case True
  then show ?thesis using assms merged by (auto simp: assign_prop_def Let_def)
next
  case False
  then show ?thesis using assms [unfolded assign_prop_unfold if_not_P [OF False]] put kept by (metis sum.inject(2))
qed

text \<open>
  \<open>keeps n P\<close>: the properties named by \<open>P\<close> are the same in the result, and so they are, \<open>n\<close> levels down, in
  the objects that are properties.
\<close>

primrec keeps :: "nat \<Rightarrow> (ustr \<Rightarrow> bool) \<Rightarrow> js \<Rightarrow> js \<Rightarrow> bool" where
  "keeps 0 P e e' \<longleftrightarrow> (\<forall>ps. e = JObj ps \<longrightarrow> (\<exists>ps'. e' = JObj ps' \<and> (\<forall>k. P k \<longrightarrow> property ps' k = property ps k)))"
| "keeps (Suc n) P e e' \<longleftrightarrow> (\<forall>ps. e = JObj ps \<longrightarrow> (\<exists>ps'. e' = JObj ps' \<and>
     (\<forall>k. P k \<longrightarrow> property ps' k = property ps k) \<and> (\<forall>k. keeps n P (property ps k) (property ps' k))))"

lemma keeps_refl [simp]: "keeps n P e e"
  by (induction n arbitrary: e) auto

lemma keeps_trans: "keeps n P a b \<Longrightarrow> keeps n P b c \<Longrightarrow> keeps n P a c"
proof (induction n arbitrary: a b c)
  case (Suc n)
  then show ?case by (fastforce simp del: split_paired_All)
qed fastforce

lemma keeps_no_object: "(\<And>ps. e \<noteq> JObj ps) \<Longrightarrow> keeps n P e e'"
  by (cases n) auto

lemma keeps_object:
  "keeps (Suc n) P (JObj ps) (JObj ps') \<longleftrightarrow>
     (\<forall>k. P k \<longrightarrow> property ps' k = property ps k) \<and> (\<forall>k. keeps n P (property ps k) (property ps' k))"
  by auto

lemma keeps_put:
  "\<not> P s \<Longrightarrow> keeps n P (property ps s) v \<Longrightarrow> keeps (Suc n) P (JObj ps) (JObj (put_property ps s v))"
  by simp

lemma object_assign_keeps:
  assumes "object_assign e t = Inr e'" and "site_only_free secure t"
  shows "keeps 0 (denied_key secure) e e'"
proof -
  have "property (put_all ps qs) k = property ps k" if "t = JObj qs" "denied_key secure k" for ps qs k
    using property_put_all [of k qs ps] assms(2) that by fastforce
  then show ?thesis using assms by (auto simp: object_assign_def split: js.splits list.splits)
qed

text \<open>Merging in what is free of site-only keys keeps the values of those keys.\<close>

lemma assign_keeps:
  "assign depth clobber e t = Inr e' \<Longrightarrow> \<not> clobber \<Longrightarrow> site_only_free secure t \<Longrightarrow> 0 < depth \<or> typeof_object t \<Longrightarrow>
    keeps depth (denied_key secure) e e'"
  "assign_each depth clobber e ts = Inr e' \<Longrightarrow> \<not> clobber \<Longrightarrow> \<forall>t\<in>set ts. site_only_free secure t \<Longrightarrow>
    keeps depth (denied_key secure) e e'"
  "assign_props depth clobber ps qs = Inr ps' \<Longrightarrow> \<not> clobber \<Longrightarrow> 0 < depth \<Longrightarrow>
    site_only_free secure (JObj qs) \<Longrightarrow>
    keeps depth (denied_key secure) (JObj ps) (JObj ps')"
proof (induction depth clobber e t and depth clobber e ts and depth clobber ps qs
    arbitrary: e' and e' and ps' rule: assign_induct)
  case (1 depth clobber e ts)
  then show ?case by (cases e) (auto intro: keeps_no_object)
next
  case (4 depth clobber e s ts)
  show ?case
  proof (cases "s = JUndef")
    case False
    then obtain e1 where e1: "assign depth clobber e s = Inr e1"
        "assign_each depth clobber (if is_object e \<and> (0 < depth \<or> typeof_object s) then e1 else e) ts = Inr e'"
      using 4(4) by auto
    have "keeps depth (denied_key secure) e (if is_object e \<and> (0 < depth \<or> typeof_object s) then e1 else e)"
      using 4(2) [OF False e1(1)] 4(5,6) by auto
    moreover have "keeps depth (denied_key secure) (if is_object e \<and> (0 < depth \<or> typeof_object s) then e1 else e) e'"
      using 4(3) [OF False e1(1,2)] 4(5,6) by auto
    ultimately show ?thesis by (rule keeps_trans)
  qed (use 4 in auto)
next
  case (6 depth clobber ps s ts qs)
  let ?es = "property ps s" and ?P = "denied_key secure"
  let ?d = "depth - 1"
  have d: "depth = Suc ?d" using 6(5) by simp
  have s: "\<not> ?P s" and free: "site_only_free secure ts" using 6(6) by auto
  obtain ps1 where step: "assign_prop depth clobber ps s ts = Inr ps1"
    and rest: "assign_props depth clobber ps1 qs = Inr ps'"
    using 6(3) unfolding assign_props_Cons by (rule rbind_InrE) (rule that)
  note put = keeps_put [where n = ?d and P = ?P and s = s, folded d]
  from step have "keeps depth ?P (JObj ps) (JObj ps1)"
  proof (cases rule: assign_prop_cases)
    case (merged v)
    have "keeps ?d ?P ?es v"
    proof (cases "?es = JUndef")
      case False
      then show ?thesis using 6(1) [OF refl] merged 6(4) free by (simp add: typeof_object_def)
    qed (auto intro: keeps_no_object)
    then show ?thesis unfolding merged(4) by (intro put s)
  next
    case put
    then have "keeps ?d ?P ?es ts" using 6(4) by (intro keeps_no_object) (auto simp: typeof_object_def)
    then show ?thesis unfolding put(2) using \<open>\<not> ?P s\<close> keeps_put [where n = ?d and P = ?P and s = s] d by metis
  qed simp
  moreover have "keeps depth ?P (JObj ps1) (JObj ps')"
    using 6(2) [OF refl step [unfolded assign_prop_unfold] rest 6(4,5)] 6(6) by simp
  ultimately show ?case by (rule keeps_trans)
qed (auto simp: typeof_object_def keeps_no_object intro: object_assign_keeps split: if_splits js.splits)

text \<open>Values that a directive may have after cleaning are closed under merging.\<close>

definition clean_value :: "ustr list \<Rightarrow> js \<Rightarrow> bool" where
  "clean_value secure v \<longleftrightarrow> \<not> has_markup v \<and> site_only_free secure v"

definition clean_props :: "ustr list \<Rightarrow> (ustr \<times> js) list \<Rightarrow> bool" where
  "clean_props secure ps \<longleftrightarrow> (\<forall>(t, v)\<in>set ps. \<not> denied_key secure t \<and> clean_value secure v)"

lemma clean_simps [simp]:
  "clean_value secure JUndef" "clean_value secure JNull"
  "clean_value secure (JArr vs) \<longleftrightarrow> list_all (clean_value secure) vs"
  "clean_value secure (JObj ps) \<longleftrightarrow> clean_props secure ps"
  "clean_props secure []"
  "clean_props secure ((t, v) # ps) \<longleftrightarrow> \<not> denied_key secure t \<and> clean_value secure v \<and> clean_props secure ps"
  by (auto simp: clean_value_def clean_props_def list_all_iff)

lemma clean_property: "clean_props secure ps \<Longrightarrow> clean_value secure (property ps k)"
  by (cases "property ps k = JUndef") (use property_mem [OF refl, of ps k] in \<open>auto simp: clean_props_def\<close>)

lemma clean_put:
  "clean_props secure ps \<Longrightarrow> \<not> denied_key secure k \<Longrightarrow> clean_value secure v \<Longrightarrow> clean_props secure (put_property ps k v)"
  using put_property_mem unfolding clean_props_def by fastforce

lemma clean_put_all: "clean_props secure ps \<Longrightarrow> clean_props secure qs \<Longrightarrow> clean_props secure (put_all ps qs)"
  by (induction qs arbitrary: ps) (auto simp: clean_put)

lemma push_new_simps [simp]:
  "push_new es [] = es"
  "push_new es (s # ts) = push_new (if s = JUndef \<or> \<not> is_object s \<and> s \<in> set es then es else es @ [s]) ts"
  by (simp_all add: push_new_def)

lemma clean_push_new:
  "list_all (clean_value secure) es \<Longrightarrow> list_all (clean_value secure) ts \<Longrightarrow> list_all (clean_value secure) (push_new es ts)"
  by (induction ts arbitrary: es) auto

lemma assign_primitive:
  "\<not> is_object t \<Longrightarrow> assign depth clobber e t = Inr e' \<Longrightarrow> e' = e \<or> e' = t"
  by (cases t) (auto simp: typeof_object_def object_assign_def split: if_splits js.splits)

lemma assign_JObj:
  "assign depth clobber (JObj ps) (JObj qs) =
     (if depth = 0 then Inr (JObj (put_all ps qs))
      else rbind (assign_props depth clobber ps qs) (\<lambda>ps'. Inr (JObj ps')))"
  by (simp add: typeof_object_def object_assign_def)

lemma assign_no_JObj:
  "assign depth clobber e (JObj qs) = Inr e' \<Longrightarrow> (\<And>ps. e \<noteq> JObj ps) \<Longrightarrow> e' = e \<or> e' = JObj qs"
  by (cases e) (auto simp: typeof_object_def object_assign_def split: if_splits list.splits)

lemma assign_clean:
  "assign depth clobber e t = Inr e' \<Longrightarrow> clean_value secure e \<Longrightarrow> clean_value secure t \<Longrightarrow> clean_value secure e'"
  "assign_each depth clobber e ts = Inr e' \<Longrightarrow> clean_value secure e \<Longrightarrow> list_all (clean_value secure) ts \<Longrightarrow>
    clean_value secure e'"
  "assign_props depth clobber ps qs = Inr ps' \<Longrightarrow> clean_props secure ps \<Longrightarrow> clean_props secure qs \<Longrightarrow>
    clean_props secure ps'"
proof (induction depth clobber e t and depth clobber e ts and depth clobber ps qs
    arbitrary: e' and e' and ps' rule: assign_induct)
  case (1 depth clobber e ts)
  then show ?case by (cases e) (auto simp: clean_push_new)
next
  case (obj depth clobber e qs)
  show ?case
  proof (cases "\<exists>ps. e = JObj ps")
    case True
    then obtain ps where e: "e = JObj ps" by blast
    show ?thesis
    proof (cases "depth = 0")
      case False
      then obtain ps' where "assign_props depth clobber ps qs = Inr ps'" "e' = JObj ps'"
        using obj(2) unfolding e assign_JObj by auto
      then show ?thesis using obj(1) [of qs ps] obj(3,4) e False by (simp add: typeof_object_def)
    qed (use obj e in \<open>auto simp: assign_JObj clean_put_all simp del: assign.simps\<close>)
  next
    case False
    then show ?thesis using assign_no_JObj [OF obj(2)] obj(3,4) by auto
  qed
next
  case (4 depth clobber e s ts)
  show ?case
  proof (cases "s = JUndef")
    case False
    then obtain e1 where e1: "assign depth clobber e s = Inr e1"
        "assign_each depth clobber (if is_object e \<and> (0 < depth \<or> typeof_object s) then e1 else e) ts = Inr e'"
      using 4(4) by auto
    then show ?thesis using 4(2) [OF False e1(1)] 4(3) [OF False e1] 4(5,6) by (simp split: if_splits)
  qed (use 4 in auto)
next
  case (6 depth clobber ps s ts qs)
  let ?es = "property ps s"
  obtain ps1 where step: "assign_prop depth clobber ps s ts = Inr ps1"
    and rest: "assign_props depth clobber ps1 qs = Inr ps'"
    using 6(3) unfolding assign_props_Cons by (rule rbind_InrE) (rule that)
  have s: "\<not> denied_key secure s" "clean_value secure ts" "clean_props secure qs" using 6(5) by auto
  from step have "clean_props secure ps1"
  proof (cases rule: assign_prop_cases)
    case (merged v)
    have "clean_value secure (if ?es = JUndef then empty_like ts else ?es)"
      using clean_property [OF 6(4)] by (simp add: empty_like_def split: js.splits)
    then show ?thesis using 6(1) [OF refl _ merged(3)] merged(1,2) s clean_put [OF 6(4)] by (simp add: merged(4))
  qed (use clean_put [OF 6(4) s(1,2)] 6(4) in auto)
  then show ?case using 6(2) [OF refl step [unfolded assign_prop_unfold] rest] s(3) by simp
qed (auto simp del: assign.simps dest!: assign_primitive [rotated])

text \<open>An object stays one, whatever is merged into it.\<close>

fun plain_object :: "js \<Rightarrow> bool" where
  "plain_object (JObj _) = True"
| "plain_object _ = False"

lemma plain_object_iff: "plain_object e \<longleftrightarrow> (\<exists>ps. e = JObj ps)"
  by (cases e) auto

lemma plain_object_is_object [simp]: "plain_object e \<Longrightarrow> is_object e"
  by (cases e) auto

lemma assign_primitive_object:
  "assign depth clobber e t = Inr e' \<Longrightarrow> plain_object e \<Longrightarrow> \<not> is_object t \<Longrightarrow> 0 < depth \<or> typeof_object t \<Longrightarrow> e' = e"
  by (cases t; cases e) (auto simp: typeof_object_def object_assign_def split: if_splits)

lemma assign_object:
  "assign depth clobber e t = Inr e' \<Longrightarrow> plain_object e \<Longrightarrow> 0 < depth \<or> typeof_object t \<Longrightarrow> plain_object e'"
  "assign_each depth clobber e ts = Inr e' \<Longrightarrow> plain_object e \<Longrightarrow> plain_object e'"
  "assign_props depth clobber ps qs = Inr ps' \<Longrightarrow> True"
proof (induction depth clobber e t and depth clobber e ts and depth clobber ps qs
    arbitrary: e' and e' and ps' rule: assign_induct)
  case (4 depth clobber e s ts)
  show ?case
  proof (cases "s = JUndef")
    case False
    then obtain e1 where e1: "assign depth clobber e s = Inr e1"
        "assign_each depth clobber (if is_object e \<and> (0 < depth \<or> typeof_object s) then e1 else e) ts = Inr e'"
      using 4(4) by auto
    then show ?thesis using 4(2) [OF False e1(1)] 4(3) [OF False e1] 4(5) by (simp split: if_splits)
  qed (use 4 in auto)
next
  case (1 depth clobber e ts)
  then show ?case by (cases e) auto
next
  case (obj depth clobber e qs)
  then obtain ps where "e = JObj ps" by (auto simp: plain_object_iff)
  then show ?case using obj(2) unfolding assign_JObj by (auto simp: object_assign_def split: if_splits)
next
  case (undef depth clobber e)
  show ?case using assign_primitive_object [OF undef(2,3) _ undef(4)] undef(3) by simp
next
  case (null depth clobber e)
  show ?case using assign_primitive_object [OF null(2,3) _ null(4)] null(3) by simp
next
  case (bool depth clobber e v)
  show ?case using assign_primitive_object [OF bool(2,3) _ bool(4)] bool(3) by simp
next
  case (num depth clobber e v)
  show ?case using assign_primitive_object [OF num(2,3) _ num(4)] num(3) by simp
next
  case (str depth clobber e v)
  show ?case using assign_primitive_object [OF str(2,3) _ str(4)] str(3) by simp
next
  case (3 depth clobber e)
  then show ?case by simp
qed (rule TrueI)+

lemma merge_object: "merge e t = Inr e' \<Longrightarrow> plain_object e \<Longrightarrow> plain_object e'"
  unfolding merge_def by (erule assign_object) auto

lemma clone_object: "clone t = Inr e \<Longrightarrow> plain_object e"
  unfolding clone_def by (erule merge_object) simp

lemma markup_string: "has_markup t \<Longrightarrow> \<exists>s. t = JStr s"
  by (cases t) auto

lemma merge_clean:
  "merge e t = Inr e' \<Longrightarrow> plain_object e \<Longrightarrow> clean_value secure e \<Longrightarrow> site_only_free secure t \<Longrightarrow> clean_value secure e'"
proof (cases "\<exists>s. t = JStr s")
  case True
  then show "merge e t = Inr e' \<Longrightarrow> plain_object e \<Longrightarrow> clean_value secure e \<Longrightarrow> clean_value secure e'"
    by (auto simp: merge_def typeof_object_def plain_object_iff)
next
  case False
  then show "merge e t = Inr e' \<Longrightarrow> clean_value secure e \<Longrightarrow> site_only_free secure t \<Longrightarrow> clean_value secure e'"
    unfolding merge_def by (elim assign_clean(1)) (auto simp: clean_value_def simp del: clean_simps dest: markup_string)
qed


section \<open>Which value of an option wins\<close>

definition scalar_at :: "ustr \<Rightarrow> (ustr \<times> js) list \<Rightarrow> bool" where
  "scalar_at k ps \<longleftrightarrow> (\<forall>v. (k, v) \<in> set ps \<longrightarrow> \<not> typeof_object v)"

text \<open>A scalar replaces a scalar, or makes a new property; the last one of a name counts.\<close>

lemma assign_props_scalar:
  "assign_props depth False ps qs = Inr ps' \<Longrightarrow> \<not> typeof_object (property ps k) \<Longrightarrow> scalar_at k qs \<Longrightarrow>
   map_of ps' k = (case map_of (rev qs) k of None \<Rightarrow> map_of ps k | Some v \<Rightarrow> Some v)"
proof (induction qs arbitrary: ps)
  case (Cons q qs)
  obtain s ts where q: "q = (s, ts)" by (cases q)
  obtain ps1 where step: "assign_prop depth False ps s ts = Inr ps1" and rest: "assign_props depth False ps1 qs = Inr ps'"
    using Cons.prems(1) unfolding q assign_props_Cons by (rule rbind_InrE) (rule that)
  have qs: "scalar_at k qs" and ts: "s = k \<Longrightarrow> \<not> typeof_object ts" using Cons.prems(3) by (auto simp: scalar_at_def q)
  have here: "map_of ps1 k = (if s = k then Some ts else map_of ps k)"
    using step Cons.prems(2) ts
    by (cases rule: assign_prop_cases) (auto simp: map_of_put_property typeof_object_def)
  then have "\<not> typeof_object (property ps1 k)"
    using Cons.prems(2) ts by (auto simp: property_def split: if_splits)
  then show ?case using Cons.IH [OF rest _ qs] here by (auto simp: q map_add_def split: option.splits)
qed (simp add: map_of_eq_None_iff)

lemma merge_scalar:
  assumes "merge (JObj ps) (JObj qs) = Inr e'" and "\<not> typeof_object (property ps k)" and "scalar_at k qs"
  shows "\<exists>ps'. e' = JObj ps' \<and> map_of ps' k = (case map_of (rev qs) k of None \<Rightarrow> map_of ps k | Some v \<Rightarrow> Some v)"
  using assms assign_props_scalar [OF _ assms(2,3)] unfolding merge_def assign_JObj by auto

lemma map_of_rev_distinct: "distinct (map fst xs) \<Longrightarrow> map_of (rev xs) = map_of xs"
proof (induction xs)
  case (Cons x xs)
  then have "map_of xs (fst x) = None" by (simp add: map_of_eq_None_iff)
  then show ?case using Cons by (cases x) (auto simp: map_add_def fun_eq_iff split: option.splits)
qed simp

lemma distinct_put: "distinct (map fst ps) \<Longrightarrow> distinct (map fst (put_property ps k v))"
  by (auto simp: put_property_def comp_def case_prod_beta)

lemma assign_props_distinct:
  "assign_props depth clobber ps qs = Inr ps' \<Longrightarrow> distinct (map fst ps) \<Longrightarrow> distinct (map fst ps')"
proof (induction qs arbitrary: ps)
  case (Cons q qs)
  obtain s ts where q: "q = (s, ts)" by (cases q)
  obtain ps1 where step: "assign_prop depth clobber ps s ts = Inr ps1" and rest: "assign_props depth clobber ps1 qs = Inr ps'"
    using Cons.prems(1) unfolding q assign_props_Cons by (rule rbind_InrE) (rule that)
  have "distinct (map fst ps1)"
    using step Cons.prems(2) by (cases rule: assign_prop_cases) (simp_all add: distinct_put)
  then show ?case using Cons.IH [OF rest] by simp
qed simp

text \<open>An object without repeated keys is merged into an empty one and then into the site's configuration.\<close>

lemma merge_directive_scalar:
  assumes "merge (JObj []) (JObj ds) = Inr i" and "merge (JObj ps) i = Inr r" and "scalar_at k ds"
    and "\<not> typeof_object (property ps k)"
  shows "member r k = (case map_of (rev ds) k of None \<Rightarrow> property ps k | Some v \<Rightarrow> v)"
proof -
  have "\<not> typeof_object (property [] k)" by (simp add: property_def typeof_object_def)
  then obtain os where i: "i = JObj os" "map_of os k = map_of (rev ds) k"
    using merge_scalar [OF assms(1) _ assms(3)] by (auto split: option.splits)
  have "distinct (map fst os)"
    using assms(1) assign_props_distinct unfolding merge_def assign_JObj i(1) by fastforce
  then have rev: "map_of (rev os) k = map_of os k" by (simp add: map_of_rev_distinct)
  have "(k, v) \<in> set os \<Longrightarrow> (k, v) \<in> set ds" for v
    using i(2) \<open>distinct (map fst os)\<close> map_of_SomeD [of "rev ds" k v] by auto
  then have sc: "scalar_at k os" using assms(3) by (auto simp: scalar_at_def)
  obtain rs where "r = JObj rs" "map_of rs k = (case map_of os k of None \<Rightarrow> map_of ps k | Some v \<Rightarrow> Some v)"
    using merge_scalar [OF assms(2)[unfolded i(1)] assms(4) sc] rev by auto
  then show ?thesis using i(2) by (auto simp: property_def split: option.splits)
qed


end
