(* ===== verification/Mermaid_Config.thy ===== *)
theory Mermaid_Config
  imports Mermaid_Merge
begin

text \<open>
  The configuration of \<open>docs/mermaid.tiny.js\<close>: the site configuration, the directives of a diagram and the
  configuration in force, which is recomputed from them. What an operation that throws leaves behind is not
  modelled; the next diagram resets it.
\<close>

section \<open>Themes\<close>

text \<open>
  The themes \<open>Ua\<close>. Each is a class of the same shape: the constructor sets the initial variables, and
  \<open>calculate\<close> overrides them, derives the others and overrides again, so that derived values do not replace
  the ones asked for. The colours themselves come from the colour library: what the constructor sets and
  \<open>updateColors\<close> derives are parameters.
\<close>

record theme_class =
  tc_initial :: "(ustr \<times> js) list"
  tc_update :: "(ustr \<times> js) list \<Rightarrow> config_error + (ustr \<times> js) list"

type_synonym theme_classes = "ustr \<Rightarrow> theme_class"

definition update_colors :: ustr where
  "update_colors = lit ''updateColors''"

definition calculate :: "theme_class \<Rightarrow> js \<Rightarrow> config_error + js" where
  "calculate T t =
     (if \<not> typeof_object t then rbind (tc_update T (tc_initial T)) (\<lambda>this. Inr (JObj this))
      else if t = JNull then Inl (Thrown TypeError)
      else let r = spread t in
        if update_colors \<in> fst ` set r then Inl (Thrown TypeError)
        else rbind (tc_update T (put_all (tc_initial T) r)) (\<lambda>this. Inr (JObj (put_all this r))))"

definition theme_names :: "ustr list" where
  "theme_names = map lit
     [''base'', ''dark'', ''default'', ''forest'', ''neutral'', ''neo'', ''neo-dark'', ''redux'', ''redux-dark'',
      ''redux-color'', ''redux-dark-color'']"

text \<open>\<open>Ua\<close> is a plain object, so it has the members of \<open>Object.prototype\<close> too, none of them a theme.\<close>

definition prototype_members :: "ustr list" where
  "prototype_members = map lit
     [''constructor'', ''__defineGetter__'', ''__defineSetter__'', ''hasOwnProperty'', ''__lookupGetter__'',
      ''__lookupSetter__'', ''isPrototypeOf'', ''propertyIsEnumerable'', ''toString'', ''valueOf'', ''__proto__'',
      ''toLocaleString'']"

text \<open>\<open>k in Ua\<close> and \<open>Ua[k].getThemeVariables(t)\<close>\<close>

definition in_themes :: "ustr \<Rightarrow> bool" where
  "in_themes k \<longleftrightarrow> k \<in> set theme_names \<or> k \<in> set prototype_members"

definition get_theme_variables :: "theme_classes \<Rightarrow> ustr \<Rightarrow> js \<Rightarrow> config_error + js" where
  "get_theme_variables C k t = (if k \<in> set theme_names then calculate (C k) t else Inl (Thrown TypeError))"


section \<open>The configuration in force\<close>

text \<open>\<open>pc\<close>, \<open>Kn\<close>, \<open>Cf\<close>, \<open>xg\<close> and \<open>Q7\<close>\<close>

record config_state =
  default_config :: js
  site_config :: js
  directives :: "js list"
  current_config :: js
  initialize_config :: js

definition theme_key :: ustr where
  "theme_key = lit ''theme''"

text \<open>\<open>Kn.secure ?? []\<close> spread into an array of keys\<close>

definition secure_names :: "js \<Rightarrow> config_error + ustr list" where
  "secure_names site =
     (let v = member site (lit ''secure'') in
      if nullish v then Inr []
      else case iterate v of None \<Rightarrow> Inl (Thrown TypeError) | Some vs \<Rightarrow> Inr (map to_string vs))"

text \<open>\<open>sanitize\<close> on a whole directive; deleting a character of a string throws.\<close>

definition deny_directive :: "js \<Rightarrow> js \<Rightarrow> config_error + js" where
  "deny_directive site e =
     (if \<not> truthy e then Inr e
      else rbind (secure_names site) (\<lambda>secure.
        case e of
          JStr s \<Rightarrow> if ch (CHR ''<'') \<in> set s \<or> ch (CHR ''>'') \<in> set s then Inl (Thrown TypeError) else Inr e
        | _ \<Rightarrow> Inr (deny_secure secure e)))"

text \<open>The loop of \<open>updateCurrentConfig\<close> over the directives, which cleans and merges them.\<close>

fun merge_directives :: "js \<Rightarrow> js \<Rightarrow> js list \<Rightarrow> config_error + js list \<times> js" where
  "merge_directives site i [] = Inr ([], i)"
| "merge_directives site i (n # ns) =
     rbind (deny_directive site n) (\<lambda>n'.
     rbind (merge i n') (\<lambda>i'.
     rbind (merge_directives site i' ns) (\<lambda>(ns', i''). Inr (n' # ns', i''))))"

fun set_member :: "js \<Rightarrow> ustr \<Rightarrow> js \<Rightarrow> js" where
  "set_member (JObj ps) k v = JObj (put_property ps k v)"
| "set_member e k v = e"

text \<open>The variables of a theme that the directives name, overridden by the ones of the page and of the directives.\<close>

definition apply_theme :: "theme_classes \<Rightarrow> js \<Rightarrow> js \<Rightarrow> js \<Rightarrow> config_error + js" where
  "apply_theme C init r i =
     (let th = member i theme_key in
      if truthy th \<and> in_themes (to_string th) then
        rbind (clone init) (\<lambda>n.
        rbind (merge (js_or (member n theme_variables) (JObj [])) (member i theme_variables)) (\<lambda>s.
          let rth = member r theme_key in
          if truthy rth \<and> in_themes (to_string rth)
          then rbind (get_theme_variables C (to_string rth) s) (\<lambda>v. Inr (set_member r theme_variables v))
          else Inr r))
      else Inr r)"

definition update_current :: "theme_classes \<Rightarrow> js \<Rightarrow> config_state \<Rightarrow> config_error + config_state" where
  "update_current C e s =
     rbind (clone e) (\<lambda>r0.
     rbind (merge_directives (site_config s) (JObj []) (directives s)) (\<lambda>(ts, i).
     rbind (merge r0 i) (\<lambda>r1.
     rbind (apply_theme C (initialize_config s) r1 i) (\<lambda>r.
       Inr (s\<lparr>directives := ts, current_config := r\<rparr>)))))"

definition set_site_config :: "theme_classes \<Rightarrow> js \<Rightarrow> config_state \<Rightarrow> config_error + config_state" where
  "set_site_config C e s =
     rbind (clone (default_config s)) (\<lambda>k0.
     rbind (merge k0 e) (\<lambda>k1.
       if nullish e then Inl (Thrown TypeError)
       else let th = member e theme_key in
       rbind (if truthy th \<and> in_themes (to_string th)
              then rbind (get_theme_variables C (to_string th) (member e theme_variables))
                     (\<lambda>v. Inr (set_member k1 theme_variables v))
              else Inr k1)
         (\<lambda>k. update_current C k (s\<lparr>site_config := k\<rparr>))))"

definition save_config_from_initialize :: "js \<Rightarrow> config_state \<Rightarrow> config_error + config_state" where
  "save_config_from_initialize e s = rbind (clone e) (\<lambda>q. Inr (s\<lparr>initialize_config := q\<rparr>))"

definition update_site_config :: "theme_classes \<Rightarrow> js \<Rightarrow> config_state \<Rightarrow> config_error + config_state" where
  "update_site_config C e s =
     rbind (merge (site_config s) e) (\<lambda>k. update_current C k (s\<lparr>site_config := k\<rparr>))"

definition get_site_config :: "config_state \<Rightarrow> config_error + js" where
  "get_site_config s = clone (site_config s)"

definition set_config :: "js \<Rightarrow> config_state \<Rightarrow> config_error + config_state" where
  "set_config e s = rbind (merge (current_config s) e) (\<lambda>c. Inr (s\<lparr>current_config := c\<rparr>))"

definition get_config :: "config_state \<Rightarrow> config_error + js" where
  "get_config s = clone (current_config s)"

definition reset_config :: "theme_classes \<Rightarrow> js \<Rightarrow> config_state \<Rightarrow> config_error + config_state" where
  "reset_config C e s = update_current C e (s\<lparr>directives := []\<rparr>)"

definition add_directive_config :: "theme_classes \<Rightarrow> (ustr \<Rightarrow> bool) \<Rightarrow> js \<Rightarrow> config_state \<Rightarrow>
    config_error + config_state" where
  "add_directive_config C known e s =
     rbind (rethrow (add_directive known (directives s) e)) (\<lambda>cf.
       update_current C (site_config s) (s\<lparr>directives := cf\<rparr>))"

text \<open>\<open>initialize\<close>: what the page sets. A font family of its own becomes a theme variable if there is none.\<close>

definition initialize_font :: "js \<Rightarrow> config_error + js" where
  "initialize_font t =
     (let f = member t font_family; tv = member t theme_variables in
      if truthy f \<and> \<not> truthy (member tv font_family) then
        (if \<not> truthy tv then Inr (set_member t theme_variables (JObj [(font_family, f)]))
         else case tv of
           JObj _ \<Rightarrow> Inr (set_member t theme_variables (set_member tv font_family f))
         | JArr _ \<Rightarrow> Inl ArrayProperty
         | _ \<Rightarrow> Inl (Thrown TypeError))
      else Inr t)"

definition initialize_config_op :: "theme_classes \<Rightarrow> js \<Rightarrow> config_state \<Rightarrow> config_error + config_state" where
  "initialize_config_op C e s =
     rbind (clone (if e = JUndef then JObj [] else e)) (\<lambda>t0.
     rbind (initialize_font t0) (\<lambda>t.
     rbind (save_config_from_initialize t s) (\<lambda>s1.
       let th = member t theme_key;
           name = (if truthy th \<and> in_themes (to_string th) then to_string th else lit ''default'') in
       rbind (get_theme_variables C name (member t theme_variables)) (\<lambda>v.
         set_site_config C (set_member t theme_variables v) s1))))"

text \<open>\<open>processAndSetConfigs\<close>, for the configuration \<open>config\<close> of a parsed diagram text: every diagram starts anew.\<close>

definition process_and_set_configs :: "theme_classes \<Rightarrow> (ustr \<Rightarrow> bool) \<Rightarrow> js \<Rightarrow> config_state \<Rightarrow>
    config_error + config_state" where
  "process_and_set_configs C known config s =
     rbind (reset_config C (site_config s) s)
       (add_directive_config C known (js_coalesce config (JObj [])))"

text \<open>The state when the script is loaded, with \<open>pc\<close> the default configuration.\<close>

definition loaded_config :: "js \<Rightarrow> config_error + config_state" where
  "loaded_config pc =
     rbind (clone pc) (\<lambda>k. rbind (clone pc) (\<lambda>x.
       Inr \<lparr>default_config = pc, site_config = k, directives = [], current_config = x, initialize_config = JUndef\<rparr>))"


section \<open>Recomputing the configuration\<close>

lemma deny_directive_free:
  assumes "deny_directive site n = Inr n'" and "secure_names site = Inr secure"
  shows "site_only_free secure n'"
proof (cases "truthy n")
  case True
  then show ?thesis using assms deny_secure_free [of secure n]
    by (cases n) (auto simp: deny_directive_def simp del: deny_secure.simps(1,2) split: if_splits)
next
  case False
  then show ?thesis using assms(1) by (cases n) (auto simp: deny_directive_def)
qed

lemma merge_directives_clean:
  "merge_directives site i ts = Inr (ts', i') \<Longrightarrow> secure_names site = Inr secure \<Longrightarrow> plain_object i \<Longrightarrow>
   clean_value secure i \<Longrightarrow> plain_object i' \<and> clean_value secure i'"
proof (induction ts arbitrary: i ts')
  case (Cons n ns)
  then obtain n' i1 ns' where n': "deny_directive site n = Inr n'" and i1: "merge i n' = Inr i1"
    and rest: "merge_directives site i1 ns = Inr (ns', i')"
    by auto
  show ?case
    using Cons.IH [OF rest Cons.prems(2) merge_object [OF i1 Cons.prems(3)]]
      merge_clean [OF i1 Cons.prems(3,4) deny_directive_free [OF n' Cons.prems(2)]] .
qed auto

text \<open>What \<open>updateCurrentConfig\<close> computes, and that the state it leaves depends on nothing else.\<close>

definition recompute :: "theme_classes \<Rightarrow> js \<Rightarrow> js \<Rightarrow> js \<Rightarrow> js list \<Rightarrow> config_error + js list \<times> js" where
  "recompute C init site e ds =
     rbind (clone e) (\<lambda>r0. rbind (merge_directives site (JObj []) ds) (\<lambda>(ts, i).
       rbind (merge r0 i) (\<lambda>r1. rbind (apply_theme C init r1 i) (\<lambda>r. Inr (ts, r)))))"

lemma update_current_recompute:
  "update_current C e s =
     rbind (recompute C (initialize_config s) (site_config s) e (directives s))
       (\<lambda>(ts, r). Inr (s\<lparr>directives := ts, current_config := r\<rparr>))"
  by (auto simp: update_current_def recompute_def rbind_def split: sum.splits prod.splits)

lemma process_recompute:
  "process_and_set_configs C known config s =
     rbind (recompute C (initialize_config s) (site_config s) (site_config s) []) (\<lambda>_.
     rbind (rethrow (add_directive known [] (js_coalesce config (JObj [])))) (\<lambda>cf.
     rbind (recompute C (initialize_config s) (site_config s) (site_config s) cf)
       (\<lambda>(ts, r). Inr (s\<lparr>directives := ts, current_config := r\<rparr>))))"
proof -
  have empty: "ts = []" if "recompute C init site e [] = Inr (ts, r)" for init site e ts r
    using that by (auto simp: recompute_def)
  show ?thesis
  proof (cases "recompute C (initialize_config s) (site_config s) (site_config s) []")
    case (Inr tr)
    then obtain r where tr: "tr = ([], r)" using empty by (cases tr) auto
    show ?thesis
      by (cases "rethrow (add_directive known [] (js_coalesce config (JObj [])))")
        (simp_all add: process_and_set_configs_def reset_config_def add_directive_config_def update_current_recompute Inr tr)
  qed (simp add: process_and_set_configs_def reset_config_def update_current_recompute)
qed

lemma apply_theme_cases:
  assumes "apply_theme C init r i = Inr r'"
  shows "r' = r \<or> (\<exists>v. r' = set_member r theme_variables v)"
  using assms by (auto simp: apply_theme_def Let_def split: if_splits)

lemma member_set_member: "member (set_member r k v) k' = (if k' = k \<and> plain_object r then v else member r k')"
  by (cases r) auto

lemma recompute_keeps:
  assumes "recompute C init site e ds = Inr (ts, r)" and "clone e = Inr r0" and "secure_names site = Inr secure"
  shows "\<exists>r1. keeps 2 (denied_key secure) r0 r1 \<and> (r = r1 \<or> (\<exists>v. r = set_member r1 theme_variables v))"
proof -
  obtain i r1 where i: "merge_directives site (JObj []) ds = Inr (ts, i)" and r1: "merge r0 i = Inr r1"
    and r: "apply_theme C init r1 i = Inr r"
    using assms(1,2) by (auto simp: recompute_def)
  have "site_only_free secure i"
    using merge_directives_clean [OF i assms(3)] by (simp add: clean_value_def)
  then have "keeps 2 (denied_key secure) r0 r1"
    using assign_keeps(1) [OF r1 [unfolded merge_def]] by simp
  then show ?thesis using apply_theme_cases [OF r] by blast
qed

text \<open>The operations between two changes of the site configuration.\<close>

datatype config_op = SetConfig js | AddDirective js | Reset | ProcessDiagram js

fun run_config_op :: "theme_classes \<Rightarrow> (ustr \<Rightarrow> bool) \<Rightarrow> config_op \<Rightarrow> config_state \<Rightarrow> config_error + config_state" where
  "run_config_op C known (SetConfig e) s = set_config e s"
| "run_config_op C known (AddDirective e) s = add_directive_config C known e s"
| "run_config_op C known Reset s = reset_config C (site_config s) s"
| "run_config_op C known (ProcessDiagram e) s = process_and_set_configs C known e s"

fun run_config_ops :: "theme_classes \<Rightarrow> (ustr \<Rightarrow> bool) \<Rightarrow> config_op list \<Rightarrow> config_state \<Rightarrow> config_error + config_state" where
  "run_config_ops C known [] s = Inr s"
| "run_config_ops C known (c # cs) s = rbind (run_config_op C known c s) (run_config_ops C known cs)"

definition same_site :: "config_state \<Rightarrow> config_state \<Rightarrow> bool" where
  "same_site s s' \<longleftrightarrow> default_config s' = default_config s \<and> site_config s' = site_config s \<and>
     initialize_config s' = initialize_config s"

lemma same_site_refl [simp]: "same_site s s"
  by (simp add: same_site_def)

lemma update_current_same: "update_current C e s = Inr s' \<Longrightarrow> same_site s s'"
  by (auto simp: update_current_recompute same_site_def)

lemma same_site_directives [simp]: "same_site (s\<lparr>directives := ds\<rparr>) s' \<longleftrightarrow> same_site s s'"
  by (simp add: same_site_def)

lemma reset_same: "reset_config C e s = Inr s' \<Longrightarrow> same_site s s'"
  unfolding reset_config_def using update_current_same by fastforce

lemma add_directive_same: "add_directive_config C known e s = Inr s' \<Longrightarrow> same_site s s'"
  unfolding add_directive_config_def by (elim rbind_InrE) (use update_current_same in fastforce)

lemma run_config_op_same: "run_config_op C known c s = Inr s' \<Longrightarrow> same_site s s'"
proof (cases c)
  case (SetConfig e)
  then show "run_config_op C known c s = Inr s' \<Longrightarrow> ?thesis" by (auto simp: set_config_def same_site_def)
next
  case (ProcessDiagram e)
  then show "run_config_op C known c s = Inr s' \<Longrightarrow> ?thesis" by (auto simp: process_recompute same_site_def)
qed (simp_all add: reset_same add_directive_same)

lemma same_site_trans: "same_site a b \<Longrightarrow> same_site b c \<Longrightarrow> same_site a c"
  by (simp add: same_site_def)

lemma run_config_ops_same: "run_config_ops C known cs s = Inr s' \<Longrightarrow> same_site s s'"
proof (induction cs arbitrary: s)
  case (Cons c cs)
  then obtain s1 where "run_config_op C known c s = Inr s1" "run_config_ops C known cs s1 = Inr s'" by auto
  then show ?case using same_site_trans [OF run_config_op_same] Cons.IH by blast
qed simp


text \<open>What a directive leaves of the site's configuration, before the theme sets its variables.\<close>

lemma directive_keeps:
  assumes "add_directive_config C known e s = Inr s'" and "secure_names (site_config s) = Inr secure"
    and "get_site_config s = Inr base"
  obtains ps qs where "base = JObj ps" "\<forall>k. denied_key secure k \<longrightarrow> property qs k = property ps k"
    "\<forall>k. keeps 1 (denied_key secure) (property ps k) (property qs k)"
    "current_config s' = JObj qs \<or> (\<exists>v. current_config s' = set_member (JObj qs) theme_variables v)"
proof -
  obtain ts r cf where run: "recompute C (initialize_config s) (site_config s) (site_config s) cf = Inr (ts, r)"
    and s': "current_config s' = r"
    using assms(1) by (auto simp: add_directive_config_def update_current_recompute)
  obtain r1 where keep: "keeps 2 (denied_key secure) base r1" and r: "r = r1 \<or> (\<exists>v. r = set_member r1 theme_variables v)"
    using recompute_keeps [OF run assms(3)[unfolded get_site_config_def] assms(2)] by blast
  obtain ps where base: "base = JObj ps" using clone_object assms(3) by (auto simp: get_site_config_def plain_object_iff)
  obtain qs where r1: "r1 = JObj qs" and "\<forall>k. denied_key secure k \<longrightarrow> property qs k = property ps k"
    and "\<forall>k. keeps 1 (denied_key secure) (property ps k) (property qs k)"
    using keep unfolding base by (auto simp: numeral_2_eq_2)
  then show thesis using that [OF base] r by (auto simp: s' r1)
qed

lemma secure_member:
  assumes "add_directive_config C known e s = Inr s'" and "secure_names (site_config s) = Inr secure"
    and "get_site_config s = Inr base" and "denied_key secure k" and "k \<noteq> theme_variables"
  shows "member (current_config s') k = member base k"
  by (rule directive_keeps [OF assms(1-3)]) (use assms(4,5) in auto)


section \<open>Properties\<close>

text \<open>C15. Options that only the site may set stay as the site set them, whatever a directive says: those of
  the configuration itself and, one level down, those of its sections. The theme variables are left out,
  as a theme that a directive may choose sets them anew.\<close>

theorem secure_options_kept:
  assumes "add_directive_config C known e s = Inr s'" and "secure_names (site_config s) = Inr secure"
    and "get_site_config s = Inr base"
  shows "\<forall>k. denied_key secure k \<and> k \<noteq> theme_variables \<longrightarrow>
           member (current_config s') k = member base k \<and>
           (\<forall>x. x \<noteq> theme_variables \<and> plain_object (member base x) \<longrightarrow>
              member (member (current_config s') x) k = member (member base x) k)"
proof -
  obtain ps qs where kept: "base = JObj ps" "\<forall>k. denied_key secure k \<longrightarrow> property qs k = property ps k"
      "\<forall>k. keeps 1 (denied_key secure) (property ps k) (property qs k)"
      "current_config s' = JObj qs \<or> (\<exists>v. current_config s' = set_member (JObj qs) theme_variables v)"
    by (rule directive_keeps [OF assms])
  have "member (property qs x) k = member (property ps x) k"
    if "denied_key secure k" "plain_object (property ps x)" for x k
    using kept(3) [rule_format, of x] that by (auto simp: plain_object_iff)
  then show ?thesis using kept by auto
qed

text \<open>C17. Diagrams do not see each other: once the configuration is set, what earlier diagrams, directives or
  changes of the current configuration did has no effect on the configuration of the next diagram.\<close>

theorem diagrams_isolated:
  assumes "run_config_ops C known cs s = Inr s1"
  shows "process_and_set_configs C known config s1 = process_and_set_configs C known config s"
proof -
  have "same_site s s1" using run_config_ops_same [OF assms] .
  then have eq: "s1\<lparr>directives := ts, current_config := r\<rparr> = s\<lparr>directives := ts, current_config := r\<rparr>" for ts r
    by (cases s; cases s1) (simp add: same_site_def)
  then show ?thesis using \<open>same_site s s1\<close> unfolding process_recompute eq by (simp add: same_site_def)
qed

text \<open>An option that is no object is, for a diagram, what its directive says about it last, and what the site
  says if the directive does not mention it.\<close>

lemma option_precedence:
  assumes "process_and_set_configs C known config s = Inr s'" and "get_site_config s = Inr base"
    and "directives s' = [JObj ds]" and "scalar_at k ds" and "\<not> typeof_object (member base k)" and "k \<noteq> theme_variables"
  shows "member (current_config s') k = (case map_of (rev ds) k of None \<Rightarrow> member base k | Some v \<Rightarrow> v)"
proof -
  obtain cf ts r where cf: "add_directive known [] (js_coalesce config (JObj [])) = Inr cf"
    and run: "recompute C (initialize_config s) (site_config s) (site_config s) cf = Inr (ts, r)"
    and s': "s' = s\<lparr>directives := ts, current_config := r\<rparr>"
    using assms(1) by (auto simp: process_recompute)
  obtain n where n: "cf = [n]" using cf by (auto simp: add_directive_def)
  obtain i r1 where i: "merge_directives (site_config s) (JObj []) cf = Inr (ts, i)" and r1: "merge base i = Inr r1"
    and r: "apply_theme C (initialize_config s) r1 i = Inr r"
    using run assms(2) by (auto simp: recompute_def get_site_config_def)
  obtain ps where base: "base = JObj ps" using clone_object assms(2) by (auto simp: get_site_config_def plain_object_iff)
  have "merge (JObj []) (JObj ds) = Inr i" using i assms(3) by (auto simp: n s')
  then have "member r1 k = (case map_of (rev ds) k of None \<Rightarrow> member base k | Some v \<Rightarrow> v)"
    using merge_directive_scalar [OF _ r1[unfolded base] assms(4)] assms(5) unfolding base member.simps by blast
  then show ?thesis using apply_theme_cases [OF r] assms(6) by (auto simp: s' member_set_member)
qed

text \<open>What the initial and the derived variables are, those asked for are in the theme as they were asked for.\<close>

lemma theme_overrides_win:
  assumes "calculate T (JObj qs) = Inr v" and "distinct (map fst qs)" and "(k, w) \<in> set qs"
  shows "member v k = w"
proof -
  have "(k, w) \<in> set qs \<Longrightarrow> distinct (map fst qs) \<Longrightarrow> property (put_all ps qs) k = w" for ps
  proof (induction qs arbitrary: ps)
    case (Cons q qs)
    then show ?case using property_put_all [of k qs] by (cases q) (force simp: property_put_all)
  qed simp
  then show ?thesis using assms by (auto simp: calculate_def typeof_object_def Let_def split: if_splits)
qed

lemma prototype_members_harmless:
  "\<forall>name\<in>set prototype_members. name \<noteq> [] \<and> \<not> has_markup (JStr name) \<and> name \<notin> set theme_names"
  by code_simp

text \<open>The theme of a directive is looked up in a plain object, so the names of that object's inherited
  members count as themes: a diagram whose directive asks for one of them makes the renderer throw.\<close>

lemma prototype_theme_throws:
  assumes "name \<in> set prototype_members" and "known theme_key" and "secure_names (site_config s) = Inr secure"
    and "\<not> denied_key secure theme_key" and "get_site_config s = Inr base" and "\<not> typeof_object (member base theme_key)"
    and "clone (initialize_config s) = Inr n"
  shows "process_and_set_configs C known (JObj [(theme_key, JStr name)]) s = Inl (Thrown TypeError)"
proof -
  let ?d = "JObj [(theme_key, JStr name)]"
  obtain ps where base: "base = JObj ps" using clone_object assms(5) by (auto simp: get_site_config_def plain_object_iff)
  have key: "\<not> deleted known theme_key (JStr name)" "sanitize_option css_options theme_key (JStr name) = Inr (JStr name)"
    "theme_key \<noteq> theme_variables" "theme_key \<noteq> font_family"
    using assms(2) by (simp_all add: deleted_def nullish_def theme_key_def theme_variables_def font_family_def css_options_def
        js_includes_def lit_def ch_def)
  have name: "name \<noteq> []" "\<not> has_markup (JStr name)" "name \<notin> set theme_names"
    using assms(1) prototype_members_harmless by blast+
  have directive: "add_directive known [] ?d = Inr [?d]"
    using key by (simp add: add_directive_def sanitize_theme_def in_entry_def property_def)
  have first: "recompute C (initialize_config s) (site_config s) (site_config s) [] = Inr ([], base)"
    using assms(5) by (simp add: recompute_def get_site_config_def base merge_def apply_theme_def property_def Let_def
        typeof_object_def)
  have denied: "deny_directive (site_config s) ?d = Inr ?d"
    using assms(3,4) name(2) by (simp add: deny_directive_def)
  have merged: "merge (JObj []) ?d = Inr ?d"
    by (simp add: merge_def typeof_object_def property_def put_property_def)
  obtain rs where "merge base ?d = Inr (JObj rs)" "property rs theme_key = JStr name"
    using assms(6) by (simp add: base merge_def typeof_object_def Let_def)
  moreover have "merge (js_or (member n theme_variables) (JObj [])) JUndef = Inr (js_or (member n theme_variables) (JObj []))"
    by (auto simp: merge_def js_or_def)
  ultimately have "recompute C (initialize_config s) (site_config s) (site_config s) [?d] = Inl (Thrown TypeError)"
    using assms(1,5,7) key(3) name denied merged
    by (simp add: recompute_def get_site_config_def apply_theme_def in_themes_def property_def Let_def
        get_theme_variables_def)
  then show ?thesis
    using first directive by (simp add: process_recompute js_coalesce_def nullish_def rethrow_def)
qed


section \<open>Witnesses\<close>

text \<open>A small default configuration, and themes that derive nothing.\<close>

definition demo_config :: js where
  "demo_config = JObj
     [(lit ''theme'', JStr (lit ''default'')), (lit ''securityLevel'', JStr (lit ''strict'')),
      (lit ''secure'', JArr [JStr (lit ''securityLevel'')]), (lit ''fontSize'', JNum 16),
      (lit ''flowchart'', JObj [(lit ''nodeSpacing'', JNum 50)])]"

definition demo_themes :: theme_classes where
  "demo_themes = (\<lambda>_. \<lparr>tc_initial = [(lit ''background'', JStr (lit ''white''))], tc_update = Inr\<rparr>)"

definition demo_state :: config_state where
  "demo_state = \<lparr>default_config = demo_config, site_config = demo_config, directives = [], current_config = demo_config,
     initialize_config = JUndef\<rparr>"

definition demo_directive :: js where
  "demo_directive = JObj
     [(lit ''theme'', JStr (lit ''dark'')), (lit ''securityLevel'', JStr (lit ''loose'')), (lit ''fontSize'', JNum 20)]"

lemma demo_site:
  "secure_names (site_config demo_state) = Inr [lit ''securityLevel'']"
  "get_site_config demo_state = Inr demo_config"
  by code_simp+

lemma secure_options_kept_witness:
  "\<exists>s'. add_directive_config demo_themes (\<lambda>_. True) demo_directive demo_state = Inr s' \<and>
     member (current_config s') (lit ''securityLevel'') = JStr (lit ''strict'')"
proof -
  have "case add_directive_config demo_themes (\<lambda>_. True) demo_directive demo_state of Inl _ \<Rightarrow> False | Inr _ \<Rightarrow> True"
    by code_simp
  then obtain s' where s': "add_directive_config demo_themes (\<lambda>_. True) demo_directive demo_state = Inr s'"
    by (auto split: sum.splits)
  have "denied_key [lit ''securityLevel''] (lit ''securityLevel'')" "lit ''securityLevel'' \<noteq> theme_variables"
    "member demo_config (lit ''securityLevel'') = JStr (lit ''strict'')"
    by code_simp+
  then show ?thesis using secure_options_kept [OF s' demo_site] s' by auto
qed

lemma diagrams_isolated_witness:
  "\<exists>s1. run_config_ops demo_themes (\<lambda>_. True)
       [ProcessDiagram demo_directive, SetConfig (JObj [(lit ''fontSize'', JNum 9)])] demo_state = Inr s1 \<and>
     current_config s1 \<noteq> demo_config \<and>
     process_and_set_configs demo_themes (\<lambda>_. True) JUndef s1 = process_and_set_configs demo_themes (\<lambda>_. True) JUndef demo_state"
proof -
  let ?ops = "[ProcessDiagram demo_directive, SetConfig (JObj [(lit ''fontSize'', JNum 9)])]"
  have "case run_config_ops demo_themes (\<lambda>_. True) ?ops demo_state of Inl _ \<Rightarrow> False | Inr s1 \<Rightarrow> current_config s1 \<noteq> demo_config"
    by code_simp
  then obtain s1 where "run_config_ops demo_themes (\<lambda>_. True) ?ops demo_state = Inr s1" "current_config s1 \<noteq> demo_config"
    by (auto split: sum.splits)
  then show ?thesis using diagrams_isolated [of demo_themes "\<lambda>_. True" ?ops demo_state s1] by blast
qed

end
