(* ===== verification/Mermaid_Styles.thy ===== *)
theory Mermaid_Styles
  imports Js_Values
begin

text \<open>
  The style sheets of \<open>docs/mermaid.tiny.js\<close>, first part: the sheet common to all diagrams and the
  shorter ones. Each is a template literal of the theme, line for line as in the source.
\<close>

text \<open>The options a style function gets: a property that is missing is \<open>undefined\<close>.\<close>

type_synonym theme = "string \<Rightarrow> js"

text \<open>
  \<open>v.replace(pat, rep)\<close> on a string. Other values have no such method and the call throws:
  \<open>shadow_throws\<close> says when the only such call of the sheets does, and a sheet that throws is \<open>None\<close>.
\<close>

definition js_replace :: "js \<Rightarrow> js \<Rightarrow> js \<Rightarrow> js" where
  "js_replace v pat rep =
     (case v of JStr s \<Rightarrow> JStr (replace_first s (to_string pat) (to_string rep)) | _ \<Rightarrow> JUndef)"

definition shadow_throws :: "theme \<Rightarrow> bool" where
  "shadow_throws e \<longleftrightarrow>
     truthy (e ''dropShadow'') \<and> (case e ''dropShadow'' of JStr _ \<Rightarrow> False | _ \<Rightarrow> True)"


section \<open>Shared sheets\<close>

text \<open>\<open>getIconStyles\<close>.\<close>

definition icon_styles :: "template" where
  \<open>icon_styles =
  [[],
   [Txt ''  /* Font Awesome icon styling - consolidated */''],
   [Txt ''  .label-icon {''],
   [Txt ''    display: inline-block;''],
   [Txt ''    height: 1em;''],
   [Txt ''    overflow: visible;''],
   [Txt ''    vertical-align: -0.125em;''],
   [Txt ''  }''],
   [Txt ''  ''],
   [Txt ''  .node .label-icon path {''],
   [Txt ''    fill: currentColor;''],
   [Txt ''    stroke: revert;''],
   [Txt ''    stroke-width: revert;''],
   [Txt ''  }''],
   []]\<close>

text \<open>
  The template of \<open>getStyles\<close>: \<open>r\<close> are the options, \<open>i\<close> the id of the svg, \<open>n\<close> the sheet of the diagram and
  \<open>t\<close> the user's.
\<close>

definition main_styles :: "theme \<Rightarrow> js \<Rightarrow> js \<Rightarrow> js \<Rightarrow> template" where
  \<open>main_styles r i n t =
  [[Txt '' & {''],
   [Txt ''    font-family: '', Val (r ''fontFamily''), Txt '';''],
   [Txt ''    font-size: '', Val (r ''fontSize''), Txt '';''],
   [Txt ''    fill: '', Val (r ''textColor'')],
   [Txt ''  }''],
   [Txt ''  @keyframes edge-animation-frame {''],
   [Txt ''    from {''],
   [Txt ''      stroke-dashoffset: 0;''],
   [Txt ''    }''],
   [Txt ''  }''],
   [Txt ''  @keyframes dash {''],
   [Txt ''    to {''],
   [Txt ''      stroke-dashoffset: 0;''],
   [Txt ''    }''],
   [Txt ''  }''],
   [Txt ''  & .edge-animation-slow {''],
   [Txt ''    stroke-dasharray: 9,5 !important;''],
   [Txt ''    stroke-dashoffset: 900;''],
   [Txt ''    animation: dash 50s linear infinite;''],
   [Txt ''    stroke-linecap: round;''],
   [Txt ''  }''],
   [Txt ''  & .edge-animation-fast {''],
   [Txt ''    stroke-dasharray: 9,5 !important;''],
   [Txt ''    stroke-dashoffset: 900;''],
   [Txt ''    animation: dash 20s linear infinite;''],
   [Txt ''    stroke-linecap: round;''],
   [Txt ''  }''],
   [Txt ''  /* Classes common for multiple diagrams */''],
   [],
   [Txt ''  & .error-icon {''],
   [Txt ''    fill: '', Val (r ''errorBkgColor''), Txt '';''],
   [Txt ''  }''],
   [Txt ''  & .error-text {''],
   [Txt ''    fill: '', Val (r ''errorTextColor''), Txt '';''],
   [Txt ''    stroke: '', Val (r ''errorTextColor''), Txt '';''],
   [Txt ''  }''],
   [],
   [Txt ''  & .edge-thickness-normal {''],
   [Txt ''    stroke-width: '', Val (js_coalesce (r ''strokeWidth'') (JNum 1)), Txt ''px;''],
   [Txt ''  }''],
   [Txt ''  & .edge-thickness-thick {''],
   [Txt ''    stroke-width: 3.5px''],
   [Txt ''  }''],
   [Txt ''  & .edge-pattern-solid {''],
   [Txt ''    stroke-dasharray: 0;''],
   [Txt ''  }''],
   [Txt ''  & .edge-thickness-invisible {''],
   [Txt ''    stroke-width: 0;''],
   [Txt ''    fill: none;''],
   [Txt ''  }''],
   [Txt ''  & .edge-pattern-dashed{''],
   [Txt ''    stroke-dasharray: 3;''],
   [Txt ''  }''],
   [Txt ''  .edge-pattern-dotted {''],
   [Txt ''    stroke-dasharray: 2;''],
   [Txt ''  }''],
   [],
   [Txt ''  & .marker {''],
   [Txt ''    fill: '', Val (r ''lineColor''), Txt '';''],
   [Txt ''    stroke: '', Val (r ''lineColor''), Txt '';''],
   [Txt ''  }''],
   [Txt ''  & .marker.cross {''],
   [Txt ''    stroke: '', Val (r ''lineColor''), Txt '';''],
   [Txt ''  }''],
   [],
   [Txt ''  & svg {''],
   [Txt ''    font-family: '', Val (r ''fontFamily''), Txt '';''],
   [Txt ''    font-size: '', Val (r ''fontSize''), Txt '';''],
   [Txt ''  }''],
   [Txt ''   & p {''],
   [Txt ''    margin: 0''],
   [Txt ''   }''],
   [],
   [Txt ''  '', Val n],
   [Txt ''  .node .neo-node {''],
   [Txt ''    stroke: '', Val (r ''nodeBorder''), Txt '';''],
   [Txt ''  }''],
   [],
   [Txt ''  [data-look="neo"].node rect, [data-look="neo"].cluster rect, [data-look="neo"].node polygon {''],
   [Txt ''    stroke: '', Val (js_if (r ''useGradient'') (JStr (lit ''url('' @ to_string (i) @ lit ''-gradient)'')) (r ''nodeBorder'')), Txt '';''],
   [Txt ''    filter: '', Val (js_if (r ''dropShadow'') (js_replace (r ''dropShadow'') (JStr (lit ''url(#drop-shadow)'')) (JStr (render [[Txt ''url('', Val (i), Txt ''-drop-shadow)'']]))) (JStr (lit ''none''))), Txt '';''],
   [Txt ''  }''],
   [],
   [],
   [Txt ''  [data-look="neo"].node path {''],
   [Txt ''    stroke: '', Val (js_if (r ''useGradient'') (JStr (lit ''url('' @ to_string (i) @ lit ''-gradient)'')) (r ''nodeBorder'')), Txt '';''],
   [Txt ''    stroke-width: '', Val (js_coalesce (r ''strokeWidth'') (JNum 1)), Txt ''px;''],
   [Txt ''  }''],
   [],
   [Txt ''  [data-look="neo"].node .outer-path {''],
   [Txt ''    filter: '', Val (js_if (r ''dropShadow'') (js_replace (r ''dropShadow'') (JStr (lit ''url(#drop-shadow)'')) (JStr (render [[Txt ''url('', Val (i), Txt ''-drop-shadow)'']]))) (JStr (lit ''none''))), Txt '';''],
   [Txt ''  }''],
   [],
   [Txt ''  [data-look="neo"].node .neo-line path {''],
   [Txt ''    stroke: '', Val (r ''nodeBorder''), Txt '';''],
   [Txt ''    filter: none;''],
   [Txt ''  }''],
   [],
   [Txt ''  [data-look="neo"].node circle{''],
   [Txt ''    stroke: '', Val (js_if (r ''useGradient'') (JStr (lit ''url('' @ to_string (i) @ lit ''-gradient)'')) (r ''nodeBorder'')), Txt '';''],
   [Txt ''    filter: '', Val (js_if (r ''dropShadow'') (js_replace (r ''dropShadow'') (JStr (lit ''url(#drop-shadow)'')) (JStr (render [[Txt ''url('', Val (i), Txt ''-drop-shadow)'']]))) (JStr (lit ''none''))), Txt '';''],
   [Txt ''  }''],
   [],
   [Txt ''  [data-look="neo"].node circle .state-start{''],
   [Txt ''    fill: #000000;''],
   [Txt ''  }''],
   [],
   [Txt ''  [data-look="neo"].icon-shape .icon {''],
   [Txt ''    fill: '', Val (js_if (r ''useGradient'') (JStr (lit ''url('' @ to_string (i) @ lit ''-gradient)'')) (r ''nodeBorder'')), Txt '';''],
   [Txt ''    filter: '', Val (js_if (r ''dropShadow'') (js_replace (r ''dropShadow'') (JStr (lit ''url(#drop-shadow)'')) (JStr (render [[Txt ''url('', Val (i), Txt ''-drop-shadow)'']]))) (JStr (lit ''none''))), Txt '';''],
   [Txt ''  }''],
   [],
   [Txt ''    [data-look="neo"].icon-shape .icon-neo path {''],
   [Txt ''    stroke: '', Val (js_if (r ''useGradient'') (JStr (lit ''url('' @ to_string (i) @ lit ''-gradient)'')) (r ''nodeBorder'')), Txt '';''],
   [Txt ''    filter: '', Val (js_if (r ''dropShadow'') (js_replace (r ''dropShadow'') (JStr (lit ''url(#drop-shadow)'')) (JStr (render [[Txt ''url('', Val (i), Txt ''-drop-shadow)'']]))) (JStr (lit ''none''))), Txt '';''],
   [Txt ''  }''],
   [],
   [Txt ''  '', Val t],
   []]\<close>


section \<open>C4, pie, sankey, ishikawa, venn\<close>

definition c4_styles :: "theme \<Rightarrow> template" where
  \<open>c4_styles e =
  [[Txt ''.person {''],
   [Txt ''    stroke: '', Val (e ''personBorder''), Txt '';''],
   [Txt ''    fill: '', Val (e ''personBkg''), Txt '';''],
   [Txt ''  }''],
   []]\<close>

definition pie_styles :: "theme \<Rightarrow> template" where
  \<open>pie_styles e =
  [[],
   [Txt ''  .pieCircle{''],
   [Txt ''    stroke: '', Val (e ''pieStrokeColor''), Txt '';''],
   [Txt ''    stroke-width : '', Val (e ''pieStrokeWidth''), Txt '';''],
   [Txt ''    opacity : '', Val (e ''pieOpacity''), Txt '';''],
   [Txt ''  }''],
   [Txt ''  .pieOuterCircle{''],
   [Txt ''    stroke: '', Val (e ''pieOuterStrokeColor''), Txt '';''],
   [Txt ''    stroke-width: '', Val (e ''pieOuterStrokeWidth''), Txt '';''],
   [Txt ''    fill: none;''],
   [Txt ''  }''],
   [Txt ''  .pieTitleText {''],
   [Txt ''    text-anchor: middle;''],
   [Txt ''    font-size: '', Val (e ''pieTitleTextSize''), Txt '';''],
   [Txt ''    fill: '', Val (e ''pieTitleTextColor''), Txt '';''],
   [Txt ''    font-family: '', Val (e ''fontFamily''), Txt '';''],
   [Txt ''  }''],
   [Txt ''  .slice {''],
   [Txt ''    font-family: '', Val (e ''fontFamily''), Txt '';''],
   [Txt ''    fill: '', Val (e ''pieSectionTextColor''), Txt '';''],
   [Txt ''    font-size:'', Val (e ''pieSectionTextSize''), Txt '';''],
   [Txt ''    // fill: white;''],
   [Txt ''  }''],
   [Txt ''  .legend text {''],
   [Txt ''    fill: '', Val (e ''pieLegendTextColor''), Txt '';''],
   [Txt ''    font-family: '', Val (e ''fontFamily''), Txt '';''],
   [Txt ''    font-size: '', Val (e ''pieLegendTextSize''), Txt '';''],
   [Txt ''  }''],
   []]\<close>

definition sankey_styles :: "theme \<Rightarrow> template" where
  \<open>sankey_styles e =
  [[Txt ''.label {''],
   [Txt ''    font-family: '', Val (e ''fontFamily''), Txt '';''],
   [Txt ''  }''],
   [],
   [Txt ''  .node-labels {''],
   [Txt ''    font-family: '', Val (e ''fontFamily''), Txt '';''],
   [Txt ''  }''],
   [],
   [Txt ''  /* Outlined label style - background stroke for better readability */''],
   [Txt ''  .sankey-label-bg {''],
   [Txt ''    stroke: '', Val (js_or (js_or (e ''mainBkg'') (e ''background'')) (JStr (lit ''#fff''))), Txt '';''],
   [Txt ''    stroke-width: 4px;''],
   [Txt ''    stroke-linejoin: round;''],
   [Txt ''    paint-order: stroke;''],
   [Txt ''  }''],
   [],
   [Txt ''  /* Foreground label text */''],
   [Txt ''  .sankey-label-fg {''],
   [Txt ''    fill: '', Val (e ''textColor''), Txt '';''],
   [Txt ''  }''],
   [],
   [Txt ''  /* Node styling */''],
   [Txt ''  .node rect {''],
   [Txt ''    shape-rendering: crispEdges;''],
   [Txt ''  }''],
   [],
   [Txt ''  /* Link styling */''],
   [Txt ''  .link {''],
   [Txt ''    fill: none;''],
   [Txt ''    stroke-opacity: 0.5;''],
   [Txt ''    mix-blend-mode: multiply;''],
   [Txt ''  }''],
   []]\<close>

definition ishikawa_styles :: "theme \<Rightarrow> template" where
  \<open>ishikawa_styles e =
  [[],
   [Txt ''.ishikawa .ishikawa-spine,''],
   [Txt ''.ishikawa .ishikawa-branch,''],
   [Txt ''.ishikawa .ishikawa-sub-branch {''],
   [Txt ''  stroke: '', Val (e ''lineColor''), Txt '';''],
   [Txt ''  stroke-width: 2;''],
   [Txt ''  fill: none;''],
   [Txt ''}''],
   [],
   [Txt ''.ishikawa .ishikawa-sub-branch {''],
   [Txt ''  stroke-width: 1;''],
   [Txt ''}''],
   [],
   [Txt ''.ishikawa .ishikawa-arrow {''],
   [Txt ''  fill: '', Val (e ''lineColor''), Txt '';''],
   [Txt ''}''],
   [],
   [Txt ''.ishikawa .ishikawa-head {''],
   [Txt ''  fill: '', Val (e ''mainBkg''), Txt '';''],
   [Txt ''  stroke: '', Val (e ''lineColor''), Txt '';''],
   [Txt ''  stroke-width: 2;''],
   [Txt ''}''],
   [],
   [Txt ''.ishikawa .ishikawa-label-box {''],
   [Txt ''  fill: '', Val (e ''mainBkg''), Txt '';''],
   [Txt ''  stroke: '', Val (e ''lineColor''), Txt '';''],
   [Txt ''  stroke-width: 2;''],
   [Txt ''}''],
   [],
   [Txt ''.ishikawa text {''],
   [Txt ''  font-family: '', Val (e ''fontFamily''), Txt '';''],
   [Txt ''  font-size: '', Val (e ''fontSize''), Txt '';''],
   [Txt ''  fill: '', Val (e ''textColor''), Txt '';''],
   [Txt ''}''],
   [],
   [Txt ''.ishikawa .ishikawa-head-label {''],
   [Txt ''  font-weight: 600;''],
   [Txt ''  text-anchor: middle;''],
   [Txt ''  dominant-baseline: middle;''],
   [Txt ''  font-size: 14px;''],
   [Txt ''}''],
   [],
   [Txt ''.ishikawa .ishikawa-label {''],
   [Txt ''  text-anchor: end;''],
   [Txt ''}''],
   [],
   [Txt ''.ishikawa .ishikawa-label.cause {''],
   [Txt ''  text-anchor: middle;''],
   [Txt ''  dominant-baseline: middle;''],
   [Txt ''}''],
   [],
   [Txt ''.ishikawa .ishikawa-label.align {''],
   [Txt ''  text-anchor: end;''],
   [Txt ''  dominant-baseline: middle;''],
   [Txt ''}''],
   [],
   [Txt ''.ishikawa .ishikawa-label.up {''],
   [Txt ''  dominant-baseline: baseline;''],
   [Txt ''}''],
   [],
   [Txt ''.ishikawa .ishikawa-label.down {''],
   [Txt ''  dominant-baseline: hanging;''],
   [Txt ''}''],
   []]\<close>

definition venn_styles :: "theme \<Rightarrow> template" where
  \<open>venn_styles e =
  [[],
   [Txt ''  .venn-title {''],
   [Txt ''    font-size: 32px;''],
   [Txt ''    fill: '', Val (e ''vennTitleTextColor''), Txt '';''],
   [Txt ''    font-family: '', Val (e ''fontFamily''), Txt '';''],
   [Txt ''  }''],
   [],
   [Txt ''  .venn-circle text {''],
   [Txt ''    font-size: 48px;''],
   [Txt ''    font-family: '', Val (e ''fontFamily''), Txt '';''],
   [Txt ''  }''],
   [],
   [Txt ''  .venn-intersection text {''],
   [Txt ''    font-size: 48px;''],
   [Txt ''    fill: '', Val (e ''vennSetTextColor''), Txt '';''],
   [Txt ''    font-family: '', Val (e ''fontFamily''), Txt '';''],
   [Txt ''  }''],
   [],
   [Txt ''  .venn-text-node {''],
   [Txt ''    font-family: '', Val (e ''fontFamily''), Txt '';''],
   [Txt ''    color: '', Val (e ''vennSetTextColor''), Txt '';''],
   [Txt ''  }''],
   []]\<close>


section \<open>Sequence diagrams\<close>

text \<open>\<open>t\<close> is the shadow, \<open>r\<close> the \<open>look\<close> of the configuration.\<close>

definition sequence_styles :: "theme \<Rightarrow> js \<Rightarrow> template" where
  \<open>sequence_styles e r = (let t = js_coalesce (e ''dropShadow'') (JStr (lit ''none'')) in
  [[Txt ''.actor {''],
   [Txt ''    stroke: '', Val (e ''actorBorder''), Txt '';''],
   [Txt ''    fill: '', Val (e ''actorBkg''), Txt '';''],
   [Txt ''    stroke-width: '', Val (js_coalesce (e ''strokeWidth'') (JNum 1)), Txt '';''],
   [Txt ''  }''],
   [],
   [Txt ''  rect.actor.outer-path[data-look="neo"] {''],
   [Txt ''      filter: '', Val t, Txt '';''],
   [Txt ''  }''],
   [],
   [Txt ''  rect.note[data-look="neo"] {''],
   [Txt ''      stroke:'', Val (e ''noteBorderColor''), Txt '';''],
   [Txt ''      fill:'', Val (e ''noteBkgColor''), Txt '';''],
   [Txt ''      filter: '', Val t, Txt '';''],
   [Txt ''  }''],
   [],
   [Txt ''  text.actor > tspan {''],
   [Txt ''    fill: '', Val (e ''actorTextColor''), Txt '';''],
   [Txt ''    stroke: none;''],
   [Txt ''  }''],
   [],
   [Txt ''  .actor-line {''],
   [Txt ''    stroke: '', Val (e ''actorLineColor''), Txt '';''],
   [Txt ''  }''],
   [],
   [Txt ''  .innerArc {''],
   [Txt ''    stroke-width: 1.5;''],
   [Txt ''    stroke-dasharray: none;''],
   [Txt ''  }''],
   [],
   [Txt ''  .messageLine0 {''],
   [Txt ''    stroke-width: 1.5;''],
   [Txt ''    stroke-dasharray: none;''],
   [Txt ''    stroke: '', Val (e ''signalColor''), Txt '';''],
   [Txt ''  }''],
   [],
   [Txt ''  .messageLine1 {''],
   [Txt ''    stroke-width: 1.5;''],
   [Txt ''    stroke-dasharray: 2, 2;''],
   [Txt ''    stroke: '', Val (e ''signalColor''), Txt '';''],
   [Txt ''  }''],
   [],
   [Txt ''  [id$="-arrowhead"] path {''],
   [Txt ''    fill: '', Val (e ''signalColor''), Txt '';''],
   [Txt ''    stroke: '', Val (e ''signalColor''), Txt '';''],
   [Txt ''  }''],
   [],
   [Txt ''  .sequenceNumber {''],
   [Txt ''    fill: '', Val (e ''sequenceNumberColor''), Txt '';''],
   [Txt ''  }''],
   [],
   [Txt ''  [id$="-sequencenumber"] {''],
   [Txt ''    fill: '', Val (e ''signalColor''), Txt '';''],
   [Txt ''  }''],
   [],
   [Txt ''  [id$="-crosshead"] path {''],
   [Txt ''    fill: '', Val (e ''signalColor''), Txt '';''],
   [Txt ''    stroke: '', Val (e ''signalColor''), Txt '';''],
   [Txt ''  }''],
   [],
   [Txt ''  .messageText {''],
   [Txt ''    fill: '', Val (e ''signalTextColor''), Txt '';''],
   [Txt ''    stroke: none;''],
   [Txt ''  }''],
   [],
   [Txt ''  .labelBox {''],
   [Txt ''    stroke: '', Val (e ''labelBoxBorderColor''), Txt '';''],
   [Txt ''    fill: '', Val (e ''labelBoxBkgColor''), Txt '';''],
   [Txt ''    filter: '', Val (js_if (JBool (r = JStr (lit ''neo''))) (t) (JStr (lit ''none''))), Txt '';''],
   [Txt ''  }''],
   [],
   [Txt ''  .labelText, .labelText > tspan {''],
   [Txt ''    fill: '', Val (e ''labelTextColor''), Txt '';''],
   [Txt ''    stroke: none;''],
   [Txt ''  }''],
   [],
   [Txt ''  .loopText, .loopText > tspan {''],
   [Txt ''    fill: '', Val (e ''loopTextColor''), Txt '';''],
   [Txt ''    stroke: none;''],
   [Txt ''  }''],
   [],
   [Txt ''  .sectionTitle, .sectionTitle > tspan {''],
   [Txt ''    fill: '', Val (e ''loopTextColor''), Txt '';''],
   [Txt ''    stroke: none;''],
   [Txt ''  }''],
   [],
   [Txt ''  .loopLine {''],
   [Txt ''    stroke-width: 2px;''],
   [Txt ''    stroke-dasharray: 2, 2;''],
   [Txt ''    stroke: '', Val (e ''labelBoxBorderColor''), Txt '';''],
   [Txt ''    fill: '', Val (e ''labelBoxBorderColor''), Txt '';''],
   [Txt ''  }''],
   [],
   [Txt ''  .note {''],
   [Txt ''    //stroke: #decc93;''],
   [Txt ''    stroke: '', Val (e ''noteBorderColor''), Txt '';''],
   [Txt ''    fill: '', Val (e ''noteBkgColor''), Txt '';''],
   [Txt ''  }''],
   [],
   [Txt ''  .noteText, .noteText > tspan {''],
   [Txt ''    fill: '', Val (e ''noteTextColor''), Txt '';''],
   [Txt ''    stroke: none;''],
   [Txt ''    '', Val (js_if (e ''noteFontWeight'') (JStr (render [[Txt ''font-weight: '', Val (e ''noteFontWeight''), Txt '';'']])) (JStr []))],
   [Txt ''  }''],
   [],
   [Txt ''  .activation0 {''],
   [Txt ''    fill: '', Val (e ''activationBkgColor''), Txt '';''],
   [Txt ''    stroke: '', Val (e ''activationBorderColor''), Txt '';''],
   [Txt ''  }''],
   [],
   [Txt ''  .activation1 {''],
   [Txt ''    fill: '', Val (e ''activationBkgColor''), Txt '';''],
   [Txt ''    stroke: '', Val (e ''activationBorderColor''), Txt '';''],
   [Txt ''  }''],
   [],
   [Txt ''  .activation2 {''],
   [Txt ''    fill: '', Val (e ''activationBkgColor''), Txt '';''],
   [Txt ''    stroke: '', Val (e ''activationBorderColor''), Txt '';''],
   [Txt ''  }''],
   [],
   [Txt ''  .actorPopupMenu {''],
   [Txt ''    position: absolute;''],
   [Txt ''  }''],
   [],
   [Txt ''  .actorPopupMenuPanel {''],
   [Txt ''    position: absolute;''],
   [Txt ''    fill: '', Val (e ''actorBkg''), Txt '';''],
   [Txt ''    box-shadow: 0px 8px 16px 0px rgba(0,0,0,0.2);''],
   [Txt ''    filter: drop-shadow(3px 5px 2px rgb(0 0 0 / 0.4));''],
   [Txt ''}''],
   [Txt ''  .actor-man circle, line {''],
   [Txt ''    fill: '', Val (e ''actorBkg''), Txt '';''],
   [Txt ''    stroke-width: 2px;''],
   [Txt ''  }''],
   [],
   [Txt ''  g rect.rect {''],
   [Txt ''    filter: '', Val t, Txt '';''],
   [Txt ''    stroke: '', Val (e ''nodeBorder''), Txt '';''],
   [Txt ''  }''],
   []])\<close>

end
