(* ===== verification/Mermaid_Diagram_Styles.thy ===== *)
theory Mermaid_Diagram_Styles
  imports Mermaid_Styles
begin

text \<open>
  The style sheets of \<open>docs/mermaid.tiny.js\<close>, second part: class, state, journey and gantt diagrams.
  The longest template literals are given in consecutive parts.
\<close>

section \<open>Class diagrams\<close>

definition class_styles_1 :: "theme \<Rightarrow> template" where
  \<open>class_styles_1 e =
  [[Txt ''g.classGroup text {''],
   [Txt ''  fill: '', Val (js_or (e ''nodeBorder'') (e ''classText'')), Txt '';''],
   [Txt ''  stroke: none;''],
   [Txt ''  font-family: '', Val (e ''fontFamily''), Txt '';''],
   [Txt ''  font-size: 10px;''],
   [],
   [Txt ''  .title {''],
   [Txt ''    font-weight: bolder;''],
   [Txt ''  }''],
   [],
   [Txt ''}''],
   [],
   [Txt ''  .cluster-label text {''],
   [Txt ''    fill: '', Val (e ''titleColor''), Txt '';''],
   [Txt ''  }''],
   [Txt ''  .cluster-label span {''],
   [Txt ''    color: '', Val (e ''titleColor''), Txt '';''],
   [Txt ''  }''],
   [Txt ''  .cluster-label span p {''],
   [Txt ''    background-color: transparent;''],
   [Txt ''  }''],
   [],
   [Txt ''  .cluster rect {''],
   [Txt ''    fill: '', Val (e ''clusterBkg''), Txt '';''],
   [Txt ''    stroke: '', Val (e ''clusterBorder''), Txt '';''],
   [Txt ''    stroke-width: 1px;''],
   [Txt ''  }''],
   [],
   [Txt ''  .cluster text {''],
   [Txt ''    fill: '', Val (e ''titleColor''), Txt '';''],
   [Txt ''  }''],
   [],
   [Txt ''  .cluster span {''],
   [Txt ''    color: '', Val (e ''titleColor''), Txt '';''],
   [Txt ''  }''],
   [],
   [Txt ''.nodeLabel, .edgeLabel {''],
   [Txt ''  color: '', Val (e ''classText''), Txt '';''],
   [Txt ''}''],
   [],
   [Txt ''.noteLabel .nodeLabel, .noteLabel .edgeLabel {''],
   [Txt ''  color: '', Val (e ''noteTextColor''), Txt '';''],
   [Txt ''}''],
   [Txt ''.edgeLabel .label rect {''],
   [Txt ''  fill: '', Val (e ''mainBkg''), Txt '';''],
   [Txt ''}''],
   [Txt ''.label text {''],
   [Txt ''  fill: '', Val (e ''classText''), Txt '';''],
   [Txt ''}''],
   [],
   [Txt ''.labelBkg {''],
   [Txt ''  background: '', Val (e ''mainBkg''), Txt '';''],
   [Txt ''}''],
   [Txt ''.edgeLabel .label span {''],
   [Txt ''  background: '', Val (e ''mainBkg''), Txt '';''],
   [Txt ''}''],
   [],
   [Txt ''.classTitle {''],
   [Txt ''  font-weight: bolder;''],
   [Txt ''}''],
   [Txt ''.node rect,''],
   [Txt ''  .node circle,''],
   [Txt ''  .node ellipse,''],
   [Txt ''  .node polygon,''],
   [Txt ''  .node path {''],
   [Txt ''    fill: '', Val (e ''mainBkg''), Txt '';''],
   [Txt ''    stroke: '', Val (e ''nodeBorder''), Txt '';''],
   [Txt ''    stroke-width: '', Val (e ''strokeWidth''), Txt '';''],
   [Txt ''  }''],
   [],
   [],
   [Txt ''.divider {''],
   [Txt ''  stroke: '', Val (e ''nodeBorder''), Txt '';''],
   [Txt ''  stroke-width: 1;''],
   [Txt ''}''],
   [],
   [Txt ''g.clickable {''],
   [Txt ''  cursor: pointer;''],
   [Txt ''}''],
   [],
   [Txt ''g.classGroup rect {''],
   [Txt ''  fill: '', Val (e ''mainBkg''), Txt '';''],
   [Txt ''  stroke: '', Val (e ''nodeBorder''), Txt '';''],
   [Txt ''}''],
   [],
   [Txt ''g.classGroup line {''],
   [Txt ''  stroke: '', Val (e ''nodeBorder''), Txt '';''],
   [Txt ''  stroke-width: 1;''],
   [Txt ''}''],
   [],
   [Txt ''.classLabel .box {''],
   [Txt ''  stroke: none;''],
   [Txt ''  stroke-width: 0;''],
   [Txt ''  fill: '', Val (e ''mainBkg''), Txt '';''],
   [Txt ''  opacity: 0.5;''],
   [Txt ''}''],
   [],
   [Txt ''.classLabel .label {''],
   [Txt ''  fill: '', Val (e ''nodeBorder''), Txt '';''],
   [Txt ''  font-size: 10px;''],
   [Txt ''}'']]\<close>

definition class_styles_2 :: "theme \<Rightarrow> template" where
  \<open>class_styles_2 e =
  [[],
   [Txt ''.relation {''],
   [Txt ''  stroke: '', Val (e ''lineColor''), Txt '';''],
   [Txt ''  stroke-width: '', Val (e ''strokeWidth''), Txt '';''],
   [Txt ''  fill: none;''],
   [Txt ''}''],
   [],
   [Txt ''.dashed-line{''],
   [Txt ''  stroke-dasharray: 3;''],
   [Txt ''}''],
   [],
   [Txt ''.dotted-line{''],
   [Txt ''  stroke-dasharray: 1 2;''],
   [Txt ''}''],
   [],
   [Txt ''[id$="-compositionStart"], .composition {''],
   [Txt ''  fill: '', Val (e ''lineColor''), Txt '' !important;''],
   [Txt ''  stroke: '', Val (e ''lineColor''), Txt '' !important;''],
   [Txt ''  stroke-width: 1;''],
   [Txt ''}''],
   [],
   [Txt ''[id$="-compositionEnd"], .composition {''],
   [Txt ''  fill: '', Val (e ''lineColor''), Txt '' !important;''],
   [Txt ''  stroke: '', Val (e ''lineColor''), Txt '' !important;''],
   [Txt ''  stroke-width: 1;''],
   [Txt ''}''],
   [],
   [Txt ''[id$="-dependencyStart"], .dependency {''],
   [Txt ''  fill: '', Val (e ''lineColor''), Txt '' !important;''],
   [Txt ''  stroke: '', Val (e ''lineColor''), Txt '' !important;''],
   [Txt ''  stroke-width: 1;''],
   [Txt ''}''],
   [],
   [Txt ''[id$="-dependencyEnd"], .dependency {''],
   [Txt ''  fill: '', Val (e ''lineColor''), Txt '' !important;''],
   [Txt ''  stroke: '', Val (e ''lineColor''), Txt '' !important;''],
   [Txt ''  stroke-width: 1;''],
   [Txt ''}''],
   [],
   [Txt ''[id$="-extensionStart"], .extension {''],
   [Txt ''  fill: transparent !important;''],
   [Txt ''  stroke: '', Val (e ''lineColor''), Txt '' !important;''],
   [Txt ''  stroke-width: 1;''],
   [Txt ''}''],
   [],
   [Txt ''[id$="-extensionEnd"], .extension {''],
   [Txt ''  fill: transparent !important;''],
   [Txt ''  stroke: '', Val (e ''lineColor''), Txt '' !important;''],
   [Txt ''  stroke-width: 1;''],
   [Txt ''}''],
   [],
   [Txt ''[id$="-aggregationStart"], .aggregation {''],
   [Txt ''  fill: transparent !important;''],
   [Txt ''  stroke: '', Val (e ''lineColor''), Txt '' !important;''],
   [Txt ''  stroke-width: 1;''],
   [Txt ''}''],
   [],
   [Txt ''[id$="-aggregationEnd"], .aggregation {''],
   [Txt ''  fill: transparent !important;''],
   [Txt ''  stroke: '', Val (e ''lineColor''), Txt '' !important;''],
   [Txt ''  stroke-width: 1;''],
   [Txt ''}''],
   [],
   [Txt ''[id$="-lollipopStart"], .lollipop {''],
   [Txt ''  fill: '', Val (e ''mainBkg''), Txt '' !important;''],
   [Txt ''  stroke: '', Val (e ''lineColor''), Txt '' !important;''],
   [Txt ''  stroke-width: 1;''],
   [Txt ''}''],
   [],
   [Txt ''[id$="-lollipopEnd"], .lollipop {''],
   [Txt ''  fill: '', Val (e ''mainBkg''), Txt '' !important;''],
   [Txt ''  stroke: '', Val (e ''lineColor''), Txt '' !important;''],
   [Txt ''  stroke-width: 1;''],
   [Txt ''}''],
   [],
   [Txt ''.edgeTerminals {''],
   [Txt ''  font-size: 11px;''],
   [Txt ''  line-height: initial;''],
   [Txt ''}''],
   [],
   [Txt ''.classTitleText {''],
   [Txt ''  text-anchor: middle;''],
   [Txt ''  font-size: 18px;''],
   [Txt ''  fill: '', Val (e ''textColor''), Txt '';''],
   [Txt ''}''],
   [],
   [Txt ''.edgeLabel[data-look="neo"] {''],
   [Txt ''  background-color: '', Val (e ''edgeLabelBackground''), Txt '';''],
   [Txt ''  p {''],
   [Txt ''    background-color: '', Val (e ''edgeLabelBackground''), Txt '';''],
   [Txt ''  }''],
   [Txt ''  rect {''],
   [Txt ''    opacity: 0.5;''],
   [Txt ''    background-color: '', Val (e ''edgeLabelBackground''), Txt '';''],
   [Txt ''    fill: '', Val (e ''edgeLabelBackground''), Txt '';''],
   [Txt ''  }''],
   [Txt ''  text-align: center;''],
   [Txt ''}''],
   [Txt ''  '', Val (JStr (render icon_styles))],
   []]\<close>

definition class_styles :: "theme \<Rightarrow> template" where
  "class_styles e = class_styles_1 e @ class_styles_2 e"


section \<open>User journeys\<close>

definition journey_styles :: "theme \<Rightarrow> template" where
  \<open>journey_styles e =
  [[Txt ''.label {''],
   [Txt ''    font-family: '', Val (e ''fontFamily''), Txt '';''],
   [Txt ''    color: '', Val (e ''textColor''), Txt '';''],
   [Txt ''  }''],
   [Txt ''  .mouth {''],
   [Txt ''    stroke: #666;''],
   [Txt ''  }''],
   [],
   [Txt ''  line {''],
   [Txt ''    stroke: '', Val (e ''textColor'')],
   [Txt ''  }''],
   [],
   [Txt ''  .legend {''],
   [Txt ''    fill: '', Val (e ''textColor''), Txt '';''],
   [Txt ''    font-family: '', Val (e ''fontFamily''), Txt '';''],
   [Txt ''  }''],
   [],
   [Txt ''  .label text {''],
   [Txt ''    fill: #333;''],
   [Txt ''  }''],
   [Txt ''  .label {''],
   [Txt ''    color: '', Val (e ''textColor'')],
   [Txt ''  }''],
   [],
   [Txt ''  .face {''],
   [Txt ''    '', Val (js_if (e ''faceColor'') (JStr (render [[Txt ''fill: '', Val (e ''faceColor'')]])) (JStr (lit ''fill: #FFF8DC''))), Txt '';''],
   [Txt ''    stroke: #999;''],
   [Txt ''  }''],
   [],
   [Txt ''  .node rect,''],
   [Txt ''  .node circle,''],
   [Txt ''  .node ellipse,''],
   [Txt ''  .node polygon,''],
   [Txt ''  .node path {''],
   [Txt ''    fill: '', Val (e ''mainBkg''), Txt '';''],
   [Txt ''    stroke: '', Val (e ''nodeBorder''), Txt '';''],
   [Txt ''    stroke-width: 1px;''],
   [Txt ''  }''],
   [],
   [Txt ''  .node .label {''],
   [Txt ''    text-align: center;''],
   [Txt ''  }''],
   [Txt ''  .node.clickable {''],
   [Txt ''    cursor: pointer;''],
   [Txt ''  }''],
   [],
   [Txt ''  .arrowheadPath {''],
   [Txt ''    fill: '', Val (e ''arrowheadColor''), Txt '';''],
   [Txt ''  }''],
   [],
   [Txt ''  .edgePath .path {''],
   [Txt ''    stroke: '', Val (e ''lineColor''), Txt '';''],
   [Txt ''    stroke-width: 1.5px;''],
   [Txt ''  }''],
   [],
   [Txt ''  .flowchart-link {''],
   [Txt ''    stroke: '', Val (e ''lineColor''), Txt '';''],
   [Txt ''    fill: none;''],
   [Txt ''  }''],
   [],
   [Txt ''  .edgeLabel {''],
   [Txt ''    background-color: '', Val (e ''edgeLabelBackground''), Txt '';''],
   [Txt ''    rect {''],
   [Txt ''      opacity: 0.5;''],
   [Txt ''    }''],
   [Txt ''    text-align: center;''],
   [Txt ''  }''],
   [],
   [Txt ''  .cluster rect {''],
   [Txt ''  }''],
   [],
   [Txt ''  .cluster text {''],
   [Txt ''    fill: '', Val (e ''titleColor''), Txt '';''],
   [Txt ''  }''],
   [],
   [Txt ''  div.mermaidTooltip {''],
   [Txt ''    position: absolute;''],
   [Txt ''    text-align: center;''],
   [Txt ''    max-width: 200px;''],
   [Txt ''    padding: 2px;''],
   [Txt ''    font-family: '', Val (e ''fontFamily''), Txt '';''],
   [Txt ''    font-size: 12px;''],
   [Txt ''    background: '', Val (e ''tertiaryColor''), Txt '';''],
   [Txt ''    border: 1px solid '', Val (e ''border2''), Txt '';''],
   [Txt ''    border-radius: 2px;''],
   [Txt ''    pointer-events: none;''],
   [Txt ''    z-index: 100;''],
   [Txt ''  }''],
   [],
   [Txt ''  .task-type-0, .section-type-0  {''],
   [Txt ''    '', Val (js_if (e ''fillType0'') (JStr (render [[Txt ''fill: '', Val (e ''fillType0'')]])) (JStr [])), Txt '';''],
   [Txt ''  }''],
   [Txt ''  .task-type-1, .section-type-1  {''],
   [Txt ''    '', Val (js_if (e ''fillType0'') (JStr (render [[Txt ''fill: '', Val (e ''fillType1'')]])) (JStr [])), Txt '';''],
   [Txt ''  }''],
   [Txt ''  .task-type-2, .section-type-2  {''],
   [Txt ''    '', Val (js_if (e ''fillType0'') (JStr (render [[Txt ''fill: '', Val (e ''fillType2'')]])) (JStr [])), Txt '';''],
   [Txt ''  }''],
   [Txt ''  .task-type-3, .section-type-3  {''],
   [Txt ''    '', Val (js_if (e ''fillType0'') (JStr (render [[Txt ''fill: '', Val (e ''fillType3'')]])) (JStr [])), Txt '';''],
   [Txt ''  }''],
   [Txt ''  .task-type-4, .section-type-4  {''],
   [Txt ''    '', Val (js_if (e ''fillType0'') (JStr (render [[Txt ''fill: '', Val (e ''fillType4'')]])) (JStr [])), Txt '';''],
   [Txt ''  }''],
   [Txt ''  .task-type-5, .section-type-5  {''],
   [Txt ''    '', Val (js_if (e ''fillType0'') (JStr (render [[Txt ''fill: '', Val (e ''fillType5'')]])) (JStr [])), Txt '';''],
   [Txt ''  }''],
   [Txt ''  .task-type-6, .section-type-6  {''],
   [Txt ''    '', Val (js_if (e ''fillType0'') (JStr (render [[Txt ''fill: '', Val (e ''fillType6'')]])) (JStr [])), Txt '';''],
   [Txt ''  }''],
   [Txt ''  .task-type-7, .section-type-7  {''],
   [Txt ''    '', Val (js_if (e ''fillType0'') (JStr (render [[Txt ''fill: '', Val (e ''fillType7'')]])) (JStr [])), Txt '';''],
   [Txt ''  }''],
   [],
   [Txt ''  .actor-0 {''],
   [Txt ''    '', Val (js_if (e ''actor0'') (JStr (render [[Txt ''fill: '', Val (e ''actor0'')]])) (JStr [])), Txt '';''],
   [Txt ''  }''],
   [Txt ''  .actor-1 {''],
   [Txt ''    '', Val (js_if (e ''actor1'') (JStr (render [[Txt ''fill: '', Val (e ''actor1'')]])) (JStr [])), Txt '';''],
   [Txt ''  }''],
   [Txt ''  .actor-2 {''],
   [Txt ''    '', Val (js_if (e ''actor2'') (JStr (render [[Txt ''fill: '', Val (e ''actor2'')]])) (JStr [])), Txt '';''],
   [Txt ''  }''],
   [Txt ''  .actor-3 {''],
   [Txt ''    '', Val (js_if (e ''actor3'') (JStr (render [[Txt ''fill: '', Val (e ''actor3'')]])) (JStr [])), Txt '';''],
   [Txt ''  }''],
   [Txt ''  .actor-4 {''],
   [Txt ''    '', Val (js_if (e ''actor4'') (JStr (render [[Txt ''fill: '', Val (e ''actor4'')]])) (JStr [])), Txt '';''],
   [Txt ''  }''],
   [Txt ''  .actor-5 {''],
   [Txt ''    '', Val (js_if (e ''actor5'') (JStr (render [[Txt ''fill: '', Val (e ''actor5'')]])) (JStr [])), Txt '';''],
   [Txt ''  }''],
   [Txt ''  '', Val (JStr (render icon_styles))],
   []]\<close>


section \<open>Gantt charts\<close>

definition gantt_styles_1 :: "theme \<Rightarrow> template" where
  \<open>gantt_styles_1 e =
  [[],
   [Txt ''  .mermaid-main-font {''],
   [Txt ''        font-family: '', Val (e ''fontFamily''), Txt '';''],
   [Txt ''  }''],
   [],
   [Txt ''  .exclude-range {''],
   [Txt ''    fill: '', Val (e ''excludeBkgColor''), Txt '';''],
   [Txt ''  }''],
   [],
   [Txt ''  .section {''],
   [Txt ''    stroke: none;''],
   [Txt ''    opacity: 0.2;''],
   [Txt ''  }''],
   [],
   [Txt ''  .section0 {''],
   [Txt ''    fill: '', Val (e ''sectionBkgColor''), Txt '';''],
   [Txt ''  }''],
   [],
   [Txt ''  .section2 {''],
   [Txt ''    fill: '', Val (e ''sectionBkgColor2''), Txt '';''],
   [Txt ''  }''],
   [],
   [Txt ''  .section1,''],
   [Txt ''  .section3 {''],
   [Txt ''    fill: '', Val (e ''altSectionBkgColor''), Txt '';''],
   [Txt ''    opacity: 0.2;''],
   [Txt ''  }''],
   [],
   [Txt ''  .sectionTitle0 {''],
   [Txt ''    fill: '', Val (e ''titleColor''), Txt '';''],
   [Txt ''  }''],
   [],
   [Txt ''  .sectionTitle1 {''],
   [Txt ''    fill: '', Val (e ''titleColor''), Txt '';''],
   [Txt ''  }''],
   [],
   [Txt ''  .sectionTitle2 {''],
   [Txt ''    fill: '', Val (e ''titleColor''), Txt '';''],
   [Txt ''  }''],
   [],
   [Txt ''  .sectionTitle3 {''],
   [Txt ''    fill: '', Val (e ''titleColor''), Txt '';''],
   [Txt ''  }''],
   [],
   [Txt ''  .sectionTitle {''],
   [Txt ''    text-anchor: start;''],
   [Txt ''    font-family: '', Val (e ''fontFamily''), Txt '';''],
   [Txt ''  }''],
   [],
   [],
   [Txt ''  /* Grid and axis */''],
   [],
   [Txt ''  .grid .tick {''],
   [Txt ''    stroke: '', Val (e ''gridColor''), Txt '';''],
   [Txt ''    opacity: 0.8;''],
   [Txt ''    shape-rendering: crispEdges;''],
   [Txt ''  }''],
   [],
   [Txt ''  .grid .tick text {''],
   [Txt ''    font-family: '', Val (e ''fontFamily''), Txt '';''],
   [Txt ''    fill: '', Val (e ''textColor''), Txt '';''],
   [Txt ''  }''],
   [],
   [Txt ''  .grid path {''],
   [Txt ''    stroke-width: 0;''],
   [Txt ''  }''],
   [],
   [],
   [Txt ''  /* Today line */''],
   [],
   [Txt ''  .today {''],
   [Txt ''    fill: none;''],
   [Txt ''    stroke: '', Val (e ''todayLineColor''), Txt '';''],
   [Txt ''    stroke-width: 2px;''],
   [Txt ''  }''],
   [],
   [],
   [Txt ''  /* Task styling */''],
   [],
   [Txt ''  /* Default task */''],
   [],
   [Txt ''  .task {''],
   [Txt ''    stroke-width: 2;''],
   [Txt ''  }''],
   [],
   [Txt ''  .taskText {''],
   [Txt ''    text-anchor: middle;''],
   [Txt ''    font-family: '', Val (e ''fontFamily''), Txt '';''],
   [Txt ''  }''],
   [],
   [Txt ''  .taskTextOutsideRight {''],
   [Txt ''    fill: '', Val (e ''taskTextDarkColor''), Txt '';''],
   [Txt ''    text-anchor: start;''],
   [Txt ''    font-family: '', Val (e ''fontFamily''), Txt '';''],
   [Txt ''  }''],
   [],
   [Txt ''  .taskTextOutsideLeft {''],
   [Txt ''    fill: '', Val (e ''taskTextDarkColor''), Txt '';''],
   [Txt ''    text-anchor: end;''],
   [Txt ''  }''],
   [],
   [],
   [Txt ''  /* Special case clickable */''],
   [],
   [Txt ''  .task.clickable {''],
   [Txt ''    cursor: pointer;''],
   [Txt ''  }''],
   [],
   [Txt ''  .taskText.clickable {''],
   [Txt ''    cursor: pointer;''],
   [Txt ''    fill: '', Val (e ''taskTextClickableColor''), Txt '' !important;''],
   [Txt ''    font-weight: bold;''],
   [Txt ''  }''],
   [],
   [Txt ''  .taskTextOutsideLeft.clickable {''],
   [Txt ''    cursor: pointer;''],
   [Txt ''    fill: '', Val (e ''taskTextClickableColor''), Txt '' !important;''],
   [Txt ''    font-weight: bold;''],
   [Txt ''  }''],
   [],
   [Txt ''  .taskTextOutsideRight.clickable {''],
   [Txt ''    cursor: pointer;''],
   [Txt ''    fill: '', Val (e ''taskTextClickableColor''), Txt '' !important;''],
   [Txt ''    font-weight: bold;''],
   [Txt ''  }''],
   [],
   [],
   [Txt ''  /* Specific task settings for the sections*/''],
   [],
   [Txt ''  .taskText0,''],
   [Txt ''  .taskText1,''],
   [Txt ''  .taskText2,''],
   [Txt ''  .taskText3 {''],
   [Txt ''    fill: '', Val (e ''taskTextColor''), Txt '';''],
   [Txt ''  }''],
   [],
   [Txt ''  .task0,''],
   [Txt ''  .task1,''],
   [Txt ''  .task2,''],
   [Txt ''  .task3 {''],
   [Txt ''    fill: '', Val (e ''taskBkgColor''), Txt '';''],
   [Txt ''    stroke: '', Val (e ''taskBorderColor''), Txt '';''],
   [Txt ''  }'']]\<close>

definition gantt_styles_2 :: "theme \<Rightarrow> template" where
  \<open>gantt_styles_2 e =
  [[],
   [Txt ''  .taskTextOutside0,''],
   [Txt ''  .taskTextOutside2''],
   [Txt ''  {''],
   [Txt ''    fill: '', Val (e ''taskTextOutsideColor''), Txt '';''],
   [Txt ''  }''],
   [],
   [Txt ''  .taskTextOutside1,''],
   [Txt ''  .taskTextOutside3 {''],
   [Txt ''    fill: '', Val (e ''taskTextOutsideColor''), Txt '';''],
   [Txt ''  }''],
   [],
   [],
   [Txt ''  /* Active task */''],
   [],
   [Txt ''  .active0,''],
   [Txt ''  .active1,''],
   [Txt ''  .active2,''],
   [Txt ''  .active3 {''],
   [Txt ''    fill: '', Val (e ''activeTaskBkgColor''), Txt '';''],
   [Txt ''    stroke: '', Val (e ''activeTaskBorderColor''), Txt '';''],
   [Txt ''  }''],
   [],
   [Txt ''  .activeText0,''],
   [Txt ''  .activeText1,''],
   [Txt ''  .activeText2,''],
   [Txt ''  .activeText3 {''],
   [Txt ''    fill: '', Val (e ''taskTextDarkColor''), Txt '' !important;''],
   [Txt ''  }''],
   [],
   [],
   [Txt ''  /* Completed task */''],
   [],
   [Txt ''  .done0,''],
   [Txt ''  .done1,''],
   [Txt ''  .done2,''],
   [Txt ''  .done3 {''],
   [Txt ''    stroke: '', Val (e ''doneTaskBorderColor''), Txt '';''],
   [Txt ''    fill: '', Val (e ''doneTaskBkgColor''), Txt '';''],
   [Txt ''    stroke-width: 2;''],
   [Txt ''  }''],
   [],
   [Txt ''  .doneText0,''],
   [Txt ''  .doneText1,''],
   [Txt ''  .doneText2,''],
   [Txt ''  .doneText3 {''],
   [Txt ''    fill: '', Val (e ''taskTextDarkColor''), Txt '' !important;''],
   [Txt ''  }''],
   [],
   [Txt ''  /* Done task text displayed outside the bar sits against the diagram background,''],
   [Txt ''     not against the done-task bar, so it must use the outside/contrast color. */''],
   [Txt ''  .doneText0.taskTextOutsideLeft,''],
   [Txt ''  .doneText0.taskTextOutsideRight,''],
   [Txt ''  .doneText1.taskTextOutsideLeft,''],
   [Txt ''  .doneText1.taskTextOutsideRight,''],
   [Txt ''  .doneText2.taskTextOutsideLeft,''],
   [Txt ''  .doneText2.taskTextOutsideRight,''],
   [Txt ''  .doneText3.taskTextOutsideLeft,''],
   [Txt ''  .doneText3.taskTextOutsideRight {''],
   [Txt ''    fill: '', Val (e ''taskTextOutsideColor''), Txt '' !important;''],
   [Txt ''  }''],
   [],
   [],
   [Txt ''  /* Tasks on the critical line */''],
   [],
   [Txt ''  .crit0,''],
   [Txt ''  .crit1,''],
   [Txt ''  .crit2,''],
   [Txt ''  .crit3 {''],
   [Txt ''    stroke: '', Val (e ''critBorderColor''), Txt '';''],
   [Txt ''    fill: '', Val (e ''critBkgColor''), Txt '';''],
   [Txt ''    stroke-width: 2;''],
   [Txt ''  }''],
   [],
   [Txt ''  .activeCrit0,''],
   [Txt ''  .activeCrit1,''],
   [Txt ''  .activeCrit2,''],
   [Txt ''  .activeCrit3 {''],
   [Txt ''    stroke: '', Val (e ''critBorderColor''), Txt '';''],
   [Txt ''    fill: '', Val (e ''activeTaskBkgColor''), Txt '';''],
   [Txt ''    stroke-width: 2;''],
   [Txt ''  }''],
   [],
   [Txt ''  .doneCrit0,''],
   [Txt ''  .doneCrit1,''],
   [Txt ''  .doneCrit2,''],
   [Txt ''  .doneCrit3 {''],
   [Txt ''    stroke: '', Val (e ''critBorderColor''), Txt '';''],
   [Txt ''    fill: '', Val (e ''doneTaskBkgColor''), Txt '';''],
   [Txt ''    stroke-width: 2;''],
   [Txt ''    cursor: pointer;''],
   [Txt ''    shape-rendering: crispEdges;''],
   [Txt ''  }''],
   [],
   [Txt ''  .milestone {''],
   [Txt ''    transform: rotate(45deg) scale(0.8,0.8);''],
   [Txt ''  }''],
   [],
   [Txt ''  .milestoneText {''],
   [Txt ''    font-style: italic;''],
   [Txt ''  }''],
   [Txt ''  .doneCritText0,''],
   [Txt ''  .doneCritText1,''],
   [Txt ''  .doneCritText2,''],
   [Txt ''  .doneCritText3 {''],
   [Txt ''    fill: '', Val (e ''taskTextDarkColor''), Txt '' !important;''],
   [Txt ''  }''],
   [],
   [Txt ''  /* Done-crit task text outside the bar '', Chr 8212, Txt '' same reasoning as doneText above. */''],
   [Txt ''  .doneCritText0.taskTextOutsideLeft,''],
   [Txt ''  .doneCritText0.taskTextOutsideRight,''],
   [Txt ''  .doneCritText1.taskTextOutsideLeft,''],
   [Txt ''  .doneCritText1.taskTextOutsideRight,''],
   [Txt ''  .doneCritText2.taskTextOutsideLeft,''],
   [Txt ''  .doneCritText2.taskTextOutsideRight,''],
   [Txt ''  .doneCritText3.taskTextOutsideLeft,''],
   [Txt ''  .doneCritText3.taskTextOutsideRight {''],
   [Txt ''    fill: '', Val (e ''taskTextOutsideColor''), Txt '' !important;''],
   [Txt ''  }''],
   [],
   [Txt ''  .vert {''],
   [Txt ''    stroke: '', Val (e ''vertLineColor''), Txt '';''],
   [Txt ''  }''],
   [],
   [Txt ''  .vertText {''],
   [Txt ''    font-size: 15px;''],
   [Txt ''    text-anchor: middle;''],
   [Txt ''    fill: '', Val (e ''vertLineColor''), Txt '' !important;''],
   [Txt ''  }''],
   [],
   [Txt ''  .activeCritText0,''],
   [Txt ''  .activeCritText1,''],
   [Txt ''  .activeCritText2,''],
   [Txt ''  .activeCritText3 {''],
   [Txt ''    fill: '', Val (e ''taskTextDarkColor''), Txt '' !important;''],
   [Txt ''  }''],
   [],
   [Txt ''  .titleText {''],
   [Txt ''    text-anchor: middle;''],
   [Txt ''    font-size: 18px;''],
   [Txt ''    fill: '', Val (js_or (e ''titleColor'') (e ''textColor'')), Txt '';''],
   [Txt ''    font-family: '', Val (e ''fontFamily''), Txt '';''],
   [Txt ''  }''],
   []]\<close>

definition gantt_styles :: "theme \<Rightarrow> template" where
  "gantt_styles e = gantt_styles_1 e @ gantt_styles_2 e"


section \<open>State diagrams\<close>

definition state_styles_1 :: "theme \<Rightarrow> template" where
  \<open>state_styles_1 e =
  [[],
   [Txt ''defs [id$="-barbEnd"] {''],
   [Txt ''    fill: '', Val (e ''transitionColor''), Txt '';''],
   [Txt ''    stroke: '', Val (e ''transitionColor''), Txt '';''],
   [Txt ''  }''],
   [Txt ''g.stateGroup text {''],
   [Txt ''  fill: '', Val (e ''nodeBorder''), Txt '';''],
   [Txt ''  stroke: none;''],
   [Txt ''  font-size: 10px;''],
   [Txt ''}''],
   [Txt ''g.stateGroup text {''],
   [Txt ''  fill: '', Val (e ''textColor''), Txt '';''],
   [Txt ''  stroke: none;''],
   [Txt ''  font-size: 10px;''],
   [],
   [Txt ''}''],
   [Txt ''g.stateGroup .state-title {''],
   [Txt ''  font-weight: bolder;''],
   [Txt ''  fill: '', Val (e ''stateLabelColor''), Txt '';''],
   [Txt ''}''],
   [],
   [Txt ''g.stateGroup rect {''],
   [Txt ''  fill: '', Val (e ''mainBkg''), Txt '';''],
   [Txt ''  stroke: '', Val (e ''nodeBorder''), Txt '';''],
   [Txt ''}''],
   [],
   [Txt ''g.stateGroup line {''],
   [Txt ''  stroke: '', Val (e ''lineColor''), Txt '';''],
   [Txt ''  stroke-width: '', Val (js_or (e ''strokeWidth'') (JNum 1)), Txt '';''],
   [Txt ''}''],
   [],
   [Txt ''.transition {''],
   [Txt ''  stroke: '', Val (e ''transitionColor''), Txt '';''],
   [Txt ''  stroke-width: '', Val (js_or (e ''strokeWidth'') (JNum 1)), Txt '';''],
   [Txt ''  fill: none;''],
   [Txt ''}''],
   [],
   [Txt ''.stateGroup .composit {''],
   [Txt ''  fill: '', Val (e ''background''), Txt '';''],
   [Txt ''  border-bottom: 1px''],
   [Txt ''}''],
   [],
   [Txt ''.stateGroup .alt-composit {''],
   [Txt ''  fill: #e0e0e0;''],
   [Txt ''  border-bottom: 1px''],
   [Txt ''}''],
   [],
   [Txt ''.state-note {''],
   [Txt ''  stroke: '', Val (e ''noteBorderColor''), Txt '';''],
   [Txt ''  fill: '', Val (e ''noteBkgColor''), Txt '';''],
   [],
   [Txt ''  text {''],
   [Txt ''    fill: '', Val (e ''noteTextColor''), Txt '';''],
   [Txt ''    stroke: none;''],
   [Txt ''    font-size: 10px;''],
   [Txt ''  }''],
   [Txt ''}''],
   [],
   [Txt ''.stateLabel .box {''],
   [Txt ''  stroke: none;''],
   [Txt ''  stroke-width: 0;''],
   [Txt ''  fill: '', Val (e ''mainBkg''), Txt '';''],
   [Txt ''  opacity: 0.5;''],
   [Txt ''}''],
   [],
   [Txt ''.edgeLabel .label rect {''],
   [Txt ''  fill: '', Val (e ''labelBackgroundColor''), Txt '';''],
   [Txt ''  opacity: 0.5;''],
   [Txt ''}''],
   [Txt ''.edgeLabel {''],
   [Txt ''  background-color: '', Val (e ''edgeLabelBackground''), Txt '';''],
   [Txt ''  p {''],
   [Txt ''    background-color: '', Val (e ''edgeLabelBackground''), Txt '';''],
   [Txt ''  }''],
   [Txt ''  rect {''],
   [Txt ''    opacity: 0.5;''],
   [Txt ''    background-color: '', Val (e ''edgeLabelBackground''), Txt '';''],
   [Txt ''    fill: '', Val (e ''edgeLabelBackground''), Txt '';''],
   [Txt ''  }''],
   [Txt ''  text-align: center;''],
   [Txt ''}''],
   [Txt ''.edgeLabel .label text {''],
   [Txt ''  fill: '', Val (js_or (e ''transitionLabelColor'') (e ''tertiaryTextColor'')), Txt '';''],
   [Txt ''}''],
   [Txt ''.label div .edgeLabel {''],
   [Txt ''  color: '', Val (js_or (e ''transitionLabelColor'') (e ''tertiaryTextColor'')), Txt '';''],
   [Txt ''}''],
   [],
   [Txt ''.stateLabel text {''],
   [Txt ''  fill: '', Val (e ''stateLabelColor''), Txt '';''],
   [Txt ''  font-size: 10px;''],
   [Txt ''  font-weight: bold;''],
   [Txt ''}''],
   [],
   [Txt ''.node circle.state-start {''],
   [Txt ''  fill: '', Val (e ''specialStateColor''), Txt '';''],
   [Txt ''  stroke: '', Val (e ''specialStateColor''), Txt '';''],
   [Txt ''}''],
   [],
   [Txt ''.node .fork-join {''],
   [Txt ''  fill: '', Val (e ''specialStateColor''), Txt '';''],
   [Txt ''  stroke: '', Val (e ''specialStateColor''), Txt '';''],
   [Txt ''}''],
   [],
   [Txt ''.node circle.state-end {''],
   [Txt ''  fill: '', Val (e ''innerEndBackground''), Txt '';''],
   [Txt ''  stroke: '', Val (e ''background''), Txt '';''],
   [Txt ''  stroke-width: 1.5''],
   [Txt ''}''],
   [Txt ''.end-state-inner {''],
   [Txt ''  fill: '', Val (js_or (e ''compositeBackground'') (e ''background'')), Txt '';''],
   [Txt ''  // stroke: '', Val (e ''background''), Txt '';''],
   [Txt ''  stroke-width: 1.5'']]\<close>

definition state_styles_2 :: "theme \<Rightarrow> template" where
  \<open>state_styles_2 e =
  [[Txt ''}''],
   [],
   [Txt ''.node rect {''],
   [Txt ''  fill: '', Val (js_or (e ''stateBkg'') (e ''mainBkg'')), Txt '';''],
   [Txt ''  stroke: '', Val (js_or (e ''stateBorder'') (e ''nodeBorder'')), Txt '';''],
   [Txt ''  stroke-width: '', Val (js_or (e ''strokeWidth'') (JNum 1)), Txt ''px;''],
   [Txt ''}''],
   [Txt ''.node polygon {''],
   [Txt ''  fill: '', Val (e ''mainBkg''), Txt '';''],
   [Txt ''  stroke: '', Val (js_or (e ''stateBorder'') (e ''nodeBorder'')), Txt '';;''],
   [Txt ''  stroke-width: '', Val (js_or (e ''strokeWidth'') (JNum 1)), Txt ''px;''],
   [Txt ''}''],
   [Txt ''[id$="-barbEnd"] {''],
   [Txt ''  fill: '', Val (e ''lineColor''), Txt '';''],
   [Txt ''}''],
   [],
   [Txt ''.statediagram-cluster rect {''],
   [Txt ''  fill: '', Val (e ''compositeTitleBackground''), Txt '';''],
   [Txt ''  stroke: '', Val (js_or (e ''stateBorder'') (e ''nodeBorder'')), Txt '';''],
   [Txt ''  stroke-width: '', Val (js_or (e ''strokeWidth'') (JNum 1)), Txt ''px;''],
   [Txt ''}''],
   [],
   [Txt ''.cluster-label, .nodeLabel {''],
   [Txt ''  color: '', Val (e ''stateLabelColor''), Txt '';''],
   [Txt ''  // line-height: 1;''],
   [Txt ''}''],
   [],
   [Txt ''.statediagram-cluster rect.outer {''],
   [Txt ''  rx: 5px;''],
   [Txt ''  ry: 5px;''],
   [Txt ''}''],
   [Txt ''.statediagram-state .divider {''],
   [Txt ''  stroke: '', Val (js_or (e ''stateBorder'') (e ''nodeBorder'')), Txt '';''],
   [Txt ''}''],
   [],
   [Txt ''.statediagram-state .title-state {''],
   [Txt ''  rx: 5px;''],
   [Txt ''  ry: 5px;''],
   [Txt ''}''],
   [Txt ''.statediagram-cluster.statediagram-cluster .inner {''],
   [Txt ''  fill: '', Val (js_or (e ''compositeBackground'') (e ''background'')), Txt '';''],
   [Txt ''}''],
   [Txt ''.statediagram-cluster.statediagram-cluster-alt .inner {''],
   [Txt ''  fill: '', Val (js_if (e ''altBackground'') (e ''altBackground'') (JStr (lit ''#efefef''))), Txt '';''],
   [Txt ''}''],
   [],
   [Txt ''.statediagram-cluster .inner {''],
   [Txt ''  rx:0;''],
   [Txt ''  ry:0;''],
   [Txt ''}''],
   [],
   [Txt ''.statediagram-state rect.basic {''],
   [Txt ''  rx: 5px;''],
   [Txt ''  ry: 5px;''],
   [Txt ''}''],
   [Txt ''.statediagram-state rect.divider {''],
   [Txt ''  stroke-dasharray: 10,10;''],
   [Txt ''  fill: '', Val (js_if (e ''altBackground'') (e ''altBackground'') (JStr (lit ''#efefef''))), Txt '';''],
   [Txt ''}''],
   [],
   [Txt ''.note-edge {''],
   [Txt ''  stroke-dasharray: 5;''],
   [Txt ''}''],
   [],
   [Txt ''.statediagram-note rect {''],
   [Txt ''  fill: '', Val (e ''noteBkgColor''), Txt '';''],
   [Txt ''  stroke: '', Val (e ''noteBorderColor''), Txt '';''],
   [Txt ''  stroke-width: 1px;''],
   [Txt ''  rx: 0;''],
   [Txt ''  ry: 0;''],
   [Txt ''}''],
   [Txt ''.statediagram-note rect {''],
   [Txt ''  fill: '', Val (e ''noteBkgColor''), Txt '';''],
   [Txt ''  stroke: '', Val (e ''noteBorderColor''), Txt '';''],
   [Txt ''  stroke-width: 1px;''],
   [Txt ''  rx: 0;''],
   [Txt ''  ry: 0;''],
   [Txt ''}''],
   [],
   [Txt ''.statediagram-note text {''],
   [Txt ''  fill: '', Val (e ''noteTextColor''), Txt '';''],
   [Txt ''}''],
   [],
   [Txt ''.statediagram-note .nodeLabel {''],
   [Txt ''  color: '', Val (e ''noteTextColor''), Txt '';''],
   [Txt ''}''],
   [Txt ''.statediagram .edgeLabel {''],
   [Txt ''  color: red; // '', Val (e ''noteTextColor''), Txt '';''],
   [Txt ''}''],
   [],
   [Txt ''[id$="-dependencyStart"], [id$="-dependencyEnd"] {''],
   [Txt ''  fill: '', Val (e ''lineColor''), Txt '';''],
   [Txt ''  stroke: '', Val (e ''lineColor''), Txt '';''],
   [Txt ''  stroke-width: '', Val (js_or (e ''strokeWidth'') (JNum 1)), Txt '';''],
   [Txt ''}''],
   [],
   [Txt ''.statediagramTitleText {''],
   [Txt ''  text-anchor: middle;''],
   [Txt ''  font-size: 18px;''],
   [Txt ''  fill: '', Val (e ''textColor''), Txt '';''],
   [Txt ''}''],
   [],
   [Txt ''[data-look="neo"].statediagram-cluster rect {''],
   [Txt ''  fill: '', Val (e ''mainBkg''), Txt '';''],
   [Txt ''  stroke: '', Val (js_if (e ''useGradient'') (JStr (lit ''url('' @ to_string (e ''svgId'') @ lit ''-gradient)'')) (js_or (e ''stateBorder'') (e ''nodeBorder''))), Txt '';''],
   [Txt ''  stroke-width: '', Val (js_coalesce (e ''strokeWidth'') (JNum 1)), Txt '';''],
   [Txt ''}''],
   [Txt ''[data-look="neo"].statediagram-cluster rect.outer {''],
   [Txt ''  rx: '', Val (e ''radius''), Txt ''px;''],
   [Txt ''  ry: '', Val (e ''radius''), Txt ''px;''],
   [Txt ''  filter: '', Val (js_if (e ''dropShadow'') (js_replace (e ''dropShadow'') (JStr (lit ''url(#drop-shadow)'')) (JStr (render [[Txt ''url('', Val (e ''svgId''), Txt ''-drop-shadow)'']]))) (JStr (lit ''none'')))],
   [Txt ''}''],
   []]\<close>

definition state_styles :: "theme \<Rightarrow> template option" where
  "state_styles e = (if shadow_throws e then None else Some (state_styles_1 e @ state_styles_2 e))"

end
