(* ===== verification/Mermaid_Theme_Styles.thy ===== *)
theory Mermaid_Theme_Styles
  imports Mermaid_Styles
begin

text \<open>
  The style sheets of \<open>docs/mermaid.tiny.js\<close>, third part: the sheets with colours computed in a loop or by
  a colour function, and those of small option objects. As before each template literal is given line
  for line. A sheet whose function throws is \<open>None\<close>.
\<close>

section \<open>Loops over the theme's colours\<close>

text \<open>A number in a property name.\<close>

definition dec :: "nat \<Rightarrow> string" where
  "dec n = map char_of (show_nat n)"

text \<open>
  How often \<open>for (let l = 0; l < v; l++)\<close> runs. A string is compared as a number; only decimal numerals are
  modelled. For every other string and for objects there is no sheet here: with the string \<open>Infinity\<close> the
  loop does not end.
\<close>

fun loop_bound :: "js \<Rightarrow> nat option" where
  "loop_bound JUndef = Some 0"
| "loop_bound JNull = Some 0"
| "loop_bound (JBool b) = Some (if b then 1 else 0)"
| "loop_bound (JNum n) = Some (nat n)"
| "loop_bound (JStr s) = (if list_all is_digit s then Some (digits_val 0 s) else None)"
| "loop_bound (JArr _) = None"
| "loop_bound (JObj _) = None"

text \<open>\<open>o += ...\<close> in such a loop.\<close>

fun rules :: "(nat \<Rightarrow> template option) \<Rightarrow> nat list \<Rightarrow> ustr option" where
  "rules f [] = Some []"
| "rules f (l # ls) =
     (case f l of
        None \<Rightarrow> None
      | Some T \<Rightarrow> map_option (\<lambda>s. render T @ s) (rules f ls))"

definition color_rules :: "theme \<Rightarrow> (nat \<Rightarrow> template option) \<Rightarrow> ustr option" where
  "color_rules e f = Option.bind (loop_bound (e ''THEME_COLOR_LIMIT'')) (\<lambda>n. rules f [0..<n])"

text \<open>
  The indexed elements of a value: of an array, or the characters of a string; other values have none,
  and reading one of \<open>undefined\<close> or \<open>null\<close> throws.
\<close>

fun elements :: "js \<Rightarrow> js list option" where
  "elements (JArr vs) = Some vs"
| "elements (JStr s) = Some (map (\<lambda>c. JStr [c]) s)"
| "elements JUndef = None"
| "elements JNull = None"
| "elements _ = Some []"

definition element :: "js list \<Rightarrow> nat \<Rightarrow> js" where
  "element vs l = (if l < length vs then vs ! l else JUndef)"

text \<open>\<open>v?.length > 0\<close>\<close>

definition has_elements :: "js \<Rightarrow> bool" where
  "has_elements v \<longleftrightarrow> (case elements v of None \<Rightarrow> False | Some vs \<Rightarrow> vs \<noteq> [])"

text \<open>Membership in a \<open>Set\<close> of theme names.\<close>

definition in_set :: "string list \<Rightarrow> js \<Rightarrow> bool" where
  "in_set names v \<longleftrightarrow> v \<in> (\<lambda>n. JStr (lit n)) ` set names"

definition with_text :: "ustr option \<Rightarrow> (js \<Rightarrow> template) \<Rightarrow> template option" where
  "with_text c T = map_option (\<lambda>s. T (JStr s)) c"


section \<open>Packet, treemap, Wardley map and tree view\<close>

text \<open>The arguments are the options merged with their defaults.\<close>

definition packet_styles :: "theme \<Rightarrow> template" where
  \<open>packet_styles t =
  [[],
   [Chr 9, Txt ''.packetByte {''],
   [Chr 9, Chr 9, Txt ''font-size: '', Val (t ''byteFontSize''), Txt '';''],
   [Chr 9, Txt ''}''],
   [Chr 9, Txt ''.packetByte.start {''],
   [Chr 9, Chr 9, Txt ''fill: '', Val (t ''startByteColor''), Txt '';''],
   [Chr 9, Txt ''}''],
   [Chr 9, Txt ''.packetByte.end {''],
   [Chr 9, Chr 9, Txt ''fill: '', Val (t ''endByteColor''), Txt '';''],
   [Chr 9, Txt ''}''],
   [Chr 9, Txt ''.packetLabel {''],
   [Chr 9, Chr 9, Txt ''fill: '', Val (t ''labelColor''), Txt '';''],
   [Chr 9, Chr 9, Txt ''font-size: '', Val (t ''labelFontSize''), Txt '';''],
   [Chr 9, Txt ''}''],
   [Chr 9, Txt ''.packetTitle {''],
   [Chr 9, Chr 9, Txt ''fill: '', Val (t ''titleColor''), Txt '';''],
   [Chr 9, Chr 9, Txt ''font-size: '', Val (t ''titleFontSize''), Txt '';''],
   [Chr 9, Txt ''}''],
   [Chr 9, Txt ''.packetBlock {''],
   [Chr 9, Chr 9, Txt ''stroke: '', Val (t ''blockStrokeColor''), Txt '';''],
   [Chr 9, Chr 9, Txt ''stroke-width: '', Val (t ''blockStrokeWidth''), Txt '';''],
   [Chr 9, Chr 9, Txt ''fill: '', Val (t ''blockFillColor''), Txt '';''],
   [Chr 9, Txt ''}''],
   [Chr 9]]\<close>

definition treemap_styles :: "theme \<Rightarrow> theme \<Rightarrow> template" where
  \<open>treemap_styles n i =
  (let s = js_coalesce (n ''titleColor'') (i ''titleColor'');
    o' = js_coalesce (n ''labelColor'') (i ''textColor'');
    l = js_coalesce (n ''valueColor'') (i ''textColor'') in
  [[],
   [Txt ''  .treemapNode.section {''],
   [Txt ''    stroke: '', Val (n ''sectionStrokeColor''), Txt '';''],
   [Txt ''    stroke-width: '', Val (n ''sectionStrokeWidth''), Txt '';''],
   [Txt ''    fill: '', Val (n ''sectionFillColor''), Txt '';''],
   [Txt ''  }''],
   [Txt ''  .treemapNode.leaf {''],
   [Txt ''    stroke: '', Val (n ''leafStrokeColor''), Txt '';''],
   [Txt ''    stroke-width: '', Val (n ''leafStrokeWidth''), Txt '';''],
   [Txt ''    fill: '', Val (n ''leafFillColor''), Txt '';''],
   [Txt ''  }''],
   [Txt ''  .treemapLabel {''],
   [Txt ''    fill: '', Val o', Txt '';''],
   [Txt ''    font-size: '', Val (n ''labelFontSize''), Txt '';''],
   [Txt ''  }''],
   [Txt ''  .treemapValue {''],
   [Txt ''    fill: '', Val l, Txt '';''],
   [Txt ''    font-size: '', Val (n ''valueFontSize''), Txt '';''],
   [Txt ''  }''],
   [Txt ''  .treemapTitle {''],
   [Txt ''    fill: '', Val s, Txt '';''],
   [Txt ''    font-size: '', Val (n ''titleFontSize''), Txt '';''],
   [Txt ''  }''],
   [Txt ''  '']])\<close>

definition wardley_styles :: "theme \<Rightarrow> template" where
  \<open>wardley_styles n =
  [[],
   [Txt ''  .wardley-background {''],
   [Txt ''    fill: '', Val (n ''backgroundColor''), Txt '';''],
   [Txt ''  }''],
   [Txt ''  .wardley-axes line, .wardley-axes path {''],
   [Txt ''    stroke: '', Val (n ''axisColor''), Txt '';''],
   [Txt ''  }''],
   [Txt ''  .wardley-axis-label {''],
   [Txt ''    fill: '', Val (n ''axisTextColor''), Txt '';''],
   [Txt ''  }''],
   [Txt ''  .wardley-stage-label {''],
   [Txt ''    fill: '', Val (n ''axisTextColor''), Txt '';''],
   [Txt ''  }''],
   [Txt ''  .wardley-grid line {''],
   [Txt ''    stroke: '', Val (n ''gridColor''), Txt '';''],
   [Txt ''  }''],
   [Txt ''  .wardley-node circle {''],
   [Txt ''    fill: '', Val (n ''componentFill''), Txt '';''],
   [Txt ''    stroke: '', Val (n ''componentStroke''), Txt '';''],
   [Txt ''  }''],
   [Txt ''  .wardley-node-label {''],
   [Txt ''    fill: '', Val (n ''componentLabelColor''), Txt '';''],
   [Txt ''  }''],
   [Txt ''  .wardley-link {''],
   [Txt ''    stroke: '', Val (n ''linkStroke''), Txt '';''],
   [Txt ''  }''],
   [Txt ''  .wardley-link--dashed {''],
   [Txt ''    stroke-dasharray: 4 4;''],
   [Txt ''  }''],
   [Txt ''  .wardley-link-label {''],
   [Txt ''    fill: '', Val (n ''axisTextColor''), Txt '';''],
   [Txt ''  }''],
   [Txt ''  .wardley-trend line {''],
   [Txt ''    stroke: '', Val (n ''evolutionStroke''), Txt '';''],
   [Txt ''  }''],
   [Txt ''  .wardley-annotation-line {''],
   [Txt ''    stroke: '', Val (n ''annotationStroke''), Txt '';''],
   [Txt ''  }''],
   [Txt ''  .wardley-annotation circle {''],
   [Txt ''    fill: '', Val (n ''annotationFill''), Txt '';''],
   [Txt ''    stroke: '', Val (n ''annotationStroke''), Txt '';''],
   [Txt ''  }''],
   [Txt ''  .wardley-annotation text {''],
   [Txt ''    fill: '', Val (n ''annotationTextColor''), Txt '';''],
   [Txt ''  }''],
   [Txt ''  .wardley-annotations-box rect {''],
   [Txt ''    fill: '', Val (n ''annotationFill''), Txt '';''],
   [Txt ''    stroke: '', Val (n ''annotationStroke''), Txt '';''],
   [Txt ''  }''],
   [Txt ''  .wardley-annotations-box text {''],
   [Txt ''    fill: '', Val (n ''annotationTextColor''), Txt '';''],
   [Txt ''  }''],
   [Txt ''  .wardley-pipeline-box {''],
   [Txt ''    stroke: '', Val (n ''componentStroke''), Txt '';''],
   [Txt ''  }''],
   [Txt ''  .wardley-notes text {''],
   [Txt ''    fill: '', Val (n ''axisTextColor''), Txt '';''],
   [Txt ''  }''],
   [Txt ''  '']]\<close>

definition treeview_styles :: "js \<Rightarrow> js \<Rightarrow> js \<Rightarrow> template" where
  \<open>treeview_styles t r i =
  [[],
   [Txt ''    .treeView-node-label {''],
   [Txt ''        font-size: '', Val t, Txt '';''],
   [Txt ''        fill: '', Val r, Txt '';''],
   [Txt ''    }''],
   [Txt ''    .treeView-node-line {''],
   [Txt ''        stroke: '', Val i, Txt '';''],
   [Txt ''    }''],
   [Txt ''    '']]\<close>


section \<open>Radar charts\<close>

definition radar_rule :: "theme \<Rightarrow> theme \<Rightarrow> nat \<Rightarrow> template" where
  \<open>radar_rule e t i =
  (let n = e (''cScale'' @ dec i) in
  [[],
   [Chr 9, Chr 9, Txt ''.radarCurve-'', Val (JNum (int i)), Txt '' {''],
   [Chr 9, Chr 9, Chr 9, Txt ''color: '', Val n, Txt '';''],
   [Chr 9, Chr 9, Chr 9, Txt ''fill: '', Val n, Txt '';''],
   [Chr 9, Chr 9, Chr 9, Txt ''fill-opacity: '', Val (t ''curveOpacity''), Txt '';''],
   [Chr 9, Chr 9, Chr 9, Txt ''stroke: '', Val n, Txt '';''],
   [Chr 9, Chr 9, Chr 9, Txt ''stroke-width: '', Val (t ''curveStrokeWidth''), Txt '';''],
   [Chr 9, Chr 9, Txt ''}''],
   [Chr 9, Chr 9, Txt ''.radarLegendBox-'', Val (JNum (int i)), Txt '' {''],
   [Chr 9, Chr 9, Chr 9, Txt ''fill: '', Val n, Txt '';''],
   [Chr 9, Chr 9, Chr 9, Txt ''fill-opacity: '', Val (t ''curveOpacity''), Txt '';''],
   [Chr 9, Chr 9, Chr 9, Txt ''stroke: '', Val n, Txt '';''],
   [Chr 9, Chr 9, Txt ''}''],
   [Chr 9, Chr 9]])\<close>

text \<open>\<open>t\<close> are the theme variables, \<open>r\<close> the options of the chart.\<close>

definition radar_sheet :: "theme \<Rightarrow> theme \<Rightarrow> js \<Rightarrow> template" where
  \<open>radar_sheet t r c =
  [[],
   [Chr 9, Txt ''.radarTitle {''],
   [Chr 9, Chr 9, Txt ''font-size: '', Val (t ''fontSize''), Txt '';''],
   [Chr 9, Chr 9, Txt ''color: '', Val (t ''titleColor''), Txt '';''],
   [Chr 9, Chr 9, Txt ''dominant-baseline: hanging;''],
   [Chr 9, Chr 9, Txt ''text-anchor: middle;''],
   [Chr 9, Txt ''}''],
   [Chr 9, Txt ''.radarAxisLine {''],
   [Chr 9, Chr 9, Txt ''stroke: '', Val (r ''axisColor''), Txt '';''],
   [Chr 9, Chr 9, Txt ''stroke-width: '', Val (r ''axisStrokeWidth''), Txt '';''],
   [Chr 9, Txt ''}''],
   [Chr 9, Txt ''.radarAxisLabel {''],
   [Chr 9, Chr 9, Txt ''dominant-baseline: middle;''],
   [Chr 9, Chr 9, Txt ''text-anchor: middle;''],
   [Chr 9, Chr 9, Txt ''font-size: '', Val (r ''axisLabelFontSize''), Txt ''px;''],
   [Chr 9, Chr 9, Txt ''color: '', Val (r ''axisColor''), Txt '';''],
   [Chr 9, Txt ''}''],
   [Chr 9, Txt ''.radarGraticule {''],
   [Chr 9, Chr 9, Txt ''fill: '', Val (r ''graticuleColor''), Txt '';''],
   [Chr 9, Chr 9, Txt ''fill-opacity: '', Val (r ''graticuleOpacity''), Txt '';''],
   [Chr 9, Chr 9, Txt ''stroke: '', Val (r ''graticuleColor''), Txt '';''],
   [Chr 9, Chr 9, Txt ''stroke-width: '', Val (r ''graticuleStrokeWidth''), Txt '';''],
   [Chr 9, Txt ''}''],
   [Chr 9, Txt ''.radarLegendText {''],
   [Chr 9, Chr 9, Txt ''text-anchor: start;''],
   [Chr 9, Chr 9, Txt ''font-size: '', Val (r ''legendFontSize''), Txt ''px;''],
   [Chr 9, Chr 9, Txt ''dominant-baseline: hanging;''],
   [Chr 9, Txt ''}''],
   [Chr 9, Val c],
   [Chr 9]]\<close>

definition radar_styles :: "theme \<Rightarrow> theme \<Rightarrow> template option" where
  "radar_styles t r = with_text (color_rules t (\<lambda>i. Some (radar_rule t r i))) (radar_sheet t r)"


section \<open>Requirement diagrams\<close>

text \<open>\<open>tv\<close> are the theme variables and \<open>look\<close> the look of the configuration.\<close>

definition requirement_rule :: "js \<Rightarrow> js \<Rightarrow> js list \<Rightarrow> nat \<Rightarrow> template" where
  \<open>requirement_rule look n s l =
  [[],
   [],
   [Txt ''    [data-look="'', Val look, Txt ''"][data-color-id="color-'', Val (JNum (int l)), Txt ''"].node path {''],
   [Txt ''    stroke: '', Val (element s l), Txt '';''],
   [Txt ''    fill: '', Val (if has_elements n then element (the (elements n)) l else JStr []), Txt '';''],
   [Txt ''    }''],
   [],
   [Txt ''    [data-look="'', Val look, Txt ''"][data-color-id="color-'', Val (JNum (int l)), Txt ''"].node  rect {''],
   [Txt ''    stroke: '', Val (element s l), Txt '';''],
   [Txt ''    fill: '', Val (if has_elements n then element (the (elements n)) l else JStr []), Txt '';''],
   [Txt ''     }''],
   [Txt ''    '']]\<close>

definition requirement_colors :: "theme \<Rightarrow> theme \<Rightarrow> js \<Rightarrow> ustr option" where
  "requirement_colors e tv look =
     (case elements (tv ''borderColorArray'') of
        None \<Rightarrow> Some []
      | Some s \<Rightarrow> if s = [] then Some []
          else color_rules e (\<lambda>l. Some (requirement_rule look (tv ''bkgColorArray'') s l)))"

definition requirement_sheet :: "theme \<Rightarrow> js \<Rightarrow> js \<Rightarrow> js \<Rightarrow> template" where
  \<open>requirement_sheet e r n c =
  [[],
   [Txt ''  '', Val c],
   [Txt ''  marker {''],
   [Txt ''    fill: '', Val (e ''relationColor''), Txt '';''],
   [Txt ''    stroke: '', Val (e ''relationColor''), Txt '';''],
   [Txt ''  }''],
   [],
   [Txt ''  marker.cross {''],
   [Txt ''    stroke: '', Val (e ''lineColor''), Txt '';''],
   [Txt ''  }''],
   [],
   [Txt ''  svg {''],
   [Txt ''    font-family: '', Val (e ''fontFamily''), Txt '';''],
   [Txt ''    font-size: '', Val (e ''fontSize''), Txt '';''],
   [Txt ''  }''],
   [],
   [Txt ''  .reqBox {''],
   [Txt ''    fill: '', Val (e ''requirementBackground''), Txt '';''],
   [Txt ''    fill-opacity: 1.0;''],
   [Txt ''    stroke: '', Val (e ''requirementBorderColor''), Txt '';''],
   [Txt ''    stroke-width: '', Val (e ''requirementBorderSize''), Txt '';''],
   [Txt ''  }''],
   [Txt ''  ''],
   [Txt ''  .reqTitle, .reqLabel{''],
   [Txt ''    fill:  '', Val (e ''requirementTextColor''), Txt '';''],
   [Txt ''  }''],
   [Txt ''  .reqLabelBox {''],
   [Txt ''    fill: '', Val (e ''relationLabelBackground''), Txt '';''],
   [Txt ''    fill-opacity: 1.0;''],
   [Txt ''  }''],
   [],
   [Txt ''  .req-title-line {''],
   [Txt ''    stroke: '', Val (e ''requirementBorderColor''), Txt '';''],
   [Txt ''    stroke-width: '', Val (e ''requirementBorderSize''), Txt '';''],
   [Txt ''  }''],
   [Txt ''  .relationshipLine {''],
   [Txt ''    stroke: '', Val (e ''relationColor''), Txt '';''],
   [Txt ''    stroke-width: '', Val (if r = JStr (lit ''neo'') then e ''strokeWidth'' else JStr (lit ''1px'')), Txt '';''],
   [Txt ''  }''],
   [Txt ''  .relationshipLabel {''],
   [Txt ''    fill: '', Val (e ''relationLabelColor''), Txt '';''],
   [Txt ''  }''],
   [Txt ''    .edgeLabel {''],
   [Txt ''    background-color: '', Val (e ''edgeLabelBackground''), Txt '';''],
   [Txt ''  }''],
   [Txt ''  .edgeLabel .label rect {''],
   [Txt ''    fill: '', Val (e ''edgeLabelBackground''), Txt '';''],
   [Txt ''  }''],
   [Txt ''  .edgeLabel .label text {''],
   [Txt ''    fill: '', Val (e ''relationLabelColor''), Txt '';''],
   [Txt ''  }''],
   [Txt ''  .divider {''],
   [Txt ''    stroke: '', Val (e ''nodeBorder''), Txt '';''],
   [Txt ''    stroke-width: 1;''],
   [Txt ''  }''],
   [Txt ''  .label {''],
   [Txt ''    font-family: '', Val (e ''fontFamily''), Txt '';''],
   [Txt ''    color: '', Val (js_or (e ''nodeTextColor'') (e ''textColor'')), Txt '';''],
   [Txt ''  }''],
   [Txt ''  .label text,span {''],
   [Txt ''    fill: '', Val (js_or (e ''nodeTextColor'') (e ''textColor'')), Txt '';''],
   [Txt ''    color: '', Val (js_or (e ''nodeTextColor'') (e ''textColor'')), Txt '';''],
   [Txt ''  }''],
   [Txt ''  .labelBkg {''],
   [Txt ''    background-color: '', Val (js_coalesce (n) (e ''edgeLabelBackground'')), Txt '';''],
   [Txt ''  }''],
   [],
   []]\<close>

definition requirement_styles :: "theme \<Rightarrow> js \<Rightarrow> theme \<Rightarrow> template option" where
  "requirement_styles tv look e =
     with_text (requirement_colors e tv look) (requirement_sheet e look (tv ''requirementEdgeLabelBackground''))"


section \<open>Entity relationship diagrams\<close>

text \<open>\<open>fade\<close> stands for the function of that name, which makes a colour of the given colour and an opacity.\<close>

definition er_rule :: "js \<Rightarrow> bool \<Rightarrow> js list \<Rightarrow> js list \<Rightarrow> nat \<Rightarrow> template" where
  \<open>er_rule look s bkgs n l =
  [[],
   [],
   [Txt ''    [data-look="'', Val look, Txt ''"][data-color-id="color-'', Val (JNum (int l)), Txt ''"].node path {''],
   [Txt ''    stroke: '', Val (element n l), Txt '';''],
   [Txt ''    '', Val (if s then JStr (lit ''fill: '' @ to_string (element bkgs l) @ lit '';'') else JStr [])],
   [Txt ''    }''],
   [],
   [Txt ''    [data-look="'', Val look, Txt ''"][data-color-id="color-'', Val (JNum (int l)), Txt ''"].node  rect {''],
   [Txt ''    stroke: '', Val (element n l), Txt '';''],
   [Txt ''    '', Val (if s then JStr (lit ''fill: '' @ to_string (element bkgs l) @ lit '';'') else JStr [])],
   [Txt ''     }''],
   [Txt ''    '']]\<close>

definition er_colors :: "theme \<Rightarrow> ustr option" where
  "er_colors e =
     (if \<not> in_set [''redux-color'', ''redux-dark-color''] (e ''theme'') then Some []
      else color_rules e (\<lambda>l. map_option (\<lambda>n.
        er_rule (e ''look'') (has_elements (e ''bkgColorArray''))
          (case elements (e ''bkgColorArray'') of None \<Rightarrow> [] | Some bkgs \<Rightarrow> bkgs) n l)
        (elements (e ''borderColorArray''))))"

definition er_sheet :: "(js \<Rightarrow> js) \<Rightarrow> theme \<Rightarrow> js \<Rightarrow> template" where
  \<open>er_sheet fade e c =
  [[],
   [Txt ''    '', Val c],
   [Txt ''  .entityBox {''],
   [Txt ''    fill: '', Val (e ''mainBkg''), Txt '';''],
   [Txt ''    stroke: '', Val (e ''nodeBorder''), Txt '';''],
   [Txt ''  }''],
   [],
   [Txt ''  .relationshipLabelBox {''],
   [Txt ''    fill: '', Val (e ''tertiaryColor''), Txt '';''],
   [Txt ''    opacity: 0.7;''],
   [Txt ''    background-color: '', Val (e ''tertiaryColor''), Txt '';''],
   [Txt ''      rect {''],
   [Txt ''        opacity: 0.5;''],
   [Txt ''      }''],
   [Txt ''  }''],
   [],
   [Txt ''  .labelBkg {''],
   [Txt ''    background-color: '', Val (if in_set [''redux-color'', ''redux-dark-color''] (e ''theme'') \<and> truthy (e ''erEdgeLabelBackground'') then e ''erEdgeLabelBackground'' else fade (e ''tertiaryColor'')), Txt '';''],
   [Txt ''  }''],
   [],
   [Txt ''  .edgeLabel {''],
   [Txt ''    background-color: '', Val (if in_set [''redux-color'', ''redux-dark-color''] (e ''theme'') \<and> truthy (e ''erEdgeLabelBackground'') then e ''erEdgeLabelBackground'' else e ''edgeLabelBackground''), Txt '';''],
   [Txt ''  }''],
   [Txt ''  .edgeLabel .label rect {''],
   [Txt ''    fill: '', Val (if in_set [''redux-color'', ''redux-dark-color''] (e ''theme'') \<and> truthy (e ''erEdgeLabelBackground'') then e ''erEdgeLabelBackground'' else e ''edgeLabelBackground''), Txt '';''],
   [Txt ''  }''],
   [Txt ''  .edgeLabel .label text {''],
   [Txt ''    fill: '', Val (e ''textColor''), Txt '';''],
   [Txt ''  }''],
   [],
   [Txt ''  .edgeLabel .label {''],
   [Txt ''    fill: '', Val (e ''nodeBorder''), Txt '';''],
   [Txt ''    font-size: 14px;''],
   [Txt ''  }''],
   [],
   [Txt ''  .label {''],
   [Txt ''    font-family: '', Val (e ''fontFamily''), Txt '';''],
   [Txt ''    color: '', Val (js_or (e ''nodeTextColor'') (e ''textColor'')), Txt '';''],
   [Txt ''  }''],
   [],
   [Txt ''  .edge-pattern-dashed {''],
   [Txt ''    stroke-dasharray: 8,8;''],
   [Txt ''  }''],
   [],
   [Txt ''  .node rect,''],
   [Txt ''  .node circle,''],
   [Txt ''  .node ellipse,''],
   [Txt ''  .node polygon''],
   [Txt ''  {''],
   [Txt ''    fill: '', Val (e ''mainBkg''), Txt '';''],
   [Txt ''    stroke: '', Val (e ''nodeBorder''), Txt '';''],
   [Txt ''    stroke-width: '', Val (if e ''look'' = JStr (lit ''neo'') then e ''strokeWidth'' else JStr (lit ''1px'')), Txt '';''],
   [Txt ''  }''],
   [],
   [Txt ''  .relationshipLine {''],
   [Txt ''    stroke: '', Val (e ''lineColor''), Txt '';''],
   [Txt ''    stroke-width: '', Val (if e ''look'' = JStr (lit ''neo'') then e ''strokeWidth'' else JStr (lit ''1px'')), Txt '';''],
   [Txt ''    fill: none;''],
   [Txt ''  }''],
   [],
   [Txt ''  .marker {''],
   [Txt ''    fill: none !important;''],
   [Txt ''    stroke: '', Val (e ''lineColor''), Txt '' !important;''],
   [Txt ''    stroke-width: 1;''],
   [Txt ''  }''],
   [Txt ''  [data-look=neo].labelBkg {''],
   [Txt ''    background-color: '', Val (fade (e ''tertiaryColor'')), Txt '';''],
   [Txt ''  }''],
   []]\<close>

definition er_styles :: "(js \<Rightarrow> js) \<Rightarrow> theme \<Rightarrow> template option" where
  "er_styles fade e = with_text (er_colors e) (er_sheet fade e)"


section \<open>Flowcharts and block diagrams\<close>

definition flowchart_styles :: "(js \<Rightarrow> js) \<Rightarrow> theme \<Rightarrow> template" where
  \<open>flowchart_styles fade e =
  [[Txt ''.label {''],
   [Txt ''    font-family: '', Val (e ''fontFamily''), Txt '';''],
   [Txt ''    color: '', Val (js_or (e ''nodeTextColor'') (e ''textColor'')), Txt '';''],
   [Txt ''  }''],
   [Txt ''  .cluster-label text {''],
   [Txt ''    fill: '', Val (e ''titleColor''), Txt '';''],
   [Txt ''  }''],
   [Txt ''  .cluster-label span {''],
   [Txt ''    color: '', Val (e ''titleColor''), Txt '';''],
   [Txt ''  }''],
   [Txt ''  .cluster-label span p {''],
   [Txt ''    background-color: transparent;''],
   [Txt ''  }''],
   [],
   [Txt ''  .label text,span {''],
   [Txt ''    fill: '', Val (js_or (e ''nodeTextColor'') (e ''textColor'')), Txt '';''],
   [Txt ''    color: '', Val (js_or (e ''nodeTextColor'') (e ''textColor'')), Txt '';''],
   [Txt ''  }''],
   [],
   [Txt ''  .node rect,''],
   [Txt ''  .node circle,''],
   [Txt ''  .node ellipse,''],
   [Txt ''  .node polygon,''],
   [Txt ''  .node path {''],
   [Txt ''    fill: '', Val (e ''mainBkg''), Txt '';''],
   [Txt ''    stroke: '', Val (e ''nodeBorder''), Txt '';''],
   [Txt ''    stroke-width: '', Val (js_coalesce (e ''strokeWidth'') (JNum 1)), Txt ''px;''],
   [Txt ''  }''],
   [Txt ''  .rough-node .label text , .node .label text, .image-shape .label, .icon-shape .label {''],
   [Txt ''    text-anchor: middle;''],
   [Txt ''  }''],
   [Txt ''  // .flowchart-label .text-outer-tspan {''],
   [Txt ''  //   text-anchor: middle;''],
   [Txt ''  // }''],
   [Txt ''  // .flowchart-label .text-inner-tspan {''],
   [Txt ''  //   text-anchor: start;''],
   [Txt ''  // }''],
   [],
   [Txt ''  .node .katex path {''],
   [Txt ''    fill: #000;''],
   [Txt ''    stroke: #000;''],
   [Txt ''    stroke-width: 1px;''],
   [Txt ''  }''],
   [],
   [Txt ''  .rough-node .label,.node .label, .image-shape .label, .icon-shape .label {''],
   [Txt ''    text-align: center;''],
   [Txt ''  }''],
   [Txt ''  .node.clickable {''],
   [Txt ''    cursor: pointer;''],
   [Txt ''  }''],
   [],
   [],
   [Txt ''  .root .anchor path {''],
   [Txt ''    fill: '', Val (e ''lineColor''), Txt '' !important;''],
   [Txt ''    stroke-width: 0;''],
   [Txt ''    stroke: '', Val (e ''lineColor''), Txt '';''],
   [Txt ''  }''],
   [],
   [Txt ''  .arrowheadPath {''],
   [Txt ''    fill: '', Val (e ''arrowheadColor''), Txt '';''],
   [Txt ''  }''],
   [],
   [Txt ''  .edgePath .path {''],
   [Txt ''    stroke: '', Val (e ''lineColor''), Txt '';''],
   [Txt ''    stroke-width: '', Val (js_coalesce (e ''strokeWidth'') (JNum 2)), Txt ''px;''],
   [Txt ''  }''],
   [],
   [Txt ''  .flowchart-link {''],
   [Txt ''    stroke: '', Val (e ''lineColor''), Txt '';''],
   [Txt ''    fill: none;''],
   [Txt ''  }''],
   [],
   [Txt ''  .edgeLabel {''],
   [Txt ''    background-color: '', Val (e ''edgeLabelBackground''), Txt '';''],
   [Txt ''    p {''],
   [Txt ''      background-color: '', Val (e ''edgeLabelBackground''), Txt '';''],
   [Txt ''    }''],
   [Txt ''    rect {''],
   [Txt ''      opacity: 0.5;''],
   [Txt ''      background-color: '', Val (e ''edgeLabelBackground''), Txt '';''],
   [Txt ''      fill: '', Val (e ''edgeLabelBackground''), Txt '';''],
   [Txt ''    }''],
   [Txt ''    text-align: center;''],
   [Txt ''  }''],
   [],
   [Txt ''  /* For html labels only */''],
   [Txt ''  .labelBkg {''],
   [Txt ''    background-color: '', Val (fade (e ''edgeLabelBackground'')), Txt '';''],
   [Txt ''    // background-color:''],
   [Txt ''  }''],
   [],
   [Txt ''  .cluster rect {''],
   [Txt ''    fill: '', Val (e ''clusterBkg''), Txt '';''],
   [Txt ''    stroke: '', Val (e ''clusterBorder''), Txt '';''],
   [Txt ''    stroke-width: 1px;''],
   [Txt ''  }''],
   [],
   [Txt ''  .cluster text {''],
   [Txt ''    fill: '', Val (e ''titleColor''), Txt '';''],
   [Txt ''  }''],
   [],
   [Txt ''  .cluster span {''],
   [Txt ''    color: '', Val (e ''titleColor''), Txt '';''],
   [Txt ''  }''],
   [Txt ''  /* .cluster div {''],
   [Txt ''    color: '', Val (e ''titleColor''), Txt '';''],
   [Txt ''  } */''],
   [],
   [Txt ''  div.mermaidTooltip {''],
   [Txt ''    position: absolute;''],
   [Txt ''    text-align: center;''],
   [Txt ''    max-width: 200px;''],
   [Txt ''    padding: 2px;''],
   [Txt ''    font-family: '', Val (e ''fontFamily''), Txt '';''],
   [Txt ''    font-size: 12px;''],
   [Txt ''    background: '', Val (e ''tertiaryColor''), Txt '';''],
   [Txt ''    border: 1px solid '', Val (e ''border2''), Txt '';''],
   [Txt ''    border-radius: 2px;''],
   [Txt ''    pointer-events: none;''],
   [Txt ''    z-index: 100;''],
   [Txt ''  }''],
   [],
   [Txt ''  .flowchartTitleText {''],
   [Txt ''    text-anchor: middle;''],
   [Txt ''    font-size: 18px;''],
   [Txt ''    fill: '', Val (e ''textColor''), Txt '';''],
   [Txt ''  }''],
   [],
   [Txt ''  rect.text {''],
   [Txt ''    fill: none;''],
   [Txt ''    stroke-width: 0;''],
   [Txt ''  }''],
   [],
   [Txt ''  .icon-shape, .image-shape {''],
   [Txt ''    background-color: '', Val (e ''edgeLabelBackground''), Txt '';''],
   [Txt ''    p {''],
   [Txt ''      background-color: '', Val (e ''edgeLabelBackground''), Txt '';''],
   [Txt ''      padding: 2px;''],
   [Txt ''    }''],
   [Txt ''    .label rect {''],
   [Txt ''      opacity: 0.5;''],
   [Txt ''      background-color: '', Val (e ''edgeLabelBackground''), Txt '';''],
   [Txt ''      fill: '', Val (e ''edgeLabelBackground''), Txt '';''],
   [Txt ''    }''],
   [Txt ''    text-align: center;''],
   [Txt ''  }''],
   [Txt ''  '', Val (JStr (render icon_styles))],
   []]\<close>

text \<open>The second argument is the opacity in tenths.\<close>

definition block_styles :: "(nat \<Rightarrow> js \<Rightarrow> js) \<Rightarrow> theme \<Rightarrow> template" where
  \<open>block_styles fade e =
  [[Txt ''.label {''],
   [Txt ''    font-family: '', Val (e ''fontFamily''), Txt '';''],
   [Txt ''    color: '', Val (js_or (e ''nodeTextColor'') (e ''textColor'')), Txt '';''],
   [Txt ''  }''],
   [Txt ''  .cluster-label text {''],
   [Txt ''    fill: '', Val (e ''titleColor''), Txt '';''],
   [Txt ''  }''],
   [Txt ''  .cluster-label span,p {''],
   [Txt ''    color: '', Val (e ''titleColor''), Txt '';''],
   [Txt ''  }''],
   [],
   [],
   [],
   [Txt ''  .label text,span,p {''],
   [Txt ''    fill: '', Val (js_or (e ''nodeTextColor'') (e ''textColor'')), Txt '';''],
   [Txt ''    color: '', Val (js_or (e ''nodeTextColor'') (e ''textColor'')), Txt '';''],
   [Txt ''  }''],
   [],
   [Txt ''  .node rect,''],
   [Txt ''  .node circle,''],
   [Txt ''  .node ellipse,''],
   [Txt ''  .node polygon,''],
   [Txt ''  .node path {''],
   [Txt ''    fill: '', Val (e ''mainBkg''), Txt '';''],
   [Txt ''    stroke: '', Val (e ''nodeBorder''), Txt '';''],
   [Txt ''    stroke-width: 1px;''],
   [Txt ''  }''],
   [Txt ''  .flowchart-label text {''],
   [Txt ''    text-anchor: middle;''],
   [Txt ''  }''],
   [Txt ''  // .flowchart-label .text-outer-tspan {''],
   [Txt ''  //   text-anchor: middle;''],
   [Txt ''  // }''],
   [Txt ''  // .flowchart-label .text-inner-tspan {''],
   [Txt ''  //   text-anchor: start;''],
   [Txt ''  // }''],
   [],
   [Txt ''  .node .label {''],
   [Txt ''    text-align: center;''],
   [Txt ''  }''],
   [Txt ''  .node.clickable {''],
   [Txt ''    cursor: pointer;''],
   [Txt ''  }''],
   [],
   [Txt ''  .arrowheadPath {''],
   [Txt ''    fill: '', Val (e ''arrowheadColor''), Txt '';''],
   [Txt ''  }''],
   [],
   [Txt ''  .edgePath .path {''],
   [Txt ''    stroke: '', Val (e ''lineColor''), Txt '';''],
   [Txt ''    stroke-width: 2.0px;''],
   [Txt ''  }''],
   [],
   [Txt ''  .flowchart-link {''],
   [Txt ''    stroke: '', Val (e ''lineColor''), Txt '';''],
   [Txt ''    fill: none;''],
   [Txt ''  }''],
   [],
   [Txt ''  .edgeLabel {''],
   [Txt ''    background-color: '', Val (e ''edgeLabelBackground''), Txt '';''],
   [Txt ''    /*''],
   [Txt ''     * This is for backward compatibility with existing code that didn't''],
   [Txt ''     * add a `<p>` around edge labels.''],
   [Txt ''     *''],
   [Txt ''     * TODO: We should probably remove this in a future release.''],
   [Txt ''     */''],
   [Txt ''    p {''],
   [Txt ''      margin: 0;''],
   [Txt ''      padding: 0;''],
   [Txt ''      display: inline;''],
   [Txt ''    }''],
   [Txt ''    rect {''],
   [Txt ''      opacity: 0.5;''],
   [Txt ''      background-color: '', Val (e ''edgeLabelBackground''), Txt '';''],
   [Txt ''      fill: '', Val (e ''edgeLabelBackground''), Txt '';''],
   [Txt ''    }''],
   [Txt ''    text-align: center;''],
   [Txt ''  }''],
   [],
   [Txt ''  /* For html labels only */''],
   [Txt ''  .labelBkg {''],
   [Txt ''    background-color: '', Val (e ''edgeLabelBackground''), Txt '';''],
   [Txt ''  }''],
   [],
   [Txt ''  .node .cluster {''],
   [Txt ''    // fill: '', Val (fade 5 (e ''mainBkg'')), Txt '';''],
   [Txt ''    fill: '', Val (fade 5 (e ''clusterBkg'')), Txt '';''],
   [Txt ''    stroke: '', Val (fade 2 (e ''clusterBorder'')), Txt '';''],
   [Txt ''    box-shadow: rgba(50, 50, 93, 0.25) 0px 13px 27px -5px, rgba(0, 0, 0, 0.3) 0px 8px 16px -8px;''],
   [Txt ''    stroke-width: 1px;''],
   [Txt ''  }''],
   [],
   [Txt ''  .cluster text {''],
   [Txt ''    fill: '', Val (e ''titleColor''), Txt '';''],
   [Txt ''  }''],
   [],
   [Txt ''  .cluster span,p {''],
   [Txt ''    color: '', Val (e ''titleColor''), Txt '';''],
   [Txt ''  }''],
   [Txt ''  /* .cluster div {''],
   [Txt ''    color: '', Val (e ''titleColor''), Txt '';''],
   [Txt ''  } */''],
   [],
   [Txt ''  div.mermaidTooltip {''],
   [Txt ''    position: absolute;''],
   [Txt ''    text-align: center;''],
   [Txt ''    max-width: 200px;''],
   [Txt ''    padding: 2px;''],
   [Txt ''    font-family: '', Val (e ''fontFamily''), Txt '';''],
   [Txt ''    font-size: 12px;''],
   [Txt ''    background: '', Val (e ''tertiaryColor''), Txt '';''],
   [Txt ''    border: 1px solid '', Val (e ''border2''), Txt '';''],
   [Txt ''    border-radius: 2px;''],
   [Txt ''    pointer-events: none;''],
   [Txt ''    z-index: 100;''],
   [Txt ''  }''],
   [],
   [Txt ''  .flowchartTitleText {''],
   [Txt ''    text-anchor: middle;''],
   [Txt ''    font-size: 18px;''],
   [Txt ''    fill: '', Val (e ''textColor''), Txt '';''],
   [Txt ''  }''],
   [Txt ''  '', Val (JStr (render icon_styles))],
   []]\<close>


end
