(* ===== verification/Mermaid_Section_Styles.thy ===== *)
theory Mermaid_Section_Styles
  imports Mermaid_Theme_Styles
begin

text \<open>
  The style sheets of \<open>docs/mermaid.tiny.js\<close>, fourth part: git graphs, timelines and kanban boards, whose
  rules for branches and sections depend on the theme of the configuration.
\<close>


section \<open>Git graphs\<close>

definition git_gradient_rule :: "theme \<Rightarrow> nat \<Rightarrow> template" where
  \<open>git_gradient_rule e l =
  [[],
   [Txt ''      .label'', Val (JNum (int l)), Txt ''  { fill: '', Val (e ''mainBkg''), Txt ''; stroke: url('', Val (e ''svgId''), Txt ''-gradient); stroke-width: '', Val (e ''strokeWidth''), Txt '';}''],
   [Txt ''             '']]\<close>

definition git_gradient :: "theme \<Rightarrow> ustr option" where
  "git_gradient e =
     (if truthy (e ''useGradient'') \<and> truthy (e ''svgId'') then color_rules e (\<lambda>l. Some (git_gradient_rule e l))
      else Some [])"

text \<open>The neo themes: the first branch, and the others, whose colours repeat after eight.\<close>

definition git_neo_first :: "theme \<Rightarrow> js \<Rightarrow> nat \<Rightarrow> template" where
  \<open>git_neo_first e c l =
  [[],
   [Txt ''        .branch-label'', Val (JNum (int l)), Txt '' { fill: '', Val (e ''nodeBorder''), Txt '';}''],
   [Txt ''        .commit'', Val (JNum (int l)), Txt '' { stroke: '', Val (e ''nodeBorder''), Txt '';   }''],
   [Txt ''        .commit-highlight'', Val (JNum (int l)), Txt '' { stroke: '', Val (e ''nodeBorder''), Txt ''; fill: '', Val (e ''nodeBorder''), Txt ''; }''],
   [Txt ''        .arrow'', Val (JNum (int l)), Txt '' { stroke: '', Val (e ''nodeBorder''), Txt ''; }''],
   [Txt ''        .commit-bullets { fill: '', Val (e ''nodeBorder''), Txt ''; }''],
   [Txt ''        .commit-cherry-pick'', Val (JNum (int l)), Txt '' { stroke: '', Val (e ''nodeBorder''), Txt ''; }''],
   [Txt ''        '', Val c]]\<close>

definition git_neo_rule :: "theme \<Rightarrow> nat \<Rightarrow> template" where
  \<open>git_neo_rule e l =
  (let u = l mod 8 in
  [[],
   [Txt ''        .branch-label'', Val (JNum (int l)), Txt '' { fill: '', Val (e (''gitBranchLabel'' @ dec u)), Txt ''; }''],
   [Txt ''        .commit'', Val (JNum (int l)), Txt '' { stroke: '', Val (e (''git'' @ dec u)), Txt ''; fill: '', Val (e (''git'' @ dec u)), Txt ''; }''],
   [Txt ''        .commit-highlight'', Val (JNum (int l)), Txt '' { stroke: '', Val (e (''gitInv'' @ dec u)), Txt ''; fill: '', Val (e (''gitInv'' @ dec u)), Txt ''; }''],
   [Txt ''        .arrow'', Val (JNum (int l)), Txt '' { stroke: '', Val (e (''git'' @ dec u)), Txt ''; }''],
   [Txt ''        '']])\<close>

text \<open>The redux themes with colours; \<open>n\<close> is the border colour of the branch.\<close>

definition git_color_first :: "theme \<Rightarrow> bool \<Rightarrow> nat \<Rightarrow> template" where
  \<open>git_color_first e s l =
  [[],
   [Txt ''        .branch-label'', Val (JNum (int l)), Txt '' { fill: '', Val (e ''nodeBorder''), Txt ''; '', Val (if s then JStr (render [[Txt ''font-weight:'', Val (e ''noteFontWeight'')]]) else JStr []), Txt '' }''],
   [Txt ''        .commit'', Val (JNum (int l)), Txt '' { stroke: '', Val (e ''nodeBorder''), Txt ''; }''],
   [Txt ''        .commit-highlight'', Val (JNum (int l)), Txt '' { stroke: '', Val (e ''nodeBorder''), Txt ''; fill: '', Val (e ''mainBkg''), Txt ''; }''],
   [Txt ''        .label'', Val (JNum (int l)), Txt ''  { fill: '', Val (e ''mainBkg''), Txt ''; stroke: '', Val (e ''nodeBorder''), Txt ''; stroke-width: '', Val (e ''strokeWidth''), Txt ''; '', Val (if s then JStr (render [[Txt ''font-weight:'', Val (e ''noteFontWeight'')]]) else JStr []), Txt '' }''],
   [Txt ''        .arrow'', Val (JNum (int l)), Txt '' { stroke: '', Val (e ''nodeBorder''), Txt ''; }''],
   [Txt ''        .commit-bullets { fill: '', Val (e ''nodeBorder''), Txt ''; }''],
   [Txt ''        '']]\<close>

definition git_color_rule :: "theme \<Rightarrow> bool \<Rightarrow> bool \<Rightarrow> js \<Rightarrow> nat \<Rightarrow> template" where
  \<open>git_color_rule e s dark n l =
  [[],
   [Txt ''        .branch-label'', Val (JNum (int l)), Txt '' { fill: '', Val (e ''nodeBorder''), Txt ''; '', Val (if s then JStr (render [[Txt ''font-weight:'', Val (e ''noteFontWeight'')]]) else JStr []), Txt '' }''],
   [Txt ''        .commit'', Val (JNum (int l)), Txt '' { stroke: '', Val n, Txt ''; fill: '', Val n, Txt ''; }''],
   [Txt ''        .commit-highlight'', Val (JNum (int l)), Txt '' { stroke: '', Val n, Txt ''; fill: '', Val n, Txt ''; }''],
   [Txt ''        .label'', Val (JNum (int l)), Txt ''  { fill: '', Val (if dark then e ''mainBkg'' else n), Txt ''; stroke: '', Val n, Txt '';  stroke-width: '', Val (e ''strokeWidth''), Txt ''; }''],
   [Txt ''        .arrow'', Val (JNum (int l)), Txt '' { stroke: '', Val n, Txt ''; }''],
   [Txt ''        '']]\<close>

text \<open>The other themes without colours.\<close>

definition git_plain_rule :: "theme \<Rightarrow> bool \<Rightarrow> nat \<Rightarrow> template" where
  \<open>git_plain_rule e s l =
  [[],
   [Txt ''        .branch-label'', Val (JNum (int l)), Txt '' { fill: '', Val (e ''nodeBorder''), Txt ''; '', Val (if s then JStr (render [[Txt ''font-weight:'', Val (e ''noteFontWeight'')]]) else JStr []), Txt '' }''],
   [Txt ''        .commit'', Val (JNum (int l)), Txt '' { stroke: '', Val (e ''nodeBorder''), Txt '';   }''],
   [Txt ''        .commit-highlight'', Val (JNum (int l)), Txt '' { stroke: '', Val (e ''nodeBorder''), Txt ''; fill: '', Val (e ''nodeBorder''), Txt ''; }''],
   [Txt ''        .label'', Val (JNum (int l)), Txt ''  { fill: '', Val (e ''mainBkg''), Txt ''; stroke: '', Val (e ''nodeBorder''), Txt ''; stroke-width: '', Val (e ''strokeWidth''), Txt ''; '', Val (if s then JStr (render [[Txt ''font-weight:'', Val (e ''noteFontWeight'')]]) else JStr []), Txt ''}''],
   [Txt ''        .arrow'', Val (JNum (int l)), Txt '' { stroke: '', Val (e ''nodeBorder''), Txt ''; }''],
   [Txt ''        .commit-bullets { fill: '', Val (e ''nodeBorder''), Txt ''; }''],
   [Txt ''        .commit-cherry-pick'', Val (JNum (int l)), Txt '' { stroke: '', Val (e ''nodeBorder''), Txt ''; }''],
   [Txt ''        '']]\<close>

text \<open>The classic themes.\<close>

definition git_classic_rule :: "theme \<Rightarrow> nat \<Rightarrow> template" where
  \<open>git_classic_rule e t =
  (let r = t mod 8 in
  [[],
   [Txt ''        .branch-label'', Val (JNum (int t)), Txt '' { fill: '', Val (e (''gitBranchLabel'' @ dec r)), Txt ''; }''],
   [Txt ''        .commit'', Val (JNum (int t)), Txt '' { stroke: '', Val (e (''git'' @ dec r)), Txt ''; fill: '', Val (e (''git'' @ dec r)), Txt ''; }''],
   [Txt ''        .commit-highlight'', Val (JNum (int t)), Txt '' { stroke: '', Val (e (''gitInv'' @ dec r)), Txt ''; fill: '', Val (e (''gitInv'' @ dec r)), Txt ''; }''],
   [Txt ''        .label'', Val (JNum (int t)), Txt ''  { fill: '', Val (e (''git'' @ dec r)), Txt ''; }''],
   [Txt ''        .arrow'', Val (JNum (int t)), Txt '' { stroke: '', Val (e (''git'' @ dec r)), Txt ''; }''],
   [Txt ''        '']])\<close>

text \<open>
  \<open>genColor\<close>; \<open>th\<close> is the theme of the configuration and \<open>borders\<close> the \<open>borderColorArray\<close> of its variables.
\<close>

definition git_colors :: "js \<Rightarrow> js \<Rightarrow> theme \<Rightarrow> ustr option" where
  "git_colors th borders e =
     (let s = in_set [''redux'', ''redux-dark'', ''redux-color'', ''redux-dark-color''] th in
      if in_set [''neo'', ''neo-dark''] th then
        color_rules e (\<lambda>l. if l = 0 then with_text (git_gradient e) (\<lambda>c. git_neo_first e c l)
                           else Some (git_neo_rule e l))
      else if in_set [''redux-color'', ''redux-dark-color''] th then
        color_rules e (\<lambda>l. if l = 0 then Some (git_color_first e s l)
                           else map_option (\<lambda>n. git_color_rule e s
                             (in_set [''dark'', ''redux-dark'', ''redux-dark-color'', ''neo-dark''] th)
                             (element n (l mod length n)) l) (elements borders))
      else color_rules e (\<lambda>l. Some (git_plain_rule e s l)))"

text \<open>\<open>normalTheme\<close>: the rules are joined by line breaks. \<open>Array.from\<close> takes the length as a number.\<close>

definition git_normal :: "theme \<Rightarrow> ustr option" where
  "git_normal e = map_option (\<lambda>n. join_with [10] (map (\<lambda>t. render (git_classic_rule e t)) [0..<n]))
     (loop_bound (e ''THEME_COLOR_LIMIT''))"

text \<open>\<open>i\<close> says whether the theme is a redux or neo one; the number \<open>.5\<close> is only printed, as \<open>0.5\<close>.\<close>

definition git_sheet :: "theme \<Rightarrow> bool \<Rightarrow> js \<Rightarrow> js \<Rightarrow> template" where
  \<open>git_sheet e i r c =
  [[],
   [Txt ''  .commit-id,''],
   [Txt ''  .commit-msg,''],
   [Txt ''  .branch-label {''],
   [Txt ''    fill: lightgrey;''],
   [Txt ''    color: lightgrey;''],
   [Txt ''    font-family: 'trebuchet ms', verdana, arial, sans-serif;''],
   [Txt ''    font-family: var(--mermaid-font-family);''],
   [Txt ''  }''],
   [Txt ''  ''],
   [Txt ''  '', Val c],
   [],
   [Txt ''  .branch {''],
   [Txt ''    stroke-width: '', Val (e ''strokeWidth''), Txt '';''],
   [Txt ''    stroke: '', Val (js_coalesce (e ''commitLineColor'') (e ''lineColor'')), Txt '';''],
   [Txt ''    stroke-dasharray:  '', Val (if i then JStr (lit ''4 2'') else JStr (lit ''2'')), Txt '';''],
   [Txt ''  }''],
   [Txt ''  .commit-label { font-size: '', Val (e ''commitLabelFontSize''), Txt ''; fill: '', Val (if i then e ''nodeBorder'' else e ''commitLabelColor''), Txt ''; '', Val (if i then JStr (render [[Txt ''font-weight:'', Val (e ''noteFontWeight''), Txt '';'']]) else JStr []), Txt ''}''],
   [Txt ''  .commit-label-bkg { font-size: '', Val (e ''commitLabelFontSize''), Txt ''; fill: '', Val (if i then JStr (lit ''transparent'') else e ''commitLabelBackground''), Txt ''; opacity: '', Val (if i then JStr [] else JStr (lit ''0.5'')), Txt '';  }''],
   [Txt ''  .tag-label { font-size: '', Val (e ''tagLabelFontSize''), Txt ''; fill: '', Val (e ''tagLabelColor''), Txt '';}''],
   [Txt ''  .tag-label-bkg { fill: '', Val (if i then e ''mainBkg'' else e ''tagLabelBackground''), Txt ''; stroke: '', Val (if i then e ''nodeBorder'' else e ''tagLabelBorder''), Txt ''; '', Val (if i then JStr (render [[Txt ''filter:'', Val (e ''dropShadow'')]]) else JStr []), Txt ''  }''],
   [Txt ''  .tag-hole { fill: '', Val (e ''textColor''), Txt ''; }''],
   [],
   [Txt ''  .commit-merge {''],
   [Txt ''    stroke: '', Val (if i then e ''mainBkg'' else e ''primaryColor''), Txt '';''],
   [Txt ''    fill: '', Val (if i then e ''mainBkg'' else e ''primaryColor''), Txt '';''],
   [Txt ''  }''],
   [Txt ''  .commit-reverse {''],
   [Txt ''    stroke: '', Val (if i then e ''mainBkg'' else e ''primaryColor''), Txt '';''],
   [Txt ''    fill: '', Val (if i then e ''mainBkg'' else e ''primaryColor''), Txt '';''],
   [Txt ''    stroke-width: '', Val (if i then e ''strokeWidth'' else JNum 3), Txt '';''],
   [Txt ''  }''],
   [Txt ''  .commit-highlight-outer {''],
   [Txt ''  }''],
   [Txt ''  .commit-highlight-inner {''],
   [Txt ''    stroke: '', Val (if i then e ''mainBkg'' else e ''primaryColor''), Txt '';''],
   [Txt ''    fill: '', Val (if i then e ''mainBkg'' else e ''primaryColor''), Txt '';''],
   [Txt ''  }''],
   [],
   [Txt ''  .arrow {''],
   [Txt ''    /* Intentional: neo themes keep the bold 8px arrow (like classic themes); only redux-geometry themes use the thinner options.strokeWidth. */''],
   [Txt ''    stroke-width: '', Val (if in_set [''redux'', ''redux-dark'', ''redux-color'', ''redux-dark-color''] r then e ''strokeWidth'' else JNum 8), Txt '';''],
   [Txt ''    stroke-linecap: round;''],
   [Txt ''    fill: none''],
   [Txt ''  }''],
   [Txt ''  .gitTitleText {''],
   [Txt ''    text-anchor: middle;''],
   [Txt ''    font-size: 18px;''],
   [Txt ''    fill: '', Val (e ''textColor''), Txt '';''],
   [Txt ''  }''],
   []]\<close>

definition git_styles :: "js \<Rightarrow> js \<Rightarrow> theme \<Rightarrow> template option" where
  "git_styles th borders e =
     (let i = in_set [''redux'', ''redux-dark'', ''redux-color'', ''redux-dark-color'', ''neo'', ''neo-dark''] th in
      with_text (if i then git_colors th borders e else git_normal e) (git_sheet e i th))"


section \<open>Timelines\<close>

text \<open>\<open>svgId?.replace(/^#/, "") ?? ""\<close>; on another value the call throws.\<close>

fun plain_id :: "js \<Rightarrow> js option" where
  "plain_id (JStr s) = Some (JStr (if s \<noteq> [] \<and> hd s = ch (CHR ''#'') then tl s else s))"
| "plain_id JUndef = Some (JStr [])"
| "plain_id JNull = Some (JStr [])"
| "plain_id _ = None"

text \<open>
  The redux sections: \<open>r\<close> and \<open>i\<close> say whether the name of the theme contains \<open>dark\<close> and \<open>color\<close>, \<open>h\<close> and \<open>d\<close> are the
  fill and the border of the section, \<open>s\<close> is its shadow.
\<close>

definition redux_section :: "theme \<Rightarrow> bool \<Rightarrow> bool \<Rightarrow> js \<Rightarrow> js \<Rightarrow> js \<Rightarrow> nat \<Rightarrow> template" where
  \<open>redux_section e r i h d s l =
  [[],
   [Txt ''    .section-'', Val (JNum (int l - 1)), Txt '' rect,''],
   [Txt ''    .section-'', Val (JNum (int l - 1)), Txt '' path,''],
   [Txt ''    .section-'', Val (JNum (int l - 1)), Txt '' circle {''],
   [Txt ''      fill: '', Val (if r \<and> i then e ''mainBkg'' else h), Txt '';''],
   [Txt ''      stroke: '', Val d, Txt '';''],
   [Txt ''      stroke-width: '', Val (e ''strokeWidth''), Txt '';''],
   [Txt ''      filter: '', Val s, Txt '';''],
   [Txt ''    }''],
   [],
   [Txt ''    .section-'', Val (JNum (int l - 1)), Txt '' text {''],
   [Txt ''      fill: '', Val (e ''nodeBorder''), Txt '';''],
   [Txt ''      font-weight: '', Val (e ''fontWeight'')],
   [Txt ''    }''],
   [],
   [Txt ''    .node-icon-'', Val (JNum (int l - 1)), Txt '' {''],
   [Txt ''      font-size: 40px;''],
   [Txt ''      color: '', Val (e (''cScaleLabel'' @ dec l)), Txt '';''],
   [Txt ''    }''],
   [],
   [Txt ''    .section-edge-'', Val (JNum (int l - 1)), Txt '' {''],
   [Txt ''      stroke: '', Val (e (''cScale'' @ dec l)), Txt '';''],
   [Txt ''    }''],
   [],
   [Txt ''    .edge-depth-'', Val (JNum (int l - 1)), Txt '' {''],
   [Txt ''      stroke-width: '', Val (JNum (17 - 3 * int l)), Txt '';''],
   [Txt ''    }''],
   [],
   [Txt ''    .section-'', Val (JNum (int l - 1)), Txt '' line {''],
   [Txt ''      stroke: '', Val (e (''cScaleInv'' @ dec l)), Txt '';''],
   [Txt ''      stroke-width: 3;''],
   [Txt ''    }''],
   [],
   [Txt ''    .lineWrapper line {''],
   [Txt ''      stroke: '', Val (e ''nodeBorder''), Txt '';''],
   [Txt ''      stroke-width:'', Val (e ''strokeWidth'')],
   [Txt ''    }''],
   [],
   [Txt ''    .disabled,''],
   [Txt ''    .disabled circle,''],
   [Txt ''    .disabled text {''],
   [Txt ''      fill: '', Val (js_coalesce (e ''tertiaryColor'') (JStr (lit ''lightgray''))), Txt '';''],
   [Txt ''    }''],
   [],
   [Txt ''    .disabled text {''],
   [Txt ''      fill: '', Val (js_coalesce (e ''clusterBorder'') (JStr (lit ''#efefef''))), Txt '';''],
   [Txt ''    }''],
   [Txt ''    '']]\<close>

definition redux_sections :: "ustr \<Rightarrow> theme \<Rightarrow> ustr option" where
  "redux_sections th e =
     (let r = js_includes th (lit ''dark''); i = js_includes th (lit ''color'') in
      Option.bind (plain_id (e ''svgId'')) (\<lambda>n.
        let s = (if truthy n then JStr (lit ''url(#'' @ to_string n @ lit ''-drop-shadow)'')
                 else js_coalesce (e ''dropShadow'') (JStr (lit ''none'')))
        in color_rules e (\<lambda>l.
             if i then map_option (\<lambda>bs. redux_section e r i (element bs l) (element bs l) s l) (elements (e ''borderColorArray''))
             else Some (redux_section e r i (e ''mainBkg'') (e ''nodeBorder'') s l))))"

text \<open>
  The sections of the other themes. Before, the line colours are darkened or lightened in the theme; they
  are not printed, but the colour functions throw on what is no colour, which \<open>color\<close> tells.
\<close>

definition timeline_section :: "theme \<Rightarrow> nat \<Rightarrow> template" where
  \<open>timeline_section e r =
  [[],
   [Txt ''    .section-'', Val (JNum (int r - 1)), Txt '' rect, .section-'', Val (JNum (int r - 1)), Txt '' path, .section-'', Val (JNum (int r - 1)), Txt '' circle, .section-'', Val (JNum (int r - 1)), Txt '' path  {''],
   [Txt ''      fill: '', Val (e (''cScale'' @ dec r)), Txt '';''],
   [Txt ''    }''],
   [Txt ''    .section-'', Val (JNum (int r - 1)), Txt '' text {''],
   [Txt ''     fill: '', Val (e (''cScaleLabel'' @ dec r)), Txt '';''],
   [Txt ''    }''],
   [Txt ''    .node-icon-'', Val (JNum (int r - 1)), Txt '' {''],
   [Txt ''      font-size: 40px;''],
   [Txt ''      color: '', Val (e (''cScaleLabel'' @ dec r)), Txt '';''],
   [Txt ''    }''],
   [Txt ''    .section-edge-'', Val (JNum (int r - 1)), Txt ''{''],
   [Txt ''      stroke: '', Val (e (''cScale'' @ dec r)), Txt '';''],
   [Txt ''    }''],
   [Txt ''    .edge-depth-'', Val (JNum (int r - 1)), Txt ''{''],
   [Txt ''      stroke-width: '', Val (JNum (17 - 3 * int r)), Txt '';''],
   [Txt ''    }''],
   [Txt ''    .section-'', Val (JNum (int r - 1)), Txt '' line {''],
   [Txt ''      stroke: '', Val (e (''cScaleInv'' @ dec r)), Txt '' ;''],
   [Txt ''      stroke-width: 3;''],
   [Txt ''    }''],
   [],
   [Txt ''    .lineWrapper line{''],
   [Txt ''      stroke: '', Val (e (''cScaleLabel'' @ dec r)), Txt '' ;''],
   [Txt ''    }''],
   [],
   [Txt ''    .disabled, .disabled circle, .disabled text {''],
   [Txt ''      fill: '', Val (js_coalesce (e ''tertiaryColor'') (JStr (lit ''lightgray''))), Txt '';''],
   [Txt ''    }''],
   [Txt ''    .disabled text {''],
   [Txt ''      fill: '', Val (js_coalesce (e ''clusterBorder'') (JStr (lit ''#efefef''))), Txt '';''],
   [Txt ''    }''],
   [Txt ''    '']]\<close>

definition timeline_sections :: "(js \<Rightarrow> bool) \<Rightarrow> theme \<Rightarrow> ustr option" where
  "timeline_sections color e =
     Option.bind (loop_bound (e ''THEME_COLOR_LIMIT'')) (\<lambda>n.
       if \<forall>r<n. color (js_or (e (''lineColor'' @ dec r)) (e (''cScaleInv'' @ dec r)))
       then rules (\<lambda>r. Some (timeline_section e r)) [0..<n] else None)"

definition timeline_gradient :: "js \<Rightarrow> theme \<Rightarrow> nat \<Rightarrow> template" where
  \<open>timeline_gradient n e o' =
  [[],
   [Txt ''      .section-'', Val (JNum (int o' - 1)), Txt ''[data-look="neo"] rect,''],
   [Txt ''      .section-'', Val (JNum (int o' - 1)), Txt ''[data-look="neo"] path,''],
   [Txt ''      .section-'', Val (JNum (int o' - 1)), Txt ''[data-look="neo"] circle {''],
   [Txt ''        fill: '', Val (e ''mainBkg''), Txt '';''],
   [Txt ''        stroke: url(#'', Val n, Txt ''-gradient);''],
   [Txt ''        stroke-width: 2;''],
   [Txt ''      }''],
   [Txt ''      .section-'', Val (JNum (int o' - 1)), Txt ''[data-look="neo"] line {''],
   [Txt ''        stroke: url(#'', Val n, Txt ''-gradient);''],
   [Txt ''        stroke-width: 2;''],
   [Txt ''      }'']]\<close>

definition timeline_sheet :: "theme \<Rightarrow> js \<Rightarrow> js \<Rightarrow> template" where
  \<open>timeline_sheet e c s =
  [[],
   [Txt ''  .edge {''],
   [Txt ''    stroke-width: 3;''],
   [Txt ''  }''],
   [Txt ''  '', Val c],
   [Txt ''  '', Val s],
   [Txt ''  .section-root rect, .section-root path, .section-root circle  {''],
   [Txt ''    fill: '', Val (e ''git0''), Txt '';''],
   [Txt ''  }''],
   [Txt ''  .section-root text {''],
   [Txt ''    fill: '', Val (e ''gitBranchLabel0''), Txt '';''],
   [Txt ''  }''],
   [Txt ''  .icon-container {''],
   [Txt ''    height:100%;''],
   [Txt ''    display: flex;''],
   [Txt ''    justify-content: center;''],
   [Txt ''    align-items: center;''],
   [Txt ''  }''],
   [Txt ''  .edge {''],
   [Txt ''    fill: none;''],
   [Txt ''  }''],
   [Txt ''  .eventWrapper  {''],
   [Txt ''   filter: brightness(120%);''],
   [Txt ''  }''],
   []]\<close>

text \<open>
  \<open>th\<close> is the theme of the configuration; one without a theme is neither redux nor neutral.
\<close>

definition timeline_styles :: "(js \<Rightarrow> bool) \<Rightarrow> ustr \<Rightarrow> theme \<Rightarrow> template option" where
  "timeline_styles color th e =
     Option.bind (plain_id (e ''svgId'')) (\<lambda>n.
       Option.bind (if truthy (e ''useGradient'') \<and> truthy n \<and> truthy (e ''THEME_COLOR_LIMIT'') \<and> th \<noteq> lit ''neutral''
           then color_rules e (\<lambda>l. Some (timeline_gradient n e l)) else Some []) (\<lambda>s.
         with_text (if js_includes th (lit ''redux'') then redux_sections th e else timeline_sections color e)
           (\<lambda>c. timeline_sheet e c (JStr s))))"


section \<open>Kanban boards\<close>

text \<open>\<open>adj\<close> is the adjuster: it lightens by ten in a dark theme and darkens otherwise; it throws like the loop before it.\<close>

definition kanban_section :: "(js \<Rightarrow> js) \<Rightarrow> theme \<Rightarrow> nat \<Rightarrow> template" where
  \<open>kanban_section adj e i =
  [[],
   [Txt ''    .section-'', Val (JNum (int i - 1)), Txt '' rect, .section-'', Val (JNum (int i - 1)), Txt '' path, .section-'', Val (JNum (int i - 1)), Txt '' circle, .section-'', Val (JNum (int i - 1)), Txt '' polygon, .section-'', Val (JNum (int i - 1)), Txt '' path  {''],
   [Txt ''      fill: '', Val (adj (e (''cScale'' @ dec i))), Txt '';''],
   [Txt ''      stroke: '', Val (adj (e (''cScale'' @ dec i))), Txt '';''],
   [],
   [Txt ''    }''],
   [Txt ''    .section-'', Val (JNum (int i - 1)), Txt '' text {''],
   [Txt ''     fill: '', Val (e (''cScaleLabel'' @ dec i)), Txt '';''],
   [Txt ''    }''],
   [Txt ''    .node-icon-'', Val (JNum (int i - 1)), Txt '' {''],
   [Txt ''      font-size: 40px;''],
   [Txt ''      color: '', Val (e (''cScaleLabel'' @ dec i)), Txt '';''],
   [Txt ''    }''],
   [Txt ''    .section-edge-'', Val (JNum (int i - 1)), Txt ''{''],
   [Txt ''      stroke: '', Val (e (''cScale'' @ dec i)), Txt '';''],
   [Txt ''    }''],
   [Txt ''    .edge-depth-'', Val (JNum (int i - 1)), Txt ''{''],
   [Txt ''      stroke-width: '', Val (JNum (17 - 3 * int i)), Txt '';''],
   [Txt ''    }''],
   [Txt ''    .section-'', Val (JNum (int i - 1)), Txt '' line {''],
   [Txt ''      stroke: '', Val (e (''cScaleInv'' @ dec i)), Txt '' ;''],
   [Txt ''      stroke-width: 3;''],
   [Txt ''    }''],
   [],
   [Txt ''    .disabled, .disabled circle, .disabled text {''],
   [Txt ''      fill: lightgray;''],
   [Txt ''    }''],
   [Txt ''    .disabled text {''],
   [Txt ''      fill: #efefef;''],
   [Txt ''    }''],
   [],
   [Txt ''  .node rect,''],
   [Txt ''  .node circle,''],
   [Txt ''  .node ellipse,''],
   [Txt ''  .node polygon,''],
   [Txt ''  .node path {''],
   [Txt ''    fill: '', Val (e ''background''), Txt '';''],
   [Txt ''    stroke: '', Val (e ''nodeBorder''), Txt '';''],
   [Txt ''    stroke-width: 1px;''],
   [Txt ''  }''],
   [],
   [Txt ''  .kanban-ticket-link {''],
   [Txt ''    fill: '', Val (e ''background''), Txt '';''],
   [Txt ''    stroke: '', Val (e ''nodeBorder''), Txt '';''],
   [Txt ''    text-decoration: underline;''],
   [Txt ''  }''],
   [Txt ''    '']]\<close>

definition kanban_sections :: "(js \<Rightarrow> bool) \<Rightarrow> (bool \<Rightarrow> js \<Rightarrow> js) \<Rightarrow> theme \<Rightarrow> ustr option" where
  "kanban_sections color adjust e =
     Option.bind (loop_bound (e ''THEME_COLOR_LIMIT'')) (\<lambda>n.
       if \<forall>r<n. color (js_or (e (''lineColor'' @ dec r)) (e (''cScaleInv'' @ dec r))) \<and> color (e (''cScale'' @ dec r))
       then rules (\<lambda>i. Some (kanban_section (adjust (truthy (e ''darkMode''))) e i)) [0..<n] else None)"

definition kanban_sheet :: "theme \<Rightarrow> js \<Rightarrow> template" where
  \<open>kanban_sheet e c =
  [[],
   [Txt ''  .edge {''],
   [Txt ''    stroke-width: 3;''],
   [Txt ''  }''],
   [Txt ''  '', Val c],
   [Txt ''  .section-root rect, .section-root path, .section-root circle, .section-root polygon  {''],
   [Txt ''    fill: '', Val (e ''git0''), Txt '';''],
   [Txt ''  }''],
   [Txt ''  .section-root text {''],
   [Txt ''    fill: '', Val (e ''gitBranchLabel0''), Txt '';''],
   [Txt ''  }''],
   [Txt ''  .icon-container {''],
   [Txt ''    height:100%;''],
   [Txt ''    display: flex;''],
   [Txt ''    justify-content: center;''],
   [Txt ''    align-items: center;''],
   [Txt ''  }''],
   [Txt ''  .edge {''],
   [Txt ''    fill: none;''],
   [Txt ''  }''],
   [Txt ''  .cluster-label, .label {''],
   [Txt ''    color: '', Val (e ''textColor''), Txt '';''],
   [Txt ''    fill: '', Val (e ''textColor''), Txt '';''],
   [Txt ''    }''],
   [Txt ''  .kanban-label {''],
   [Txt ''    dy: 1em;''],
   [Txt ''    alignment-baseline: middle;''],
   [Txt ''    text-anchor: middle;''],
   [Txt ''    dominant-baseline: middle;''],
   [Txt ''    text-align: center;''],
   [Txt ''  }''],
   [Txt ''    '', Val (JStr (render icon_styles))],
   []]\<close>

definition kanban_styles :: "(js \<Rightarrow> bool) \<Rightarrow> (bool \<Rightarrow> js \<Rightarrow> js) \<Rightarrow> theme \<Rightarrow> template option" where
  "kanban_styles color adjust e = with_text (kanban_sections color adjust e) (kanban_sheet e)"

end
