(* ===== verification/Mermaid_Balance.thy ===== *)
theory Mermaid_Balance
  imports Mermaid_Diagram_Styles Mermaid_Section_Styles Mermaid_Sanitize
begin

text \<open>
  The braces of the style sheets: whatever the theme, a sheet opens and closes its blocks the same way, as
  long as no value of the theme has braces of its own. The collection \<open>sheet_simps\<close> reduces this for a
  sheet to the depth of its text and the values in it.
\<close>

section \<open>Values of a sheet\<close>

text \<open>
  A theme without braces in its values, but for balanced ones in the font family: what the checks of a
  directive leave.
\<close>

definition plain_theme :: "theme \<Rightarrow> bool" where
  "plain_theme e \<longleftrightarrow> balanced (to_string (e ''fontFamily'')) \<and>
     (\<forall>k. k \<noteq> ''fontFamily'' \<longrightarrow> brace_free (to_string (e k)))"

named_theorems sheet_simps

lemma plain_theme_value [sheet_simps]: "plain_theme e \<Longrightarrow> balanced (to_string (e k))"
  by (cases "k = ''fontFamily''") (auto simp: plain_theme_def intro: brace_free_balanced)

lemma plain_theme_free: "plain_theme e \<Longrightarrow> k \<noteq> ''fontFamily'' \<Longrightarrow> brace_free (to_string (e k))"
  by (simp add: plain_theme_def)

lemma lit_eq: "lit s = lit t \<longleftrightarrow> s = t"
  unfolding lit_def by (rule inj_map_eq_map [OF inj_ch])

lemma balanced_nil [sheet_simps]: "balanced []"
  by (simp add: balanced_def)

lemma balanced_lit [sheet_simps]: "text_depth 0 s = Some 0 \<Longrightarrow> balanced (lit s)"
  by (simp add: balanced_def depth_after_lit)

lemma balanced_append [sheet_simps]: "balanced s \<Longrightarrow> balanced t \<Longrightarrow> balanced (s @ t)"
  by (simp add: balanced_def depth_after_append)

lemma balanced_number [sheet_simps]: "balanced (show_int n)"
  using flat_brace_free [of "JNum n"] by (simp add: brace_free_balanced)

lemma balanced_js_or [sheet_simps]:
  "balanced (to_string a) \<Longrightarrow> balanced (to_string b) \<Longrightarrow> balanced (to_string (js_or a b))"
  by (simp add: js_or_def)

lemma balanced_js_coalesce [sheet_simps]:
  "balanced (to_string a) \<Longrightarrow> balanced (to_string b) \<Longrightarrow> balanced (to_string (js_coalesce a b))"
  by (simp add: js_coalesce_def)

lemma balanced_js_if [sheet_simps]:
  "balanced (to_string a) \<Longrightarrow> balanced (to_string b) \<Longrightarrow> balanced (to_string (js_if c a b))"
  by (simp add: js_if_def)

lemma balanced_render [sheet_simps]:
  "template_depth 0 T = Some 0 \<Longrightarrow> values_balanced T \<Longrightarrow> balanced (render T)"
  by (rule template_balanced)

lemma brace_free_substitution:
  "brace_free pre \<Longrightarrow> brace_free pat \<Longrightarrow> brace_free post \<Longrightarrow> brace_free rep \<Longrightarrow>
   brace_free (get_substitution pre pat post rep)"
  by (induction pre pat post rep rule: get_substitution.induct) auto

lemma brace_free_replace:
  assumes "brace_free s" and "brace_free rep"
  shows "brace_free (replace_first s pat rep)"
proof (cases "split_first pat s")
  case (Some p)
  obtain pre post where p: "p = (pre, post)" by (cases p)
  then have "s = pre @ pat @ post" using Some split_first_Some by simp
  then show ?thesis using Some p assms brace_free_substitution by (simp add: replace_first_def)
qed (simp add: replace_first_def assms)

lemma brace_free_lit: "brace_free (lit s) \<longleftrightarrow> CHR ''{'' \<notin> set s \<and> CHR ''}'' \<notin> set s"
proof -
  have "ch c = 123 \<longleftrightarrow> c = CHR ''{''" "ch c = 125 \<longleftrightarrow> c = CHR ''}''" for c
    using inj_ch [THEN inj_eq, of c "CHR ''{''"] inj_ch [THEN inj_eq, of c "CHR ''}''"] by (simp_all add: ch_def)
  then show ?thesis by (force simp: brace_free_def lit_def)
qed

text \<open>The shadow with the id of the svg put into it.\<close>

lemma balanced_shadow [sheet_simps]:
  assumes "brace_free (to_string d)" and "brace_free (to_string i)"
  shows "balanced (to_string (js_replace d (JStr pat) (JStr (render [[Txt ''url('', Val i, Txt ''-drop-shadow)'']]))))"
proof (cases d)
  case (JStr s)
  have "brace_free (render [[Txt ''url('', Val i, Txt ''-drop-shadow)'']])"
    using assms(2) by (simp add: render_def brace_free_lit)
  then show ?thesis using assms(1) JStr by (simp add: js_replace_def brace_free_replace brace_free_balanced)
qed (simp_all add: js_replace_def balanced_lit)

lemma plain_theme_shadow [sheet_simps]:
  "plain_theme e \<Longrightarrow> brace_free (to_string (e ''dropShadow''))"
  "plain_theme e \<Longrightarrow> brace_free (to_string (e ''svgId''))"
  by (simp_all add: plain_theme_free)

lemma values_balanced_simps [sheet_simps]:
  "values_balanced []"
  "values_balanced (ps # lines) \<longleftrightarrow> list_all (\<lambda>v. balanced (to_string v)) (values_of ps) \<and> values_balanced lines"
  by (auto simp: values_balanced_def list_all_iff)


section \<open>The sheets\<close>

lemma icon_balanced [sheet_simps]: "balanced (render icon_styles)"
  by (rule template_balanced) (simp_all add: icon_styles_def sheet_simps)

lemma pie_balanced: "plain_theme e \<Longrightarrow> balanced (render (pie_styles e))"
  by (rule template_balanced) (simp_all add: pie_styles_def sheet_simps)

lemma c4_balanced: "plain_theme e \<Longrightarrow> balanced (render (c4_styles e))"
  by (rule template_balanced) (simp_all add: c4_styles_def sheet_simps)

lemma sankey_balanced: "plain_theme e \<Longrightarrow> balanced (render (sankey_styles e))"
  by (rule template_balanced) (simp_all add: sankey_styles_def sheet_simps)

lemma ishikawa_balanced: "plain_theme e \<Longrightarrow> balanced (render (ishikawa_styles e))"
  by (rule template_balanced) (simp_all add: ishikawa_styles_def sheet_simps)

lemma venn_balanced: "plain_theme e \<Longrightarrow> balanced (render (venn_styles e))"
  by (rule template_balanced) (simp_all add: venn_styles_def sheet_simps)

lemma sequence_balanced: "plain_theme e \<Longrightarrow> balanced (render (sequence_styles e look))"
  by (rule template_balanced) (simp_all add: sequence_styles_def Let_def sheet_simps)

lemma class_balanced: "plain_theme e \<Longrightarrow> balanced (render (class_styles e))"
  by (rule template_balanced) (simp_all add: class_styles_def class_styles_1_def class_styles_2_def sheet_simps)

lemma journey_balanced: "plain_theme e \<Longrightarrow> balanced (render (journey_styles e))"
  by (rule template_balanced) (simp_all add: journey_styles_def sheet_simps)

lemma gantt_balanced: "plain_theme e \<Longrightarrow> balanced (render (gantt_styles e))"
  by (rule template_balanced) (simp_all add: gantt_styles_def gantt_styles_1_def gantt_styles_2_def sheet_simps)

lemma state_balanced: "plain_theme e \<Longrightarrow> balanced (render (state_styles_1 e @ state_styles_2 e))"
  by (rule template_balanced) (simp_all add: state_styles_1_def state_styles_2_def sheet_simps)

lemma main_balanced:
  "plain_theme r \<Longrightarrow> brace_free (to_string i) \<Longrightarrow> balanced n \<Longrightarrow> balanced (to_string t) \<Longrightarrow>
   balanced (render (main_styles r i (JStr n) t))"
  by (rule template_balanced) (simp_all add: main_styles_def sheet_simps brace_free_balanced)

lemma balanced_if [sheet_simps]:
  "(b \<Longrightarrow> balanced (to_string x)) \<Longrightarrow> (\<not> b \<Longrightarrow> balanced (to_string y)) \<Longrightarrow> balanced (to_string (if b then x else y))"
  by simp


section \<open>The sheets with loops\<close>

lemma rules_balanced:
  "rules f ls = Some s \<Longrightarrow> (\<And>l T. f l = Some T \<Longrightarrow> balanced (render T)) \<Longrightarrow> balanced s"
  by (induction ls arbitrary: s) (auto simp: balanced_nil balanced_append split: option.splits)

lemma color_rules_balanced:
  "color_rules e f = Some s \<Longrightarrow> (\<And>l T. f l = Some T \<Longrightarrow> balanced (render T)) \<Longrightarrow> balanced s"
  by (auto simp: color_rules_def bind_eq_Some_conv elim: rules_balanced)

lemma with_text_balanced:
  assumes "with_text c T = Some t" and "\<And>s. c = Some s \<Longrightarrow> balanced s" and "\<And>s. balanced s \<Longrightarrow> balanced (render (T (JStr s)))"
  shows "balanced (render t)"
  using assms by (auto simp: with_text_def)

lemma rules_eq_None: "rules f ls = None \<longleftrightarrow> (\<exists>l\<in>set ls. f l = None)"
  by (induction ls) (auto split: option.splits)

lemma color_rules_eq_None:
  "color_rules e f = None \<longleftrightarrow>
   (case loop_bound (e ''THEME_COLOR_LIMIT'') of None \<Rightarrow> True | Some n \<Rightarrow> \<exists>l<n. f l = None)"
  by (auto simp: color_rules_def rules_eq_None split: option.splits)

lemma join_balanced: "balanced sep \<Longrightarrow> \<forall>s\<in>set ss. balanced s \<Longrightarrow> balanced (join_with sep ss)"
  by (induction sep ss rule: join_with.induct) (auto intro: balanced_append simp: balanced_nil)

lemma join_brace_free: "brace_free (join_with (lit '','') ss) \<Longrightarrow> s \<in> set ss \<Longrightarrow> brace_free s"
  by (induction "lit '',''" ss rule: join_with.induct) auto

lemma element_free:
  assumes "brace_free (to_string v)" and "elements v = Some vs"
  shows "brace_free (to_string (element vs l))"
proof (cases "l < length vs")
  case True
  have "brace_free (to_string x)" if x: "x \<in> set vs" for x
  proof (cases v)
    case (JArr ws)
    then have "brace_free (if x = JUndef \<or> x = JNull then [] else to_string x)"
      using assms x join_brace_free [OF assms(1) [unfolded JArr to_string.simps]] by auto
    then show ?thesis by (auto simp: brace_free_lit split: if_splits)
  next
    case (JStr s)
    then show ?thesis using assms x by (auto simp: brace_free_def)
  qed (use assms x in auto)
  then show ?thesis using True by (simp add: element_def)
qed (simp add: element_def brace_free_lit)

lemma packet_balanced:
  "plain_theme e \<Longrightarrow> balanced (render (packet_styles e))"
  by (rule template_balanced) (simp_all add: packet_styles_def Let_def sheet_simps)

lemma treemap_balanced:
  "plain_theme n \<Longrightarrow> plain_theme i \<Longrightarrow> balanced (render (treemap_styles n i))"
  by (rule template_balanced) (simp_all add: treemap_styles_def Let_def sheet_simps)

lemma wardley_balanced:
  "plain_theme e \<Longrightarrow> balanced (render (wardley_styles e))"
  by (rule template_balanced) (simp_all add: wardley_styles_def Let_def sheet_simps)

lemma treeview_balanced:
  "balanced (to_string t) \<Longrightarrow> balanced (to_string r) \<Longrightarrow> balanced (to_string i) \<Longrightarrow> balanced (render (treeview_styles t r i))"
  by (rule template_balanced) (simp_all add: treeview_styles_def Let_def sheet_simps)

lemma radar_rule_balanced:
  "plain_theme e \<Longrightarrow> plain_theme r \<Longrightarrow> balanced (render (radar_rule e r i))"
  by (rule template_balanced) (simp_all add: radar_rule_def Let_def sheet_simps)

lemma radar_template_balanced:
  "plain_theme e \<Longrightarrow> plain_theme r \<Longrightarrow> balanced c \<Longrightarrow> balanced (render (radar_sheet e r (JStr c)))"
  by (rule template_balanced) (simp_all add: radar_sheet_def Let_def sheet_simps)

lemma flowchart_balanced:
  "(\<And>c. balanced (to_string (fade c))) \<Longrightarrow> plain_theme e \<Longrightarrow> balanced (render (flowchart_styles fade e))"
  by (rule template_balanced) (simp_all add: flowchart_styles_def Let_def sheet_simps)

lemma block_balanced:
  "(\<And>n c. balanced (to_string (fade n c))) \<Longrightarrow> plain_theme e \<Longrightarrow> balanced (render (block_styles fade e))"
  by (rule template_balanced) (simp_all add: block_styles_def Let_def sheet_simps)

lemma requirement_rule_balanced:
  "balanced (to_string look) \<Longrightarrow> (\<And>l. balanced (to_string (element s l))) \<Longrightarrow>
   (\<And>vs l. elements n = Some vs \<Longrightarrow> balanced (to_string (element vs l))) \<Longrightarrow> balanced (render (requirement_rule look n s l))"
  by (rule template_balanced) (simp_all add: requirement_rule_def Let_def sheet_simps has_elements_def split: option.splits)

lemma requirement_template_balanced:
  "plain_theme e \<Longrightarrow> balanced (to_string n) \<Longrightarrow> balanced c \<Longrightarrow> balanced (render (requirement_sheet e look n (JStr c)))"
  by (rule template_balanced) (simp_all add: requirement_sheet_def Let_def sheet_simps)

lemma er_rule_balanced:
  "balanced (to_string look) \<Longrightarrow> (\<And>l. balanced (to_string (element bkgs l))) \<Longrightarrow> (\<And>l. balanced (to_string (element n l))) \<Longrightarrow>
   balanced (render (er_rule look s bkgs n l))"
  by (rule template_balanced) (simp_all add: er_rule_def Let_def sheet_simps)

lemma er_template_balanced:
  "(\<And>c. balanced (to_string (fade c))) \<Longrightarrow> plain_theme e \<Longrightarrow> balanced c \<Longrightarrow> balanced (render (er_sheet fade e (JStr c)))"
  by (rule template_balanced) (simp_all add: er_sheet_def Let_def sheet_simps)

lemma git_gradient_rule_balanced:
  "plain_theme e \<Longrightarrow> balanced (render (git_gradient_rule e l))"
  by (rule template_balanced) (simp_all add: git_gradient_rule_def Let_def sheet_simps)

lemma git_neo_first_balanced:
  "plain_theme e \<Longrightarrow> balanced c \<Longrightarrow> balanced (render (git_neo_first e (JStr c) l))"
  by (rule template_balanced) (simp_all add: git_neo_first_def Let_def sheet_simps)

lemma git_neo_rule_balanced:
  "plain_theme e \<Longrightarrow> balanced (render (git_neo_rule e l))"
  by (rule template_balanced) (simp_all add: git_neo_rule_def Let_def sheet_simps)

lemma git_color_first_balanced:
  "plain_theme e \<Longrightarrow> balanced (render (git_color_first e s l))"
  by (rule template_balanced) (simp_all add: git_color_first_def Let_def sheet_simps)

lemma git_color_rule_balanced:
  "plain_theme e \<Longrightarrow> balanced (to_string n) \<Longrightarrow> balanced (render (git_color_rule e s dark n l))"
  by (rule template_balanced) (simp_all add: git_color_rule_def Let_def sheet_simps)

lemma git_plain_rule_balanced:
  "plain_theme e \<Longrightarrow> balanced (render (git_plain_rule e s l))"
  by (rule template_balanced) (simp_all add: git_plain_rule_def Let_def sheet_simps)

lemma git_classic_rule_balanced:
  "plain_theme e \<Longrightarrow> balanced (render (git_classic_rule e l))"
  by (rule template_balanced) (simp_all add: git_classic_rule_def Let_def sheet_simps)

lemma git_template_balanced:
  "plain_theme e \<Longrightarrow> balanced c \<Longrightarrow> balanced (render (git_sheet e i r (JStr c)))"
  by (rule template_balanced) (simp_all add: git_sheet_def Let_def sheet_simps)

lemma redux_section_balanced:
  "plain_theme e \<Longrightarrow> balanced (to_string h) \<Longrightarrow> balanced (to_string d) \<Longrightarrow> balanced (to_string s) \<Longrightarrow> balanced (render (redux_section e r i h d s l))"
  by (rule template_balanced) (simp_all add: redux_section_def Let_def sheet_simps)

lemma timeline_section_balanced:
  "plain_theme e \<Longrightarrow> balanced (render (timeline_section e l))"
  by (rule template_balanced) (simp_all add: timeline_section_def Let_def sheet_simps)

lemma timeline_gradient_balanced:
  "plain_theme e \<Longrightarrow> balanced (to_string n) \<Longrightarrow> balanced (render (timeline_gradient n e l))"
  by (rule template_balanced) (simp_all add: timeline_gradient_def Let_def sheet_simps)

lemma timeline_template_balanced:
  "plain_theme e \<Longrightarrow> balanced c \<Longrightarrow> balanced s \<Longrightarrow> balanced (render (timeline_sheet e (JStr c) (JStr s)))"
  by (rule template_balanced) (simp_all add: timeline_sheet_def Let_def sheet_simps)

lemma kanban_section_balanced:
  "(\<And>c. balanced (to_string (adj c))) \<Longrightarrow> plain_theme e \<Longrightarrow> balanced (render (kanban_section adj e l))"
  by (rule template_balanced) (simp_all add: kanban_section_def Let_def sheet_simps)

lemma kanban_template_balanced:
  "plain_theme e \<Longrightarrow> balanced c \<Longrightarrow> balanced (render (kanban_sheet e (JStr c)))"
  by (rule template_balanced) (simp_all add: kanban_sheet_def Let_def sheet_simps)


section \<open>Style functions\<close>

lemma colors_of_free: "plain_theme e \<Longrightarrow> elements (e ''borderColorArray'') = Some vs \<Longrightarrow> balanced (to_string (element vs l))"
  "plain_theme e \<Longrightarrow> elements (e ''bkgColorArray'') = Some vs \<Longrightarrow> balanced (to_string (element vs l))"
  by (auto intro!: brace_free_balanced element_free [rotated] simp: plain_theme_free)

lemma radar_styles_balanced:
  assumes "plain_theme e" and "plain_theme r" and "radar_styles e r = Some T"
  shows "balanced (render T)"
  using assms(3) unfolding radar_styles_def
  by (rule with_text_balanced)
    (use assms in \<open>auto intro: radar_template_balanced radar_rule_balanced elim: color_rules_balanced\<close>)

lemma requirement_colors_balanced:
  assumes "plain_theme tv" and "balanced (to_string look)" and "requirement_colors e tv look = Some s"
  shows "balanced s"
proof -
  have rule: "balanced (render (requirement_rule look (tv ''bkgColorArray'') vs l))"
    if "elements (tv ''borderColorArray'') = Some vs" for vs l
    using assms(2) colors_of_free [OF assms(1)] that by (intro requirement_rule_balanced) auto
  show ?thesis using assms(3)
    by (auto simp: requirement_colors_def balanced_nil intro: rule elim: color_rules_balanced split: option.splits if_splits)
qed

lemma requirement_styles_balanced:
  assumes "plain_theme e" and "plain_theme tv" and "balanced (to_string look)" and "requirement_styles tv look e = Some T"
  shows "balanced (render T)"
  using assms(4) unfolding requirement_styles_def
  by (rule with_text_balanced)
    (use assms in \<open>auto intro: requirement_template_balanced plain_theme_value elim: requirement_colors_balanced [rotated 2]\<close>)

lemma er_colors_balanced:
  assumes "plain_theme e" and "er_colors e = Some s"
  shows "balanced s"
proof -
  have "balanced (to_string (element [] l))" for l by (simp add: element_def balanced_lit)
  then have bkgs: "balanced (to_string (element (case elements (e ''bkgColorArray'') of None \<Rightarrow> [] | Some bkgs \<Rightarrow> bkgs) l))" for l
    using colors_of_free(2) [OF assms(1)] by (cases "elements (e ''bkgColorArray'')") auto
  have rule: "balanced (render (er_rule (e ''look'') b (case elements (e ''bkgColorArray'') of None \<Rightarrow> [] | Some bkgs \<Rightarrow> bkgs) n l))"
    if "elements (e ''borderColorArray'') = Some n" for b n l
    using bkgs colors_of_free(1) [OF assms(1) that] plain_theme_value [OF assms(1)] by (intro er_rule_balanced) auto
  show ?thesis using assms(2)
    by (auto simp: er_colors_def balanced_nil intro: rule elim!: color_rules_balanced split: if_splits)
qed

lemma er_styles_balanced:
  assumes "plain_theme e" and "\<And>c. balanced (to_string (fade c))" and "er_styles fade e = Some T"
  shows "balanced (render T)"
  using assms(3) unfolding er_styles_def
  by (rule with_text_balanced) (use assms in \<open>auto intro: er_template_balanced er_colors_balanced\<close>)

lemma git_gradient_balanced: "plain_theme e \<Longrightarrow> git_gradient e = Some s \<Longrightarrow> balanced s"
  by (auto simp: git_gradient_def balanced_nil split: if_splits intro: git_gradient_rule_balanced elim: color_rules_balanced)

lemma git_colors_balanced:
  assumes "plain_theme e" and "\<And>vs l. elements borders = Some vs \<Longrightarrow> balanced (to_string (element vs l))"
    and "git_colors th borders e = Some s"
  shows "balanced s"
proof -
  have neo: "balanced (render T)"
    if "(if l = 0 then with_text (git_gradient e) (\<lambda>c. git_neo_first e c l) else Some (git_neo_rule e l)) = Some T" for l T
    using that assms(1) git_gradient_balanced
    by (auto split: if_splits intro: git_neo_rule_balanced git_neo_first_balanced elim!: with_text_balanced)
  have color: "balanced (render T)"
    if "(if l = 0 then Some (git_color_first e b l) else map_option (\<lambda>n. git_color_rule e b dark (element n (l mod length n)) l)
        (elements borders)) = Some T" for b dark l T
    using that assms(1,2) by (auto split: if_splits intro: git_color_first_balanced git_color_rule_balanced)
  show ?thesis using assms(3) unfolding git_colors_def Let_def
    by (auto split: if_split_asm elim!: color_rules_balanced dest: neo color intro: git_plain_rule_balanced assms(1))
qed

lemma git_normal_balanced: "plain_theme e \<Longrightarrow> git_normal e = Some s \<Longrightarrow> balanced s"
  by (auto simp: git_normal_def balanced_def [of "[10]"] intro!: join_balanced git_classic_rule_balanced)

lemma git_styles_balanced:
  assumes "plain_theme e" and "brace_free (to_string borders)" and "git_styles th borders e = Some T"
  shows "balanced (render T)"
proof -
  have borders: "elements borders = Some vs \<Longrightarrow> balanced (to_string (element vs l))" for vs l
    using element_free [OF assms(2)] brace_free_balanced by blast
  show ?thesis using assms(3) unfolding git_styles_def Let_def
    by (rule with_text_balanced)
      (use assms(1) borders in \<open>auto split: if_split_asm intro: git_template_balanced git_colors_balanced git_normal_balanced\<close>)
qed

lemma plain_id_free: "plain_id v = Some n \<Longrightarrow> brace_free (to_string v) \<Longrightarrow> brace_free (to_string n)"
  by (cases v) (auto simp: brace_free_def dest: list.set_sel(2) split: if_splits)

lemma plain_id_balanced: "plain_theme e \<Longrightarrow> plain_id (e ''svgId'') = Some n \<Longrightarrow> balanced (to_string n)"
  by (rule brace_free_balanced, erule plain_id_free) (simp add: plain_theme_free)

lemma redux_sections_balanced:
  assumes "plain_theme e" and "redux_sections th e = Some s"
  shows "balanced s"
proof -
  obtain n where n: "plain_id (e ''svgId'') = Some n" using assms(2) by (auto simp: redux_sections_def Let_def bind_eq_Some_conv)
  have "balanced (to_string n)" by (rule plain_id_balanced [OF assms(1) n])
  then have shadow: "balanced (to_string (if truthy n then JStr (lit ''url(#'' @ to_string n @ lit ''-drop-shadow)'')
      else js_coalesce (e ''dropShadow'') (JStr (lit ''none''))))"
    using assms(1) by (simp add: sheet_simps)
  show ?thesis using assms(2) n shadow colors_of_free(1) [OF assms(1)] plain_theme_value [OF assms(1)]
    unfolding redux_sections_def Let_def
    by (auto simp del: to_string.simps split: if_split_asm elim!: color_rules_balanced intro!: redux_section_balanced assms(1))
qed

lemma timeline_sections_balanced: "plain_theme e \<Longrightarrow> timeline_sections color e = Some s \<Longrightarrow> balanced s"
  by (auto simp: timeline_sections_def bind_eq_Some_conv split: if_splits intro: timeline_section_balanced elim!: rules_balanced)

lemma timeline_styles_balanced:
  assumes "plain_theme e" and "timeline_styles color th e = Some T"
  shows "balanced (render T)"
proof -
  obtain n s where n: "plain_id (e ''svgId'') = Some n"
    and s: "(if truthy (e ''useGradient'') \<and> truthy n \<and> truthy (e ''THEME_COLOR_LIMIT'') \<and> th \<noteq> lit ''neutral''
           then color_rules e (\<lambda>l. Some (timeline_gradient n e l)) else Some []) = Some s"
    and T: "with_text (if js_includes th (lit ''redux'') then redux_sections th e else timeline_sections color e)
           (\<lambda>c. timeline_sheet e c (JStr s)) = Some T"
    using assms(2) by (auto simp: timeline_styles_def bind_eq_Some_conv)
  have "balanced s" using s plain_id_balanced [OF assms(1) n] assms(1)
    by (auto simp: balanced_nil split: if_split_asm elim!: color_rules_balanced intro: timeline_gradient_balanced)
  then show ?thesis using assms(1)
    by (intro with_text_balanced [OF T])
      (auto split: if_split_asm intro: timeline_template_balanced redux_sections_balanced timeline_sections_balanced)
qed

lemma kanban_styles_balanced:
  assumes "plain_theme e" and "\<And>b c. balanced (to_string (adjust b c))" and "kanban_styles color adjust e = Some T"
  shows "balanced (render T)"
  using assms(3) unfolding kanban_styles_def
  by (rule with_text_balanced)
    (use assms in \<open>auto simp: kanban_sections_def bind_eq_Some_conv split: if_splits
      intro: kanban_template_balanced kanban_section_balanced elim!: rules_balanced\<close>)

end
