(* ===== verification/Mermaid_Sheets.thy ===== *)
theory Mermaid_Sheets
  imports Mermaid_Balance
begin

text \<open>
  How the style sheets of \<open>docs/mermaid.tiny.js\<close> are registered and put together, and what the checks of
  the configuration mean for them: a sheet opens and closes its blocks the same way whatever the theme,
  as long as no value of the theme has braces of its own.
\<close>

section \<open>Registration and composition\<close>

text \<open>
  The table \<open>eb\<close> of style functions by type of diagram. A style function gets the options of the theme and
  throws, here \<open>None\<close>, when it calls a method a value does not have.
\<close>

type_synonym style_fn = "theme \<Rightarrow> template option"
type_synonym style_table = "ustr \<Rightarrow> style_fn option"

text \<open>\<open>addStylesForDiagram\<close>: an undefined sheet is ignored, another replaces the one before.\<close>

definition add_styles :: "style_table \<Rightarrow> ustr \<Rightarrow> style_fn option \<Rightarrow> style_table" where
  "add_styles eb e t = (case t of None \<Rightarrow> eb | Some f \<Rightarrow> eb(e \<mapsto> f))"

text \<open>
  \<open>getStyles\<close>: \<open>e\<close> is the type of the diagram, \<open>t\<close> the user's style sheet, \<open>r\<close> the options and \<open>i\<close> the id of the
  svg. An unknown type gets no sheet of its own.
\<close>

definition get_styles :: "style_table \<Rightarrow> ustr \<Rightarrow> js \<Rightarrow> theme \<Rightarrow> js \<Rightarrow> ustr option" where
  "get_styles eb e t r i =
     (case (case eb e of None \<Rightarrow> Some [] | Some f \<Rightarrow> map_option render (f (r(''svgId'' := i)))) of
        None \<Rightarrow> None
      | Some n \<Rightarrow> if shadow_throws r then None else Some (render (main_styles r i (JStr n) t)))"


section \<open>The contract of a sheet\<close>

text \<open>What \<open>getStyles\<close> needs of a style function, and what registering such functions then gives.\<close>

locale style_sheet =
  fixes sheet :: style_fn
  assumes sheet_balanced: "plain_theme e \<Longrightarrow> sheet e = Some T \<Longrightarrow> balanced (render T)"

definition table_ok :: "style_table \<Rightarrow> bool" where
  "table_ok eb \<longleftrightarrow> (\<forall>k f. eb k = Some f \<longrightarrow> style_sheet f)"

lemma table_ok_empty: "table_ok (\<lambda>_. None)"
  by (simp add: table_ok_def)

context style_sheet begin

lemma add_keeps: "table_ok eb \<Longrightarrow> table_ok (add_styles eb k (Some sheet))"
  by (auto simp: table_ok_def add_styles_def style_sheet_axioms)

end

interpretation pie: style_sheet "\<lambda>e. Some (pie_styles e)"
  by unfold_locales (auto simp: pie_balanced)

interpretation c4: style_sheet "\<lambda>e. Some (c4_styles e)"
  by unfold_locales (auto simp: c4_balanced)

interpretation sankey: style_sheet "\<lambda>e. Some (sankey_styles e)"
  by unfold_locales (auto simp: sankey_balanced)

interpretation ishikawa: style_sheet "\<lambda>e. Some (ishikawa_styles e)"
  by unfold_locales (auto simp: ishikawa_balanced)

interpretation venn: style_sheet "\<lambda>e. Some (venn_styles e)"
  by unfold_locales (auto simp: venn_balanced)

interpretation sequence: style_sheet "\<lambda>e. Some (sequence_styles e look)" for look
  by unfold_locales (auto simp: sequence_balanced)

interpretation class_diagram: style_sheet "\<lambda>e. Some (class_styles e)"
  by unfold_locales (auto simp: class_balanced)

interpretation journey: style_sheet "\<lambda>e. Some (journey_styles e)"
  by unfold_locales (auto simp: journey_balanced)

interpretation gantt: style_sheet "\<lambda>e. Some (gantt_styles e)"
  by unfold_locales (auto simp: gantt_balanced)

interpretation timeline: style_sheet "timeline_styles color th" for color th
  by unfold_locales (rule timeline_styles_balanced)

interpretation state_diagram: style_sheet state_styles
  by unfold_locales (auto simp: state_styles_def state_balanced split: if_splits)

text \<open>
  What else the sheets depend on: the look, the theme and the theme variables of the configuration, the
  options of a kind of diagram merged with their defaults, and the colour functions of the bundled colour
  library: \<open>fade\<close> to an opacity in tenths, the test for a colour, and lightening or darkening by ten.
\<close>

record sheet_context =
  sc_look :: js
  sc_theme :: ustr
  sc_variables :: theme
  sc_options :: "string \<Rightarrow> theme \<Rightarrow> theme"
  sc_fade :: "nat \<Rightarrow> js \<Rightarrow> js"
  sc_is_color :: "js \<Rightarrow> bool"
  sc_adjust :: "bool \<Rightarrow> js \<Rightarrow> js"

text \<open>None of them brings in braces.\<close>

definition context_ok :: "sheet_context \<Rightarrow> bool" where
  "context_ok sc \<longleftrightarrow> balanced (to_string (sc_look sc)) \<and> plain_theme (sc_variables sc) \<and>
     (\<forall>d e. plain_theme e \<longrightarrow> plain_theme (sc_options sc d e)) \<and>
     (\<forall>n c. balanced (to_string (sc_fade sc n c))) \<and> (\<forall>b c. balanced (to_string (sc_adjust sc b c)))"

text \<open>
  The table once the diagrams with these sheets are registered, under the names of the bundle. A diagram
  that is not modelled has no entry here.
\<close>

definition sheet_list :: "sheet_context \<Rightarrow> (string \<times> style_fn) list" where
  "sheet_list sc =
     [(''c4'', \<lambda>e. Some (c4_styles e)),
      (''gantt'', \<lambda>e. Some (gantt_styles e)),
      (''pie'', \<lambda>e. Some (pie_styles e)),
      (''sequence'', \<lambda>e. Some (sequence_styles e (sc_look sc))),
      (''class'', \<lambda>e. Some (class_styles e)),
      (''classDiagram'', \<lambda>e. Some (class_styles e)),
      (''state'', state_styles),
      (''stateDiagram'', state_styles),
      (''journey'', \<lambda>e. Some (journey_styles e)),
      (''sankey'', \<lambda>e. Some (sankey_styles e)),
      (''ishikawa'', \<lambda>e. Some (ishikawa_styles e)),
      (''venn'', \<lambda>e. Some (venn_styles e)),
      (''packet'', \<lambda>e. Some (packet_styles (sc_options sc ''packet'' e))),
      (''treemap'', \<lambda>e. Some (treemap_styles (sc_options sc ''treemap'' e) (sc_variables sc))),
      (''wardley-beta'', \<lambda>e. Some (wardley_styles (sc_options sc ''wardley'' e))),
      (''treeView'', \<lambda>e. let o' = sc_options sc ''treeView'' e in
         Some (treeview_styles (o' ''labelFontSize'') (o' ''labelColor'') (o' ''lineColor''))),
      (''radar'', \<lambda>e. radar_styles (sc_variables sc) (sc_options sc ''radar'' e)),
      (''requirement'', requirement_styles (sc_variables sc) (sc_look sc)),
      (''er'', er_styles (sc_fade sc 5)),
      (''flowchart'', \<lambda>e. Some (flowchart_styles (sc_fade sc 5) e)),
      (''flowchart-v2'', \<lambda>e. Some (flowchart_styles (sc_fade sc 5) e)),
      (''block'', \<lambda>e. Some (block_styles (sc_fade sc) e)),
      (''gitGraph'', git_styles (JStr (sc_theme sc)) (sc_variables sc ''borderColorArray'')),
      (''timeline'', timeline_styles (sc_is_color sc) (sc_theme sc)),
      (''kanban'', kanban_styles (sc_is_color sc) (sc_adjust sc))]"

definition sheet_table :: "sheet_context \<Rightarrow> style_table" where
  "sheet_table sc = foldl (\<lambda>eb (k, f). add_styles eb (lit k) (Some f)) (\<lambda>_. None) (sheet_list sc)"

lemma table_ok_foldl:
  "table_ok eb \<Longrightarrow> list_all (style_sheet \<circ> snd) kfs \<Longrightarrow>
   table_ok (foldl (\<lambda>eb (k, f). add_styles eb (lit k) (Some f)) eb kfs)"
  by (induction kfs arbitrary: eb) (auto simp: style_sheet.add_keeps)

lemma style_sheet_const: "(\<And>e. plain_theme e \<Longrightarrow> balanced (render (f e))) \<Longrightarrow> style_sheet (\<lambda>e. Some (f e))"
  by unfold_locales auto

lemma sheet_list_ok:
  assumes "context_ok sc"
  shows "list_all (style_sheet \<circ> snd) (sheet_list sc)"
proof -
  have look: "balanced (to_string (sc_look sc))" and vars: "plain_theme (sc_variables sc)"
    and opts: "\<And>d e. plain_theme e \<Longrightarrow> plain_theme (sc_options sc d e)"
    and fade: "\<And>n c. balanced (to_string (sc_fade sc n c))" and adj: "\<And>b c. balanced (to_string (sc_adjust sc b c))"
    using assms by (simp_all add: context_ok_def)
  have borders: "brace_free (to_string (sc_variables sc ''borderColorArray''))"
    using vars by (simp add: plain_theme_free)
  have "style_sheet (requirement_styles (sc_variables sc) (sc_look sc))"
    by unfold_locales (rule requirement_styles_balanced [OF _ vars look])
  moreover have "style_sheet (er_styles (sc_fade sc 5))"
    by unfold_locales (rule er_styles_balanced [OF _ fade])
  moreover have "style_sheet (git_styles (JStr (sc_theme sc)) (sc_variables sc ''borderColorArray''))"
    by unfold_locales (rule git_styles_balanced [OF _ borders])
  moreover have "style_sheet (kanban_styles (sc_is_color sc) (sc_adjust sc))"
    by unfold_locales (rule kanban_styles_balanced [OF _ adj])
  moreover have "style_sheet (\<lambda>e. radar_styles (sc_variables sc) (sc_options sc ''radar'' e))"
    by unfold_locales (rule radar_styles_balanced [OF vars opts])
  moreover have "style_sheet (\<lambda>e. let o' = sc_options sc ''treeView'' e in
      Some (treeview_styles (o' ''labelFontSize'') (o' ''labelColor'') (o' ''lineColor'')))"
    unfolding Let_def by (rule style_sheet_const) (simp add: treeview_balanced plain_theme_value opts)
  ultimately show ?thesis unfolding sheet_list_def
    by (simp add: pie.style_sheet_axioms c4.style_sheet_axioms sankey.style_sheet_axioms ishikawa.style_sheet_axioms
        venn.style_sheet_axioms sequence.style_sheet_axioms class_diagram.style_sheet_axioms journey.style_sheet_axioms
        gantt.style_sheet_axioms state_diagram.style_sheet_axioms timeline.style_sheet_axioms
        style_sheet_const packet_balanced treemap_balanced wardley_balanced flowchart_balanced block_balanced
        vars opts fade)
qed

lemma sheet_table_ok: "context_ok sc \<Longrightarrow> table_ok (sheet_table sc)"
  unfolding sheet_table_def by (rule table_ok_foldl [OF table_ok_empty sheet_list_ok])

lemma plain_theme_svg_id: "plain_theme r \<Longrightarrow> brace_free (to_string i) \<Longrightarrow> plain_theme (r(''svgId'' := i))"
  by (simp add: plain_theme_def)

lemma get_styles_ok:
  assumes "table_ok eb" and "plain_theme r" and "brace_free (to_string i)" and "balanced (to_string t)"
    and "get_styles eb e t r i = Some css"
  shows "balanced css"
proof -
  obtain n where n: "(case eb e of None \<Rightarrow> Some [] | Some f \<Rightarrow> map_option render (f (r(''svgId'' := i)))) = Some n"
      "css = render (main_styles r i (JStr n) t)"
    using assms(5) by (auto simp: get_styles_def split: option.splits if_splits)
  have "balanced n"
  proof (cases "eb e")
    case (Some f)
    then have "style_sheet f" using assms(1) by (simp add: table_ok_def)
    moreover obtain T where "f (r(''svgId'' := i)) = Some T" "n = render T" using n(1) Some by auto
    ultimately show ?thesis using style_sheet.sheet_balanced plain_theme_svg_id assms(2,3) by blast
  qed (use n(1) in \<open>simp add: balanced_nil\<close>)
  then show ?thesis unfolding n(2) by (rule main_balanced [OF assms(2,3) _ assms(4)])
qed


text \<open>\<open>addStylesForDiagram\<close>: an undefined sheet changes nothing, the last sheet of a type is used, and
  other types keep theirs; a type without a sheet gets the common sheet alone.\<close>

lemma last_sheet_used:
  "add_styles eb e None = eb \<and>
   get_styles (add_styles (add_styles eb e (Some f)) e (Some g)) e t r i = get_styles (\<lambda>k. if k = e then Some g else None) e t r i \<and>
   (add_styles eb e (Some f))(e := eb e) = eb \<and>
   get_styles (\<lambda>_. None) e t r i = (if shadow_throws r then None else Some (render (main_styles r i (JStr []) t)))"
  by (simp add: add_styles_def get_styles_def fun_eq_iff)

section \<open>Properties\<close>

text \<open>Every style sheet keeps its blocks: with a theme without braces in its values, but for balanced ones
  in the font family, the sheet of each of these diagrams, put into the common sheet with a balanced user
  style, opens and closes its braces properly, however many colours there are.\<close>

lemma styles_balanced:
  assumes "context_ok sc" and "plain_theme r" and "brace_free (to_string i)" and "balanced (to_string t)"
    and "get_styles (sheet_table sc) d t r i = Some css"
  shows "balanced css"
  using get_styles_ok [OF sheet_table_ok [OF assms(1)] assms(2-)] .

text \<open>The options of a style function, read from the theme variables of a directive.\<close>

definition theme_of :: "(ustr \<times> js) list \<Rightarrow> theme" where
  "theme_of qs k = property qs (lit k)"

text \<open>From a diagram's text to its style sheet: what a directive that was accepted says about the theme
  cannot unbalance the sheet of any of these diagrams, unless a variable is an array.\<close>

lemma directive_styles_balanced:
  assumes "context_ok sc" and "add_directive known cf e = Inr (cf @ [JObj ps])"
    and "property ps theme_variables = JObj qs" and "\<forall>(k, v)\<in>set qs. flat v"
    and "brace_free (to_string i)" and "balanced (to_string t)"
    and "get_styles (sheet_table sc) d t (theme_of qs) i = Some css"
  shows "balanced css"
proof -
  have undef: "brace_free (to_string JUndef)" by (simp add: lit_def ch_def)
  have bal: "balanced (to_string (property qs k))" and free: "k \<noteq> font_family \<Longrightarrow> brace_free (to_string (property qs k))" for k
  proof -
    have "balanced (to_string (property qs k)) \<and> (k \<noteq> font_family \<longrightarrow> brace_free (to_string (property qs k)))"
    proof (cases "property qs k = JUndef")
      case False
      then have mem: "(k, property qs k) \<in> set qs" by (rule property_mem [OF refl])
      then have "flat (property qs k)" using assms(4) by auto
      then show ?thesis using directive_variable_safe [OF assms(2,3) mem] by simp
    qed (use undef brace_free_balanced in auto)
    then show "balanced (to_string (property qs k))" "k \<noteq> font_family \<Longrightarrow> brace_free (to_string (property qs k))"
      by auto
  qed
  have "lit k = font_family \<longleftrightarrow> k = ''fontFamily''" for k by (simp add: font_family_def lit_eq)
  then have "plain_theme (theme_of qs)" using bal free by (simp add: plain_theme_def theme_of_def)
  from get_styles_ok [OF sheet_table_ok [OF assms(1)] this assms(5,6,7)] show ?thesis .
qed

text \<open>A journey's section colours \<open>fillType1\<close> to \<open>fillType7\<close> have no effect at all while \<open>fillType0\<close> is not
  set: each rule tests \<open>fillType0\<close> and then prints its own colour.\<close>

lemma journey_fill_needs_fill0:
  assumes "\<not> truthy (e ''fillType0'')"
    and "k \<in> {''fillType1'', ''fillType2'', ''fillType3'', ''fillType4'', ''fillType5'', ''fillType6'', ''fillType7''}"
  shows "journey_styles (e(k := v)) = journey_styles e"
proof -
  have "js_if (e ''fillType0'') a b = b" for a b using assms(1) by (simp add: js_if_def)
  with assms(2) show ?thesis by (elim insertE emptyE) (simp_all add: journey_styles_def)
qed

text \<open>A git graph has eight colours: the rules of branch \<open>l + 8\<close> are those of branch \<open>l\<close> but for the class names
  (the first two pieces of a line), in the classic themes and, after the first branch, in the neo themes.\<close>

lemma git_colors_repeat:
  "map (drop 2) (git_classic_rule e (l + 8)) = map (drop 2) (git_classic_rule e l) \<and>
   map (drop 2) (git_neo_rule e (l + 8)) = map (drop 2) (git_neo_rule e l)"
  by (simp add: git_classic_rule_def git_neo_rule_def Let_def)

text \<open>The sheet of entity relationship diagrams is missing exactly when the theme is a redux theme with
  colours and either the number of colours is no numeral or there are colours to set but no array of
  border colours.\<close>

lemma er_sheet_missing_exact:
  "er_styles fade e = None \<longleftrightarrow>
     in_set [''redux-color'', ''redux-dark-color''] (e ''theme'') \<and>
     (case loop_bound (e ''THEME_COLOR_LIMIT'') of
        None \<Rightarrow> True
      | Some n \<Rightarrow> 0 < n \<and> nullish (e ''borderColorArray''))"
proof -
  have "elements v = None \<longleftrightarrow> nullish v" for v by (cases v) (auto simp: nullish_def)
  then show ?thesis
    by (auto simp: er_styles_def er_colors_def with_text_def color_rules_eq_None split: option.splits)
qed

text \<open>The exception is real: a directive with an array as the pie's stroke colour is accepted unchanged,
  and the sheet it then gives is unbalanced.\<close>

lemma array_unbalances_sheet:
  assumes "known theme_variables" and "\<not> deleted known (lit ''pieStrokeColor'') (JArr [JStr (lit ''}'')])"
  shows "\<exists>qs. add_directive known [] (JObj [(theme_variables, JObj qs)]) = Inr [JObj [(theme_variables, JObj qs)]] \<and>
           \<not> balanced (render (pie_styles (theme_of qs)))"
proof (intro exI conjI)
  let ?qs = "[(lit ''pieStrokeColor'', JArr [JStr (lit ''}'')])]"
  have "lit ''pieStrokeColor'' \<noteq> node_colors" "lit ''pieStrokeColor'' \<noteq> theme_variables"
    by (simp_all add: node_colors_def theme_variables_def lit_def ch_def)
  then have clean: "sanitize_directive known (JObj [(theme_variables, JObj ?qs)]) = Inr (JObj [(theme_variables, JObj ?qs)])"
    using array_variable_unchecked [where known = known] assms by blast
  have "property [(theme_variables, JObj ?qs)] font_family = JUndef"
    by (simp add: property_def font_family_def theme_variables_def lit_def ch_def)
  then have "promote_font (JObj [(theme_variables, JObj ?qs)]) = Inr (JObj [(theme_variables, JObj ?qs)])"
    by (simp add: Let_def)
  then show "add_directive known [] (JObj [(theme_variables, JObj ?qs)]) = Inr [JObj [(theme_variables, JObj ?qs)]]"
    unfolding add_directive_def clean rbind_Inr append_Nil by simp
  show "\<not> balanced (render (pie_styles (theme_of ?qs)))" by code_simp
qed

text \<open>A configuration for the witnesses.\<close>

definition sample_context :: sheet_context where
  "sample_context = \<lparr>sc_look = JUndef, sc_theme = lit ''default'', sc_variables = (\<lambda>_. JUndef),
     sc_options = (\<lambda>_ e. e), sc_fade = (\<lambda>_ c. JStr (lit ''rgba(0, 0, 0, 0.5)'')), sc_is_color = (\<lambda>_. True),
     sc_adjust = (\<lambda>_ c. JStr (lit ''black''))\<rparr>"

lemma sample_context_ok: "context_ok sample_context"
  by (simp add: context_ok_def sample_context_def plain_theme_def balanced_lit brace_free_lit)

lemma sample_lookup:
  "sheet_table sample_context (lit ''pie'') = Some (\<lambda>e. Some (pie_styles e))"
  "sheet_table sample_context (lit ''gitGraph'') = Some (git_styles (JStr (lit ''default'')) JUndef)"
  by (simp_all add: sheet_table_def sheet_list_def add_styles_def sample_context_def lit_def ch_def)

end
