(* ===== verification/Mermaid_Configured.thy ===== *)
theory Mermaid_Configured
  imports Mermaid_Config Mermaid_Sheets
begin

text \<open>
  From the text of a diagram to its style sheet through the configuration: the theme variables of a cleaned
  directive are merged into those of the site, or override those of a theme, and become, with the names of
  the theme and the look, the options of the style functions.
\<close>

section \<open>The options of the style functions\<close>

definition look_key :: ustr where
  "look_key = lit ''look''"

text \<open>\<open>{...e.themeVariables, theme: e.theme, look: e.look}\<close>\<close>

definition style_options :: "js \<Rightarrow> theme" where
  "style_options e = theme_of (put_property (put_property (spread (member e theme_variables))
     theme_key (member e theme_key)) look_key (member e look_key))"

text \<open>
  \<open>createUserStyles\<close> up to the compilation of the sheet; \<open>n\<close> is what \<open>createCssStyles\<close> makes of the page's own
  rules.
\<close>

definition create_user_styles :: "style_table \<Rightarrow> js \<Rightarrow> ustr \<Rightarrow> js \<Rightarrow> js \<Rightarrow> ustr option" where
  "create_user_styles eb e t n i = get_styles eb t n (style_options e) i"


section \<open>Values without braces\<close>

definition plain_value :: "ustr \<Rightarrow> js \<Rightarrow> bool" where
  "plain_value k v \<longleftrightarrow> balanced (to_string v) \<and> (k \<noteq> font_family \<longrightarrow> brace_free (to_string v))"

definition holds :: "(ustr \<Rightarrow> js \<Rightarrow> bool) \<Rightarrow> (ustr \<times> js) list \<Rightarrow> bool" where
  "holds R ps \<longleftrightarrow> (\<forall>(k, v)\<in>set ps. R k v)"

lemma holds_simps [simp]:
  "holds R []" "holds R ((k, v) # ps) \<longleftrightarrow> R k v \<and> holds R ps"
  by (auto simp: holds_def)

lemma holds_put: "holds R ps \<Longrightarrow> R k v \<Longrightarrow> holds R (put_property ps k v)"
  using put_property_mem unfolding holds_def by fastforce

lemma holds_put_all: "holds R ps \<Longrightarrow> holds R qs \<Longrightarrow> holds R (put_all ps qs)"
  by (induction qs arbitrary: ps) (auto simp: holds_put)

lemma holds_property: "holds R ps \<Longrightarrow> R k JUndef \<Longrightarrow> R k (property ps k)"
  by (cases "property ps k = JUndef") (use property_mem [OF refl, of ps k] in \<open>auto simp: holds_def\<close>)

lemma holds_mono: "holds R ps \<Longrightarrow> (\<And>k v. R k v \<Longrightarrow> S k v) \<Longrightarrow> holds S ps"
  by (auto simp: holds_def)

lemma plain_value_object [simp]: "plain_value k (JObj ps)" "plain_value k JUndef" "plain_value k JNull"
  using brace_free_balanced by (auto simp: plain_value_def lit_def ch_def)

text \<open>Every object is fine, so merging objects without arrays keeps what holds of all values.\<close>

lemma assign_props_holds:
  assumes "\<And>k qs. R k (JObj qs)"
  shows "assign_props depth False ps qs = Inr ps' \<Longrightarrow> holds R ps \<Longrightarrow> holds (\<lambda>k v. R k v \<and> flat v) qs \<Longrightarrow> holds R ps'"
proof (induction qs arbitrary: ps)
  case (Cons q qs)
  obtain s ts where q: "q = (s, ts)" by (cases q)
  obtain ps1 where step: "assign_prop depth False ps s ts = Inr ps1" and rest: "assign_props depth False ps1 qs = Inr ps'"
    using Cons.prems(1) unfolding q assign_props_Cons by (rule rbind_InrE) (rule that)
  have ts: "R s ts" "flat ts" using Cons.prems(3) q by auto
  from step have "holds R ps1"
  proof (cases rule: assign_prop_cases)
    case (merged v)
    then obtain us where us: "ts = JObj us" using ts(2) by (cases ts) auto
    have "R s v"
    proof (cases "property ps s = JUndef \<or> plain_object (property ps s)")
      case True
      then have "plain_object (if property ps s = JUndef then empty_like ts else property ps s)"
        by (auto simp: us empty_like_def)
      then have "plain_object v" using assign_object(1) [OF merged(3)] us by (simp add: typeof_object_def)
      then show ?thesis using assms by (cases v) auto
    next
      case False
      then have "v = property ps s \<or> v = JObj us"
        using assign_no_JObj [of "depth - 1" False "property ps s" us v] merged(3)
        by (simp add: us plain_object_iff del: assign.simps)
      moreover have "(s, property ps s) \<in> set ps" using False property_mem [OF refl] by blast
      ultimately show ?thesis using assms Cons.prems(2) by (auto simp: holds_def)
    qed
    then show ?thesis using Cons.prems(2) merged(4) by (simp add: holds_put)
  qed (use Cons.prems(2) ts in \<open>auto simp: holds_put\<close>)
  then show ?case using Cons.IH [OF rest] Cons.prems(3) q by simp
qed simp

lemma assign_holds:
  assumes "\<And>k qs. R k (JObj qs)" and "assign depth False (JObj ps) (JObj qs) = Inr e"
    and "holds R ps" and "holds (\<lambda>k v. R k v \<and> flat v) qs"
  shows "\<exists>ps'. e = JObj ps' \<and> holds R ps'"
proof (cases "depth = 0")
  case True
  then show ?thesis using assms(2) holds_put_all [OF assms(3) holds_mono [OF assms(4), of R]]
    unfolding assign_JObj by auto
next
  case False
  then show ?thesis using assms(2) assign_props_holds [where R = R, OF assms(1) _ assms(3,4)]
    unfolding assign_JObj by auto
qed

abbreviation plain_flat :: "ustr \<Rightarrow> js \<Rightarrow> bool" where
  "plain_flat k v \<equiv> plain_value k v \<and> flat v"

text \<open>What becomes of one property when objects without repeated keys are merged.\<close>

lemma assign_prop_other: "assign_prop depth clobber ps s ts = Inr ps1 \<Longrightarrow> k \<noteq> s \<Longrightarrow> property ps1 k = property ps k"
  by (erule assign_prop_cases) simp_all

lemma assign_props_at:
  "assign_props depth clobber ps qs = Inr ps' \<Longrightarrow> distinct (map fst qs) \<Longrightarrow>
   (k \<notin> fst ` set qs \<longrightarrow> property ps' k = property ps k) \<and>
   (\<forall>v. (k, v) \<in> set qs \<longrightarrow> (\<exists>ps0 ps1. property ps0 k = property ps k \<and> assign_prop depth clobber ps0 k v = Inr ps1 \<and>
      property ps' k = property ps1 k))"
proof (induction qs arbitrary: ps)
  case (Cons q qs)
  obtain s ts where q: "q = (s, ts)" by (cases q)
  obtain ps1 where step: "assign_prop depth clobber ps s ts = Inr ps1" and rest: "assign_props depth clobber ps1 qs = Inr ps'"
    using Cons.prems(1) unfolding q assign_props_Cons by (rule rbind_InrE) (rule that)
  note IH = Cons.IH [OF rest]
  show ?case
  proof (cases "k = s")
    case True
    then have "k \<notin> fst ` set qs" using Cons.prems(2) q by auto
    then show ?thesis using IH step True Cons.prems(2) q by force
  next
    case False
    then show ?thesis using IH assign_prop_other [OF step False] Cons.prems(2) q by auto
  qed
qed simp

lemma merge_at:
  assumes "merge (JObj ps) (JObj qs) = Inr (JObj ps')" and "distinct (map fst qs)"
  shows "property ps' k = property ps k \<or>
     (\<not> typeof_object (property ps k) \<and> \<not> typeof_object (property qs k) \<and> property ps' k = property qs k) \<or>
     (is_object (property qs k) \<and> (property ps k = JUndef \<or> typeof_object (property ps k)) \<and>
      assign 1 False (if property ps k = JUndef then empty_like (property qs k) else property ps k) (property qs k) =
        Inr (property ps' k))"
proof (cases "k \<in> fst ` set qs")
  case True
  then have mem: "(k, property qs k) \<in> set qs" using assms(2) by (auto simp: property_def)
  have "assign_props 2 False ps qs = Inr ps'" using assms(1) unfolding merge_def assign_JObj by auto
  from assign_props_at [OF this assms(2), of k] mem obtain ps0 ps1 where
    step: "assign_prop 2 False ps0 k (property qs k) = Inr ps1" "property ps0 k = property ps k" "property ps' k = property ps1 k"
    by blast
  from step(1) show ?thesis
    by (cases rule: assign_prop_cases) (auto simp: step(2,3) numeral_2_eq_2 simp del: assign.simps)
next
  case False
  have "assign_props 2 False ps qs = Inr ps'" using assms(1) unfolding merge_def assign_JObj by auto
  from assign_props_at [OF this assms(2), of k] False show ?thesis by blast
qed

text \<open>The theme variables of a directive after cleaning and merging, and those of the site with them merged in.\<close>

lemma directive_variables:
  assumes "merge (JObj []) (JObj ds) = Inr (JObj os)" and "distinct (map fst ds)"
    and "\<not> is_object (property ds k) \<or> (\<exists>qs. property ds k = JObj qs \<and> holds plain_flat qs)"
  shows "\<not> is_object (property os k) \<or> (\<exists>qs. property os k = JObj qs \<and> holds plain_flat qs)"
proof -
  have none: "property [] k = JUndef" by (simp add: property_def)
  consider "property os k = JUndef" | "\<not> typeof_object (property ds k)" "property os k = property ds k"
    | "is_object (property ds k)" "assign 1 False (empty_like (property ds k)) (property ds k) = Inr (property os k)"
    using merge_at [OF assms(1,2), of k] none by auto
  then show ?thesis
  proof cases
    case 3
    then obtain qs where qs: "property ds k = JObj qs" "holds plain_flat qs" using assms(3) by auto
    then show ?thesis
      using assign_holds [where R = plain_flat and depth = 1 and ps = "[]" and qs = qs] 3(2)
      by (auto simp: empty_like_def simp del: assign.simps)
  qed (auto simp: typeof_object_def)
qed

lemma site_variables:
  assumes "merge (JObj bs) (JObj os) = Inr (JObj rs)" and "distinct (map fst os)"
    and "property bs k = JObj ps" and "holds plain_value ps"
    and "\<not> is_object (property os k) \<or> (\<exists>qs. property os k = JObj qs \<and> holds plain_flat qs)"
  shows "\<exists>ws. property rs k = JObj ws \<and> holds plain_value ws"
proof -
  consider "property rs k = JObj ps"
    | "is_object (property os k)" "assign 1 False (JObj ps) (property os k) = Inr (property rs k)"
    using merge_at [OF assms(1,2), of k] assms(3) by (auto simp: typeof_object_def)
  then show ?thesis
  proof cases
    case 2
    then obtain qs where qs: "property os k = JObj qs" "holds plain_flat qs" using assms(5) by auto
    then show ?thesis using assign_holds [where R = plain_value and depth = 1, OF _ _ assms(4)] 2(2) by auto
  qed (use assms(4) in blast)
qed

text \<open>A theme whose own and derived values have no braces.\<close>

definition plain_theme_class :: "theme_class \<Rightarrow> bool" where
  "plain_theme_class T \<longleftrightarrow> holds plain_value (tc_initial T) \<and>
     (\<forall>ps ps'. holds plain_value ps \<and> tc_update T ps = Inr ps' \<longrightarrow> holds plain_value ps')"

lemma calculate_plain:
  assumes "plain_theme_class T" and "calculate T (JObj qs) = Inr v" and "holds plain_value qs"
  shows "\<exists>ws. v = JObj ws \<and> holds plain_value ws"
proof -
  obtain us where us: "tc_update T (put_all (tc_initial T) qs) = Inr us" "v = JObj (put_all us qs)"
    using assms(2) by (auto simp: calculate_def typeof_object_def Let_def split: if_splits)
  have "holds plain_value (put_all (tc_initial T) qs)"
    using assms(1,3) by (simp add: plain_theme_class_def holds_put_all)
  then have "holds plain_value us" using assms(1) us(1) unfolding plain_theme_class_def by blast
  then show ?thesis using us(2) holds_put_all assms(3) by blast
qed

definition page_variables_ok :: "js \<Rightarrow> bool" where
  "page_variables_ok n \<longleftrightarrow>
     \<not> truthy (member n theme_variables) \<or> (\<exists>ps. member n theme_variables = JObj ps \<and> holds plain_value ps)"

lemma apply_theme_plain:
  assumes "apply_theme C init (JObj rs) (JObj os) = Inr r" and "clone init = Inr n" and "page_variables_ok n"
    and "\<forall>k\<in>set theme_names. plain_theme_class (C k)"
    and "\<exists>ws. property rs theme_variables = JObj ws \<and> holds plain_value ws"
    and tv: "\<not> is_object (property os theme_variables) \<or>
      (\<exists>qs. property os theme_variables = JObj qs \<and> holds plain_flat qs)"
  shows "\<exists>ws. member r theme_variables = JObj ws \<and> holds plain_value ws"
proof (cases "r = JObj rs")
  case False
  obtain ps where ps: "js_or (member n theme_variables) (JObj []) = JObj ps" "holds plain_value ps"
    using assms(3) by (auto simp: page_variables_ok_def js_or_def)
  obtain s v k where s: "merge (JObj ps) (property os theme_variables) = Inr s" and v: "get_theme_variables C k s = Inr v"
    and r: "r = set_member (JObj rs) theme_variables v"
    using False assms(1,2) ps(1) by (auto simp: apply_theme_def Let_def split: if_splits)
  have "\<exists>ss. s = JObj ss \<and> holds plain_value ss"
  proof (cases "is_object (property os theme_variables)")
    case True
    then obtain qs where "property os theme_variables = JObj qs" "holds plain_flat qs" using tv by auto
    then show ?thesis using assign_holds [where R = plain_value and depth = 2, OF _ _ ps(2)] s by (auto simp: merge_def)
  next
    case False
    then have "s = JObj ps" using assign_primitive_object [of 2 False "JObj ps"] s by (simp add: merge_def)
    then show ?thesis using ps(2) by blast
  qed
  then obtain ws where "v = JObj ws" "holds plain_value ws"
    using calculate_plain v assms(4) by (fastforce simp: get_theme_variables_def split: if_splits)
  then show ?thesis by (simp add: r)
qed (use assms(5) in simp)

text \<open>Removing site-only options leaves the variables of a directive harmless.\<close>

lemma deny_plain_flat:
  "holds plain_flat qs \<Longrightarrow> \<exists>qs'. deny_secure secure (JObj qs) = JObj qs' \<and> holds plain_flat qs'"
proof -
  have "plain_flat k (deny_secure secure v)" if "plain_flat k v" for k v using that by (cases v) auto
  then show "holds plain_flat qs \<Longrightarrow> ?thesis" by (fastforce simp: holds_def)
qed

lemma deny_variables:
  assumes "deny_directive site (JObj ds0) = Inr (JObj ds)" and "distinct (map fst ds0)"
    and "\<not> is_object (property ds0 k) \<or> (\<exists>qs. property ds0 k = JObj qs \<and> holds plain_flat qs)"
  shows "distinct (map fst ds) \<and> (\<not> is_object (property ds k) \<or> (\<exists>qs. property ds k = JObj qs \<and> holds plain_flat qs))"
proof -
  obtain secure where ds: "ds = map (\<lambda>(t, v). (t, deny_secure secure v))
      (filter (\<lambda>(t, v). \<not> denied_key secure t \<and> \<not> has_markup v) ds0)"
    using assms(1) by (auto simp: deny_directive_def)
  have "map fst ds = map fst (filter (\<lambda>(t, v). \<not> denied_key secure t \<and> \<not> has_markup v) ds0)"
    by (simp add: ds comp_def case_prod_beta)
  then have "distinct (map fst ds)" using assms(2) by (simp add: distinct_map_filter)
  moreover have "property ds k = JUndef \<or> property ds k = deny_secure secure (property ds0 k)"
  proof (cases "property ds k = JUndef")
    case False
    then have "(k, property ds k) \<in> set ds" by (intro property_mem [OF refl])
    then obtain v0 where v0: "(k, v0) \<in> set ds0" "property ds k = deny_secure secure v0" by (auto simp: ds)
    then have "property ds0 k = v0" using assms(2) by (simp add: property_def)
    then show ?thesis using v0(2) by simp
  qed simp
  moreover have "\<not> is_object (deny_secure secure v)" if "\<not> is_object v" for v using that by (cases v) auto
  ultimately consider "property ds k = JUndef" | "\<not> is_object (property ds k)"
    | qs where "property ds0 k = JObj qs" "holds plain_flat qs" "property ds k = deny_secure secure (property ds0 k)"
    using assms(3) by auto
  then show ?thesis
  proof cases
    case 3
    then show ?thesis using deny_plain_flat [OF 3(2), of secure] \<open>distinct (map fst ds)\<close> by auto
  qed (use \<open>distinct (map fst ds)\<close> in auto)
qed

text \<open>The theme variables in force after a diagram's directive.\<close>

lemma diagram_variables_plain:
  assumes "process_and_set_configs C known config s = Inr s'"
    and "add_directive known [] (js_coalesce config (JObj [])) = Inr [JObj ds]" and "distinct (map fst ds)"
    and variables: "\<not> is_object (property ds theme_variables) \<or>
      (\<exists>qs. property ds theme_variables = JObj qs \<and> (\<forall>(k, v)\<in>set qs. flat v))"
    and "get_site_config s = Inr base" and "member base theme_variables = JObj ps" and "holds plain_value ps"
    and "clone (initialize_config s) = Inr n" and "page_variables_ok n"
    and "\<forall>k\<in>set theme_names. plain_theme_class (C k)"
  shows "\<exists>ws. member (current_config s') theme_variables = JObj ws \<and> holds plain_value ws"
proof -
  obtain bs where base: "base = JObj bs" using clone_object assms(5) by (auto simp: get_site_config_def plain_object_iff)
  obtain ts r where run: "recompute C (initialize_config s) (site_config s) (site_config s) [JObj ds] = Inr (ts, r)"
    and s': "current_config s' = r"
    using assms(1,2) by (auto simp: process_recompute)
  obtain i r1 where i: "merge_directives (site_config s) (JObj []) [JObj ds] = Inr (ts, i)" and r1: "merge base i = Inr r1"
    and r: "apply_theme C (initialize_config s) r1 i = Inr r"
    using run assms(5) by (auto simp: recompute_def get_site_config_def)
  obtain ds1 where deny: "deny_directive (site_config s) (JObj ds) = Inr (JObj ds1)" and "merge (JObj []) (JObj ds1) = Inr i"
    using i by (auto simp: deny_directive_def)
  moreover from this obtain os where os: "i = JObj os" using merge_object by (fastforce simp: plain_object_iff)
  ultimately have merged: "merge (JObj []) (JObj ds1) = Inr (JObj os)" by simp
  have "\<not> is_object (property ds theme_variables) \<or> (\<exists>qs. property ds theme_variables = JObj qs \<and> holds plain_flat qs)"
    using variables directive_variable_safe [of known "[]" "js_coalesce config (JObj [])" ds] assms(2)
    by (fastforce simp: holds_def plain_value_def)
  note denied = deny_variables [OF deny assms(3) this]
  note tv = directive_variables [OF merged conjunct1 [OF denied] conjunct2 [OF denied]]
  have "distinct (map fst os)"
    using merged assign_props_distinct unfolding merge_def assign_JObj by fastforce
  obtain rs where rs: "r1 = JObj rs" using merge_object [OF r1] base by (auto simp: plain_object_iff)
  have "\<exists>ws. property rs theme_variables = JObj ws \<and> holds plain_value ws"
    using site_variables [OF r1[unfolded base os rs] \<open>distinct (map fst os)\<close> _ assms(7) tv] assms(6) base by simp
  from apply_theme_plain [OF r[unfolded rs os] assms(8,9,10) this tv] show ?thesis by (simp add: s')
qed

lemma style_options_plain:
  assumes "member e theme_variables = JObj ws" and "holds plain_value ws"
    and "brace_free (to_string (member e theme_key))" and "brace_free (to_string (member e look_key))"
  shows "plain_theme (style_options e)"
proof -
  let ?qs = "put_property (put_property ws theme_key (member e theme_key)) look_key (member e look_key)"
  have "holds plain_value ?qs"
    using assms(2-4) by (intro holds_put) (simp_all add: plain_value_def brace_free_balanced)
  then have "plain_value k (property ?qs k)" for k by (rule holds_property) simp
  moreover have "lit k = font_family \<longleftrightarrow> k = ''fontFamily''" for k by (simp add: font_family_def lit_eq)
  ultimately show ?thesis
    by (auto simp: plain_theme_def style_options_def theme_of_def assms(1) plain_value_def)
qed

text \<open>A look that closes a block which was never opened: the colour rules of the entity sheet print it first.\<close>

lemma balanced_prefix: "depth_after 0 p = None \<Longrightarrow> \<not> balanced (p @ q)"
  by (simp add: balanced_def depth_after_append)

lemma render_two: "render (ps # qs # lines) = concat (map piece_str ps) @ 10 # render (qs # lines)"
  by (simp add: render_def)

lemma er_look_unbalanced:
  assumes "in_set [''redux-color'', ''redux-dark-color''] (e ''theme'')" and "e ''look'' = JStr (125 # x)"
    and "loop_bound (e ''THEME_COLOR_LIMIT'') = Some (Suc n)" and "e ''borderColorArray'' = JArr bs"
  shows "\<exists>T. er_styles fade e = Some T \<and> \<not> balanced (render T)"
proof -
  let ?rule = "\<lambda>l. er_rule (e ''look'') (has_elements (e ''bkgColorArray''))
      (case elements (e ''bkgColorArray'') of None \<Rightarrow> [] | Some bkgs \<Rightarrow> bkgs) bs l"
  have "er_styles fade e \<noteq> None" using assms by (simp add: er_sheet_missing_exact nullish_def)
  then obtain c where c: "er_colors e = Some c" "er_styles fade e = Some (er_sheet fade e (JStr c))"
    by (auto simp: er_styles_def with_text_def)
  then have "rules (\<lambda>l. Some (?rule l)) (0 # [1..<Suc n]) = Some c"
    using assms by (simp add: er_colors_def color_rules_def upt_conv_Cons del: upt_Suc rules.simps)
  then obtain q where q: "c = render (?rule 0) @ q" by (auto simp del: upt_Suc split: option.splits)
  obtain r where "render (?rule 0) = [10, 10] @ lit ''    [data-look=\"'' @ [125] @ r"
    by (simp add: er_rule_def render_two assms(2))
  then obtain q' where "render (er_sheet fade e (JStr c)) = ([10] @ lit ''    '' @ [10, 10] @ lit ''    [data-look=\"'' @ [125]) @ q'"
    by (simp add: er_sheet_def render_two q)
  moreover have "depth_after 0 ([10] @ lit ''    '' @ [10, 10] @ lit ''    [data-look=\"'' @ [125]) = None" by code_simp
  ultimately have "\<not> balanced (render (er_sheet fade e (JStr c)))" using balanced_prefix by metis
  then show ?thesis using c(2) by blast
qed

lemma style_options_at:
  "style_options e ''theme'' = member e theme_key" "style_options e ''look'' = member e look_key"
  "k \<notin> {''theme'', ''look''} \<Longrightarrow> style_options e k = property (spread (member e theme_variables)) (lit k)"
  by (auto simp: style_options_def theme_of_def property_put_property theme_key_def look_key_def lit_eq)

section \<open>Properties\<close>


text \<open>The look is not checked at all: with a theme that has colours of its own, the sheet of an entity diagram
  whose directive sets a look beginning with a closing brace is unbalanced.\<close>

lemma look_unbalances_sheet:
  assumes "process_and_set_configs C known config s = Inr s'" and "get_site_config s = Inr base"
    and "directives s' = [JObj ds]" and "scalar_at look_key ds" and "\<not> typeof_object (member base look_key)"
    and "map_of (rev ds) look_key = Some (JStr (125 # x))"
    and "member (current_config s') theme_key = JStr (lit ''redux-color'')"
    and "member (current_config s') theme_variables = JObj ws"
    and "loop_bound (property ws (lit ''THEME_COLOR_LIMIT'')) = Some (Suc n)"
    and "property ws (lit ''borderColorArray'') = JArr bs"
  shows "\<exists>T. er_styles fade (style_options (current_config s')) = Some T \<and> \<not> balanced (render T)"
proof (rule er_look_unbalanced)
  have "look_key \<noteq> theme_variables" by (simp add: look_key_def theme_variables_def lit_eq)
  from option_precedence [OF assms(1-5) this]
  show "style_options (current_config s') ''look'' = JStr (125 # x)" by (simp add: style_options_at assms(6))
qed (simp_all add: style_options_at assms(7-10) in_set_def)


section \<open>Witnesses\<close>

text \<open>The page of the witnesses has a theme with two colours of its own.\<close>

definition demo_color_themes :: theme_classes where
  "demo_color_themes = (\<lambda>_. \<lparr>tc_initial = [(lit ''THEME_COLOR_LIMIT'', JNum 2),
     (lit ''borderColorArray'', JArr [JStr (lit ''red'')])], tc_update = Inr\<rparr>)"

definition demo_site_config :: js where
  "demo_site_config = JObj
     [(theme_key, JStr (lit ''default'')), (lit ''secure'', JArr [JStr (lit ''securityLevel'')]),
      (theme_variables, JObj [(lit ''background'', JStr (lit ''white''))])]"

definition demo_page :: config_state where
  "demo_page = \<lparr>default_config = demo_site_config, site_config = demo_site_config, directives = [],
     current_config = demo_site_config, initialize_config = JUndef\<rparr>"

definition demo_look :: js where
  "demo_look = JObj [(theme_key, JStr (lit ''redux-color'')), (look_key, JStr (lit ''} a {''))]"

definition demo_variables :: js where
  "demo_variables = JObj [(theme_key, JStr (lit ''dark'')),
     (theme_variables, JObj [(lit ''pieStrokeColor'', JStr (lit ''green''))])]"

lemma demo_page_site: "get_site_config demo_page = Inr demo_site_config" "clone (initialize_config demo_page) = Inr (JObj [])"
  by code_simp+

lemma demo_color_themes_plain: "\<forall>k\<in>set theme_names. plain_theme_class (demo_color_themes k)"
proof -
  have "brace_free (to_string (JNum 2))" by (rule flat_brace_free) simp_all
  then have "holds plain_value (tc_initial (demo_color_themes k))" for k
    by (simp add: demo_color_themes_def plain_value_def brace_free_lit brace_free_balanced del: to_string.simps(4))
  then show ?thesis by (simp add: plain_theme_class_def demo_color_themes_def)
qed


end
