(* ===== verification/Git_Graph.thy ===== *)
theory Git_Graph
  imports Js_Values Insomni_Prelude "HOL-Library.AList"
begin

text \<open>
  The git graphs of \<open>docs/mermaid.tiny.js\<close>: the records behind a diagram and the statements that change
  them. The \<open>Map\<close>s of the code are association lists in insertion order, for which \<open>AList.update\<close> is \<open>set\<close>.
  A text that is missing is the empty one, which the code treats alike. Clean-up of markup (\<open>dp\<close>) and the
  random part of a generated id (\<open>nonce\<close>) are parameters.
\<close>

section \<open>Records\<close>

text \<open>\<open>Ar\<close>\<close>

datatype commit_type = NORMAL | REVERSE | HIGHLIGHT | MERGE | CHERRY_PICK

record git_commit =
  c_id :: ustr
  c_message :: ustr
  c_seq :: nat
  c_type :: commit_type
  c_custom_type :: "commit_type option"
  c_custom_id :: bool
  c_tags :: "ustr list"
  c_parents :: "ustr list"
  c_branch :: ustr

text \<open>
  The part of \<open>records\<close> that the statements use. A branch without commits is \<open>None\<close>, which is \<open>null\<close>.
\<close>

record git_state =
  gs_commits :: "(ustr \<times> git_commit) list"
  gs_head :: "git_commit option"
  gs_config :: "(ustr \<times> int) list"
  gs_branches :: "(ustr \<times> ustr option) list"
  gs_curr :: ustr
  gs_seq :: nat

definition init_graph :: "ustr \<Rightarrow> int \<Rightarrow> git_state" where
  "init_graph main order =
     \<lparr>gs_commits = [], gs_head = None, gs_config = [(main, order)], gs_branches = [(main, None)],
      gs_curr = main, gs_seq = 0\<rparr>"

datatype git_error =
    BranchExists ustr
  | MergeIntoItself ustr
  | MergeSameBranch ustr
  | CurrentHasNoCommits ustr
  | NoSuchBranch ustr
  | BranchHasNoCommits ustr
  | SameHead
  | IdExists ustr
  | NoSourceCommit
  | NotAParent
  | ParentRequired
  | AlreadyOnBranch
  | NotCreated ustr


section \<open>Operations\<close>

text \<open>\<open>sanitizeText\<close>: an empty text is returned as it is.\<close>

definition sanitize_text :: "(ustr \<Rightarrow> ustr) \<Rightarrow> ustr \<Rightarrow> ustr" where
  "sanitize_text dp e = (if e = [] then [] else dp e)"

text \<open>An id of its own, or else a generated one.\<close>

definition effective_id :: "ustr \<Rightarrow> ustr \<Rightarrow> git_state \<Rightarrow> ustr" where
  "effective_id r nonce s = (if r \<noteq> [] then r else show_nat (gs_seq s) @ lit ''-'' @ nonce)"

text \<open>The last lines of \<open>commit\<close>, \<open>merge\<close> and \<open>cherryPick\<close>: the new commit becomes the head.\<close>

definition push_commit :: "git_commit \<Rightarrow> git_state \<Rightarrow> git_state" where
  "push_commit c s =
     s\<lparr>gs_seq := Suc (gs_seq s), gs_head := Some c, gs_commits := AList.update (c_id c) c (gs_commits s),
       gs_branches := AList.update (gs_curr s) (Some (c_id c)) (gs_branches s)\<rparr>"

definition git_commit_op :: "(ustr \<Rightarrow> ustr) \<Rightarrow> ustr \<Rightarrow> ustr \<Rightarrow> ustr \<Rightarrow> commit_type \<Rightarrow> ustr list option \<Rightarrow>
    git_state \<Rightarrow> git_error + git_state" where
  "git_commit_op dp nonce cid msg type tags s =
     (let r = sanitize_text dp cid; t = sanitize_text dp msg; n = map_option (map (sanitize_text dp)) tags in
      Inr (push_commit
        \<lparr>c_id = effective_id r nonce s, c_message = t, c_seq = gs_seq s, c_type = type, c_custom_type = None,
         c_custom_id = False, c_tags = (case n of None \<Rightarrow> [] | Some ts \<Rightarrow> ts),
         c_parents = (case gs_head s of None \<Rightarrow> [] | Some h \<Rightarrow> [c_id h]), c_branch = gs_curr s\<rparr> s))"

text \<open>\<open>x ? commits.get(x) : undefined\<close> for what a branch points to.\<close>

definition commit_at :: "git_state \<Rightarrow> ustr option \<Rightarrow> git_commit option" where
  "commit_at s x = (case x of None \<Rightarrow> None | Some i \<Rightarrow> if i = [] then None else map_of (gs_commits s) i)"

definition branch_tip :: "git_state \<Rightarrow> ustr \<Rightarrow> ustr option" where
  "branch_tip s b = Option.bind (map_of (gs_branches s) b) (\<lambda>x. x)"

definition git_checkout_op :: "(ustr \<Rightarrow> ustr) \<Rightarrow> ustr \<Rightarrow> git_state \<Rightarrow> git_error + git_state" where
  "git_checkout_op dp name s =
     (let e = sanitize_text dp name in
      case map_of (gs_branches s) e of
        None \<Rightarrow> Inl (NotCreated e)
      | Some t \<Rightarrow> Inr (s\<lparr>gs_curr := e, gs_head := commit_at s t\<rparr>))"

definition git_branch_op :: "(ustr \<Rightarrow> ustr) \<Rightarrow> ustr \<Rightarrow> int \<Rightarrow> git_state \<Rightarrow> git_error + git_state" where
  "git_branch_op dp name order s =
     (let t = sanitize_text dp name in
      if t \<in> fst ` set (gs_branches s) then Inl (BranchExists t)
      else git_checkout_op dp t
        (s\<lparr>gs_branches := AList.update t (map_option c_id (gs_head s)) (gs_branches s),
           gs_config := AList.update t order (gs_config s)\<rparr>))"

text \<open>
  \<open>merge\<close>. Every commit object is the value of one key, so two of them are the same object when their keys
  are.
\<close>

definition git_merge_op :: "(ustr \<Rightarrow> ustr) \<Rightarrow> ustr \<Rightarrow> ustr \<Rightarrow> ustr \<Rightarrow> commit_type option \<Rightarrow> ustr list option \<Rightarrow>
    git_state \<Rightarrow> git_error + git_state" where
  "git_merge_op dp nonce branch cid type tags s =
     (let t = sanitize_text dp branch; r = sanitize_text dp cid;
          o' = branch_tip s (gs_curr s); l = branch_tip s t; u = commit_at s o'; h = commit_at s l
      in if u \<noteq> None \<and> h \<noteq> None \<and> map_option c_branch u = Some t then Inl (MergeIntoItself t)
      else if gs_curr s = t then Inl (MergeSameBranch t)
      else if u = None then Inl (CurrentHasNoCommits (gs_curr s))
      else if t \<notin> fst ` set (gs_branches s) then Inl (NoSuchBranch t)
      else if h = None then Inl (BranchHasNoCommits t)
      else if o' = l then Inl SameHead
      else if r \<noteq> [] \<and> r \<in> fst ` set (gs_commits s) then Inl (IdExists r)
      else let d = (case l of None \<Rightarrow> [] | Some i \<Rightarrow> i) in
        Inr (push_commit
          \<lparr>c_id = effective_id r nonce s, c_message = lit ''merged branch '' @ t @ lit '' into '' @ gs_curr s,
           c_seq = gs_seq s, c_type = MERGE, c_custom_type = type, c_custom_id = (r \<noteq> []),
           c_tags = (case tags of None \<Rightarrow> [] | Some ts \<Rightarrow> ts),
           c_parents = (case gs_head s of None \<Rightarrow> [] | Some g \<Rightarrow> [c_id g, d]), c_branch = gs_curr s\<rparr> s))"

definition git_cherry_pick_op :: "(ustr \<Rightarrow> ustr) \<Rightarrow> ustr \<Rightarrow> ustr \<Rightarrow> ustr \<Rightarrow> ustr list option \<Rightarrow> ustr \<Rightarrow>
    git_state \<Rightarrow> git_error + git_state" where
  "git_cherry_pick_op dp nonce cid target tags parent s =
     (let t = sanitize_text dp cid; r = sanitize_text dp target;
          i = map_option (map (sanitize_text dp)) tags; n = sanitize_text dp parent
      in case (if t = [] then None else map_of (gs_commits s) t) of
        None \<Rightarrow> Inl NoSourceCommit
      | Some src \<Rightarrow>
          if n \<noteq> [] \<and> n \<notin> set (c_parents src) then Inl NotAParent
          else if c_type src = MERGE \<and> n = [] then Inl ParentRequired
          else if r = [] \<or> r \<notin> fst ` set (gs_commits s) then
            if c_branch src = gs_curr s then Inl AlreadyOnBranch
            else if commit_at s (branch_tip s (gs_curr s)) = None then Inl (CurrentHasNoCommits (gs_curr s))
            else Inr (push_commit
              \<lparr>c_id = effective_id [] nonce s,
               c_message = lit ''cherry-picked '' @ c_message src @ lit '' into '' @ gs_curr s,
               c_seq = gs_seq s, c_type = CHERRY_PICK, c_custom_type = None, c_custom_id = False,
               c_tags = (case i of Some ts \<Rightarrow> filter (\<lambda>x. x \<noteq> []) ts
                 | None \<Rightarrow> [lit ''cherry-pick:'' @ c_id src @
                     (if c_type src = MERGE then lit ''|parent:'' @ n else [])]),
               c_parents = (case gs_head s of None \<Rightarrow> [] | Some g \<Rightarrow> [c_id g, c_id src]),
               c_branch = gs_curr s\<rparr> s)
          else Inr s)"

text \<open>\<open>getCommitsArray\<close>; \<open>getBranchesAsObjArray\<close>, where every branch has an order.\<close>

definition commits_in_order :: "git_state \<Rightarrow> git_commit list" where
  "commits_in_order s = sort_key c_seq (map snd (gs_commits s))"

definition branches_in_order :: "git_state \<Rightarrow> ustr list" where
  "branches_in_order s = map fst (sort_key snd (gs_config s))"


section \<open>Statements\<close>

text \<open>The statements of a parsed diagram, what is left out being \<open>None\<close>.\<close>

datatype git_statement =
    Commit "ustr option" "ustr option" "commit_type option" "ustr list option"
  | Branch ustr "int option"
  | Merge ustr "ustr option" "commit_type option" "ustr list option"
  | Checkout ustr
  | CherryPicking "ustr option" "ustr list option" "ustr option"

definition text_or_empty :: "ustr option \<Rightarrow> ustr" where
  "text_or_empty x = (case x of None \<Rightarrow> [] | Some s \<Rightarrow> s)"

text \<open>\<open>parseStatement\<close> with \<open>parseCommit\<close>, \<open>parseBranch\<close>, \<open>parseMerge\<close>, \<open>parseCheckout\<close> and \<open>parseCherryPicking\<close>.\<close>

fun run_statement :: "(ustr \<Rightarrow> ustr) \<Rightarrow> ustr \<Rightarrow> git_statement \<Rightarrow> git_state \<Rightarrow> git_error + git_state" where
  "run_statement dp nonce (Commit i m ty tags) s =
     git_commit_op dp nonce (text_or_empty i) (text_or_empty m) (case ty of None \<Rightarrow> NORMAL | Some t \<Rightarrow> t) tags s"
| "run_statement dp nonce (Branch name order) s =
     git_branch_op dp name (case order of None \<Rightarrow> 0 | Some n \<Rightarrow> n) s"
| "run_statement dp nonce (Merge b i ty tags) s = git_merge_op dp nonce b (text_or_empty i) ty tags s"
| "run_statement dp nonce (Checkout b) s = git_checkout_op dp b s"
| "run_statement dp nonce (CherryPicking i tags p) s =
     git_cherry_pick_op dp nonce (text_or_empty i) [] (case tags of Some [] \<Rightarrow> None | _ \<Rightarrow> tags) (text_or_empty p) s"

text \<open>\<open>populate\<close>: the statements in order, each with the random part of its id; the first error is thrown.\<close>

fun run_graph :: "(ustr \<Rightarrow> ustr) \<Rightarrow> (git_statement \<times> ustr) list \<Rightarrow> git_state \<Rightarrow> git_error + git_state" where
  "run_graph dp [] s = Inr s"
| "run_graph dp ((st, nonce) # sts) s = rbind (run_statement dp nonce st s) (run_graph dp sts)"


section \<open>History\<close>

text \<open>
  The invariant of the records as long as no id is used twice: every commit is stored under its id, its
  parents are stored and older, branches point to commits, and the head is the tip of the current branch.
\<close>

definition older_parents :: "git_state \<Rightarrow> git_commit \<Rightarrow> bool" where
  "older_parents s c \<longleftrightarrow>
     (\<forall>p\<in>set (c_parents c). \<exists>c'. map_of (gs_commits s) p = Some c' \<and> c_seq c' < c_seq c)"

definition git_inv :: "git_state \<Rightarrow> bool" where
  "git_inv s \<longleftrightarrow>
     (\<forall>k c. map_of (gs_commits s) k = Some c \<longrightarrow> k \<noteq> [] \<and> c_id c = k \<and> c_seq c < gs_seq s \<and> older_parents s c) \<and>
     (\<forall>b i. map_of (gs_branches s) b = Some (Some i) \<longrightarrow> map_of (gs_commits s) i \<noteq> None) \<and>
     map_of (gs_branches s) (gs_curr s) \<noteq> None \<and>
     gs_head s = commit_at s (branch_tip s (gs_curr s))"

lemma git_inv_init: "git_inv (init_graph main order)"
  by (simp add: git_inv_def init_graph_def commit_at_def branch_tip_def)

lemma git_invD:
  assumes "git_inv s"
  shows "map_of (gs_commits s) k = Some c \<Longrightarrow> k \<noteq> [] \<and> c_id c = k \<and> c_seq c < gs_seq s \<and> older_parents s c"
    and "map_of (gs_branches s) b = Some (Some i) \<Longrightarrow> \<exists>c. map_of (gs_commits s) i = Some c"
    and "map_of (gs_branches s) (gs_curr s) \<noteq> None"
    and "gs_head s = commit_at s (branch_tip s (gs_curr s))"
  using assms by (auto simp: git_inv_def)

lemma head_stored:
  assumes "git_inv s" and "gs_head s = Some h"
  shows "map_of (gs_commits s) (c_id h) = Some h \<and> c_seq h < gs_seq s"
proof -
  obtain i where "map_of (gs_commits s) i = Some h"
    using assms by (auto simp: git_inv_def commit_at_def split: option.splits if_splits)
  then show ?thesis using git_invD(1) [OF assms(1)] by auto
qed

lemma push_commit_inv:
  assumes inv: "git_inv s" and nonempty: "c_id c \<noteq> []" and unused: "c_id c \<notin> fst ` set (gs_commits s)"
    and seq: "c_seq c = gs_seq s"
    and parents: "\<And>p. p \<in> set (c_parents c) \<Longrightarrow> map_of (gs_commits s) p \<noteq> None"
  shows "git_inv (push_commit c s)"
proof -
  let ?s = "push_commit c s"
  have fresh: "c_id c \<noteq> []" "map_of (gs_commits s) (c_id c) = None"
    using nonempty unused by (simp_all add: map_of_eq_None_iff)
  have commits: "map_of (gs_commits ?s) k = (if k = c_id c then Some c else map_of (gs_commits s) k)" for k
    by (simp add: push_commit_def update_conv')
  have branches: "map_of (gs_branches ?s) b = (if b = gs_curr s then Some (Some (c_id c)) else map_of (gs_branches s) b)" for b
    by (simp add: push_commit_def update_conv')
  have old: "older_parents ?s c'" if "map_of (gs_commits s) k = Some c'" for k c'
  proof -
    have "older_parents s c'" using git_invD(1) [OF inv that] by simp
    then show ?thesis using commits fresh(2) by (fastforce simp: older_parents_def)
  qed
  have new: "older_parents ?s c"
    using parents git_invD(1) [OF inv] commits fresh(2) seq by (fastforce simp: older_parents_def)
  have misc: "gs_seq ?s = Suc (gs_seq s)" "gs_curr ?s = gs_curr s" "gs_head ?s = Some c"
    by (simp_all add: push_commit_def)
  show ?thesis unfolding git_inv_def
  proof (intro conjI allI impI)
    fix k c' assume k: "map_of (gs_commits ?s) k = Some c'"
    show "k \<noteq> []" "c_id c' = k" "c_seq c' < gs_seq ?s" "older_parents ?s c'"
      using k commits fresh(1) seq new misc(1) git_invD(1) [OF inv] old by (fastforce split: if_splits)+
  next
    fix b i assume "map_of (gs_branches ?s) b = Some (Some i)"
    then show "map_of (gs_commits ?s) i \<noteq> None"
      using branches commits git_invD(2) [OF inv] by (fastforce split: if_splits)
  next
    show "map_of (gs_branches ?s) (gs_curr ?s) \<noteq> None" using branches misc(2) by simp
  next
    show "gs_head ?s = commit_at ?s (branch_tip ?s (gs_curr ?s))"
      using branches commits misc fresh(1) by (simp add: commit_at_def branch_tip_def)
  qed
qed

lemma checkout_inv:
  assumes "git_inv s" and "git_checkout_op dp name s = Inr s'"
  shows "git_inv s'"
proof -
  obtain e t where "map_of (gs_branches s) e = Some t" "s' = s\<lparr>gs_curr := e, gs_head := commit_at s t\<rparr>"
    using assms(2) by (auto simp: git_checkout_op_def Let_def split: option.splits)
  then show ?thesis using assms(1)
    by (auto simp: git_inv_def older_parents_def commit_at_def branch_tip_def split: option.splits)
qed

lemma commit_at_Some:
  "git_inv s \<Longrightarrow> commit_at s x = Some c \<Longrightarrow> x = Some (c_id c) \<and> map_of (gs_commits s) (c_id c) = Some c"
  using git_invD(1) by (fastforce simp: commit_at_def split: option.splits if_splits)

lemma effective_id_nonempty: "effective_id r nonce s \<noteq> []"
  by (simp add: effective_id_def lit_def)

lemma branch_inv:
  assumes inv: "git_inv s" and run: "git_branch_op dp name order s = Inr s'"
  shows "git_inv s'"
proof -
  let ?t = "sanitize_text dp name"
  let ?s = "s\<lparr>gs_branches := AList.update ?t (map_option c_id (gs_head s)) (gs_branches s),
      gs_config := AList.update ?t order (gs_config s)\<rparr>"
  have new: "map_of (gs_branches s) ?t = None" and run': "git_checkout_op dp ?t ?s = Inr s'"
    using run by (auto simp: git_branch_op_def Let_def map_of_eq_None_iff split: if_splits)
  have branches: "map_of (gs_branches ?s) b = (if b = ?t then Some (map_option c_id (gs_head s)) else map_of (gs_branches s) b)" for b
    by (simp add: update_conv')
  have "gs_curr s \<noteq> ?t" using new git_invD(3) [OF inv] by auto
  then have "git_inv ?s"
    using inv branches head_stored [OF inv]
    by (auto simp: git_inv_def older_parents_def commit_at_def branch_tip_def split: option.splits)
  then show ?thesis using run' by (rule checkout_inv)
qed

lemma commit_inv:
  assumes inv: "git_inv s" and fresh: "effective_id (sanitize_text dp cid) nonce s \<notin> fst ` set (gs_commits s)"
    and run: "git_commit_op dp nonce cid msg type tags s = Inr s'"
  shows "git_inv s'"
proof -
  obtain c where s': "s' = push_commit c s" and c: "c_id c = effective_id (sanitize_text dp cid) nonce s" "c_seq c = gs_seq s"
      "c_parents c = (case gs_head s of None \<Rightarrow> [] | Some h \<Rightarrow> [c_id h])"
    using run by (auto simp: git_commit_op_def Let_def)
  show ?thesis unfolding s'
    using fresh c effective_id_nonempty head_stored [OF inv]
    by (intro push_commit_inv inv) (auto split: option.splits)
qed

text \<open>When a merge succeeds, and the commit it makes.\<close>

lemma merge_success:
  assumes "git_merge_op dp nonce branch cid type tags s = Inr s'"
  shows "\<exists>t u h c. t = sanitize_text dp branch \<and> commit_at s (branch_tip s (gs_curr s)) = Some u \<and>
     commit_at s (branch_tip s t) = Some h \<and> gs_curr s \<noteq> t \<and> c_branch u \<noteq> t \<and>
     branch_tip s (gs_curr s) \<noteq> branch_tip s t \<and> s' = push_commit c s \<and>
     c_id c = effective_id (sanitize_text dp cid) nonce s \<and> c_seq c = gs_seq s \<and> c_type c = MERGE \<and>
     c_branch c = gs_curr s \<and>
     c_parents c = (case gs_head s of None \<Rightarrow> []
       | Some g \<Rightarrow> [c_id g, case branch_tip s t of None \<Rightarrow> [] | Some i \<Rightarrow> i])"
  using assms by (auto simp: git_merge_op_def Let_def split: if_split_asm)

lemma merge_inv:
  assumes inv: "git_inv s" and fresh: "effective_id (sanitize_text dp cid) nonce s \<notin> fst ` set (gs_commits s)"
    and run: "git_merge_op dp nonce branch cid type tags s = Inr s'"
  shows "git_inv s'"
proof -
  obtain h c where h: "commit_at s (branch_tip s (sanitize_text dp branch)) = Some h" and s': "s' = push_commit c s"
    and c: "c_id c = effective_id (sanitize_text dp cid) nonce s" "c_seq c = gs_seq s"
      "c_parents c = (case gs_head s of None \<Rightarrow> []
         | Some g \<Rightarrow> [c_id g, case branch_tip s (sanitize_text dp branch) of None \<Rightarrow> [] | Some i \<Rightarrow> i])"
    using merge_success [OF run] by blast
  show ?thesis unfolding s'
    using fresh c effective_id_nonempty head_stored [OF inv] commit_at_Some [OF inv h]
    by (intro push_commit_inv inv) (auto split: option.splits)
qed

lemma cherry_pick_inv:
  assumes inv: "git_inv s" and fresh: "effective_id [] nonce s \<notin> fst ` set (gs_commits s)"
    and run: "git_cherry_pick_op dp nonce cid target tags parent s = Inr s'"
  shows "git_inv s'"
proof (cases "s' = s")
  case False
  then obtain src c where src: "map_of (gs_commits s) (sanitize_text dp cid) = Some src" and s': "s' = push_commit c s"
    and c: "c_id c = effective_id [] nonce s" "c_seq c = gs_seq s"
      "c_parents c = (case gs_head s of None \<Rightarrow> [] | Some g \<Rightarrow> [c_id g, c_id src])"
    using run by (auto simp: git_cherry_pick_op_def Let_def split: option.splits if_split_asm)
  have "map_of (gs_commits s) (c_id src) = Some src" using git_invD(1) [OF inv src] src by simp
  then show ?thesis unfolding s'
    using fresh c effective_id_nonempty head_stored [OF inv]
    by (intro push_commit_inv inv) (auto split: option.splits)
qed (use inv in simp)

text \<open>The id a statement is to give its commit; the statements without one have the empty id.\<close>

fun new_id :: "(ustr \<Rightarrow> ustr) \<Rightarrow> ustr \<Rightarrow> git_statement \<Rightarrow> git_state \<Rightarrow> ustr" where
  "new_id dp nonce (Commit i _ _ _) s = effective_id (sanitize_text dp (text_or_empty i)) nonce s"
| "new_id dp nonce (Merge _ i _ _) s = effective_id (sanitize_text dp (text_or_empty i)) nonce s"
| "new_id dp nonce (CherryPicking _ _ _) s = effective_id [] nonce s"
| "new_id dp nonce _ s = []"

fun fresh_run :: "(ustr \<Rightarrow> ustr) \<Rightarrow> (git_statement \<times> ustr) list \<Rightarrow> git_state \<Rightarrow> bool" where
  "fresh_run dp [] s = True"
| "fresh_run dp ((st, nonce) # sts) s =
     (new_id dp nonce st s \<notin> fst ` set (gs_commits s) \<and>
      (case run_statement dp nonce st s of Inl _ \<Rightarrow> True | Inr s' \<Rightarrow> fresh_run dp sts s'))"

lemma statement_inv:
  "git_inv s \<Longrightarrow> new_id dp nonce st s \<notin> fst ` set (gs_commits s) \<Longrightarrow> run_statement dp nonce st s = Inr s' \<Longrightarrow> git_inv s'"
  by (cases st) (auto elim: commit_inv branch_inv merge_inv checkout_inv cherry_pick_inv)

lemma run_graph_inv: "git_inv s \<Longrightarrow> fresh_run dp sts s \<Longrightarrow> run_graph dp sts s = Inr s' \<Longrightarrow> git_inv s'"
  by (induction dp sts s rule: run_graph.induct) (auto dest: statement_inv)


section \<open>Properties\<close>

text \<open>C19. As long as no commit is given the id of an earlier one, a git graph's history is one: following
  parents never comes back to a commit, every parent is there and was made before its child, and every
  branch that has commits points to one of them, whatever the branches, merges and cherry-picks.\<close>

theorem git_history_acyclic:
  assumes "run_graph dp sts (init_graph main order) = Inr s" and "fresh_run dp sts (init_graph main order)"
  shows "acyclic {(p, k). \<exists>c. map_of (gs_commits s) k = Some c \<and> p \<in> set (c_parents c)} \<and>
         (\<forall>k c. map_of (gs_commits s) k = Some c \<longrightarrow> c_id c = k \<and> older_parents s c) \<and>
         (\<forall>b i. map_of (gs_branches s) b = Some (Some i) \<longrightarrow> (\<exists>c. map_of (gs_commits s) i = Some c)) \<and>
         gs_head s = commit_at s (branch_tip s (gs_curr s))"
proof -
  have inv: "git_inv s" using run_graph_inv [OF git_inv_init assms(2,1)] .
  let ?r = "{(p, k). \<exists>c. map_of (gs_commits s) k = Some c \<and> p \<in> set (c_parents c)}"
  let ?seq = "\<lambda>k. case map_of (gs_commits s) k of None \<Rightarrow> 0 | Some c \<Rightarrow> c_seq c"
  have "?r \<subseteq> measure ?seq"
    using git_invD(1) [OF inv] by (fastforce simp: older_parents_def)
  then have "acyclic ?r" using wf_acyclic [OF wf_measure] acyclic_subset by blast
  then show ?thesis using git_invD [OF inv] by blast
qed

text \<open>Nothing enforces that ids differ: a second commit under the same id only prints a warning and takes
  the place of the first, as its own parent.\<close>

lemma git_duplicate_id_cycle:
  assumes "sanitize_text dp i \<noteq> []"
  shows "\<exists>s c. run_graph dp [(Commit (Some i) None None None, n), (Commit (Some i) None None None, n')]
        (init_graph main order) = Inr s \<and>
      gs_commits s = [(sanitize_text dp i, c)] \<and> c_parents c = [sanitize_text dp i]"
  using assms
  by (simp add: git_commit_op_def Let_def push_commit_def init_graph_def effective_id_def text_or_empty_def)

text \<open>A merge succeeds only between different branches with different tips, and then makes one commit of
  type merge on the current branch whose parents are exactly the two tips, in that order; the other branches,
  the merged one among them, stay where they are.\<close>

lemma git_merge_joins_tips:
  assumes "git_inv s" and "git_merge_op dp nonce branch cid type tags s = Inr s'"
  shows "\<exists>u h c. branch_tip s (gs_curr s) = Some u \<and> branch_tip s (sanitize_text dp branch) = Some h \<and> u \<noteq> h \<and>
     gs_head s' = Some c \<and> c_type c = MERGE \<and> c_parents c = [u, h] \<and> c_branch c = gs_curr s \<and>
     map_of (gs_branches s') = (map_of (gs_branches s))(gs_curr s \<mapsto> Some (c_id c)) \<and> gs_curr s' = gs_curr s"
proof -
  let ?t = "sanitize_text dp branch"
  obtain u h c where u: "commit_at s (branch_tip s (gs_curr s)) = Some u" and h: "commit_at s (branch_tip s ?t) = Some h"
    and tips: "branch_tip s (gs_curr s) \<noteq> branch_tip s ?t" and s': "s' = push_commit c s"
    and c: "c_type c = MERGE" "c_branch c = gs_curr s" "c_parents c = (case gs_head s of None \<Rightarrow> []
       | Some g \<Rightarrow> [c_id g, case branch_tip s ?t of None \<Rightarrow> [] | Some i \<Rightarrow> i])"
    using merge_success [OF assms(2)] by blast
  have "gs_head s = Some u" using git_invD(4) [OF assms(1)] u by simp
  then show ?thesis
    using commit_at_Some [OF assms(1) u] commit_at_Some [OF assms(1) h] tips c s'
    by (simp add: push_commit_def update_conv')
qed

text \<open>Two commits on main, one on a branch, a merge and a cherry-pick, for the witnesses.\<close>

definition demo_graph :: "(git_statement \<times> ustr) list" where
  "demo_graph =
     [(Commit (Some (lit ''A'')) None None None, []), (Branch (lit ''dev'') None, []),
      (Commit (Some (lit ''B'')) None (Some HIGHLIGHT) None, []), (Checkout (lit ''main''), []),
      (Commit None None None None, lit ''x''), (Merge (lit ''dev'') None None None, lit ''y''),
      (Checkout (lit ''dev''), []), (CherryPicking (Some (lit ''2-x'')) None None, lit ''z'')]"

lemma git_history_acyclic_witness:
  "\<exists>s. run_graph (\<lambda>x. x) demo_graph (init_graph (lit ''main'') 0) = Inr s \<and> length (gs_commits s) = 5 \<and>
     acyclic {(p, k). \<exists>c. map_of (gs_commits s) k = Some c \<and> p \<in> set (c_parents c)}"
proof -
  have "case run_graph (\<lambda>x. x) demo_graph (init_graph (lit ''main'') 0) of Inl _ \<Rightarrow> False | Inr s \<Rightarrow> length (gs_commits s) = 5"
    by code_simp
  then obtain s where s: "run_graph (\<lambda>x. x) demo_graph (init_graph (lit ''main'') 0) = Inr s" "length (gs_commits s) = 5"
    by (auto split: sum.splits)
  moreover have "fresh_run (\<lambda>x. x) demo_graph (init_graph (lit ''main'') 0)" by code_simp
  ultimately show ?thesis using git_history_acyclic [OF s(1)] by blast
qed

end
