(* ===== verification/Sequence_Diagram.thy ===== *)
theory Sequence_Diagram
  imports Js_Library
begin

text \<open>
  The records of sequence diagrams (\<open>SequenceDB\<close> of \<open>docs/mermaid.tiny.js\<close>, lines 1251 to 1255): participants, boxes
  around them, and the messages with the bars of activation. A box is its place in the list of boxes; maps keep the
  order of insertion, as those of the code do.
\<close>

section \<open>Records\<close>

text \<open>The kinds of messages are numbers; these are the ones the records look at.\<close>

definition NOTE :: nat where "NOTE = 2"
definition ACTIVE_START :: nat where "ACTIVE_START = 17"
definition ACTIVE_END :: nat where "ACTIVE_END = 18"
definition AUTONUMBER :: nat where "AUTONUMBER = 26"

record seq_text =
  st_text :: ustr
  st_wrap :: "bool option"

record seq_actor =
  ac_box :: "nat option"
  ac_name :: ustr
  ac_description :: ustr
  ac_wrap :: bool
  ac_prev :: "ustr option"
  ac_next :: "ustr option"
  ac_type :: ustr

record seq_box =
  bx_name :: "ustr option"
  bx_wrap :: bool
  bx_fill :: ustr
  bx_keys :: "ustr list"

datatype seq_content = Text ustr | Numbering "int option" "int option" bool

record seq_message =
  ms_id :: ustr
  ms_from :: "ustr option"
  ms_to :: "ustr option"
  ms_content :: seq_content
  ms_wrap :: bool
  ms_type :: nat
  ms_activate :: bool
  ms_central :: nat
  ms_placement :: "nat option"

record seq_note =
  nt_actors :: "ustr list"
  nt_placement :: nat
  nt_text :: ustr
  nt_wrap :: bool

record seq_state =
  sq_prev :: "ustr option"
  sq_actors :: "(ustr \<times> seq_actor) list"
  sq_created :: "ustr \<rightharpoonup> nat"
  sq_destroyed :: "ustr \<rightharpoonup> nat"
  sq_boxes :: "seq_box list"
  sq_messages :: "seq_message list"
  sq_notes :: "seq_note list"
  sq_wrap :: "bool option"
  sq_box :: "nat option"
  sq_last_created :: "ustr option"
  sq_last_destroyed :: "ustr option"

definition seq_clear :: seq_state where
  "seq_clear = \<lparr>sq_prev = None, sq_actors = [], sq_created = Map.empty, sq_destroyed = Map.empty, sq_boxes = [],
     sq_messages = [], sq_notes = [], sq_wrap = None, sq_box = None, sq_last_created = None, sq_last_destroyed = None\<rparr>"

datatype seq_error =
    BadConfig
  | TwoBoxes ustr
  | SameId ustr
  | NoCreatingMessage
  | NoDestroyingMessage
  | Inactive "ustr option"

text \<open>
  What the records depend on: the wrapping of the configuration, and the YAML reader, which gives the \<open>type\<close> and
  the \<open>alias\<close> of a participant's options or throws.
\<close>

record seq_env =
  sv_wrap :: bool
  sv_yaml :: "ustr \<Rightarrow> (ustr option \<times> ustr option) option"

definition auto_wrap :: "seq_env \<Rightarrow> seq_state \<Rightarrow> bool" where
  "auto_wrap E s = (case sq_wrap s of Some b \<Rightarrow> b | None \<Rightarrow> sv_wrap E)"

definition wrap_of :: "seq_env \<Rightarrow> seq_state \<Rightarrow> bool option \<Rightarrow> bool" where
  "wrap_of E s w = (case w of Some b \<Rightarrow> b | None \<Rightarrow> auto_wrap E s)"

text \<open>A key or a name that is \<open>undefined\<close> or empty counts as missing.\<close>

definition given :: "ustr option \<Rightarrow> bool" where
  "given k \<longleftrightarrow> k \<noteq> None \<and> k \<noteq> Some []"


section \<open>Operations\<close>

text \<open>\<open>addBox\<close> and \<open>boxEnd\<close>\<close>

definition add_box :: "seq_env \<Rightarrow> ustr option \<Rightarrow> bool option \<Rightarrow> ustr \<Rightarrow> seq_state \<Rightarrow> seq_state" where
  "add_box E name wrap fill s = s\<lparr>sq_boxes := sq_boxes s @
       [\<lparr>bx_name = name, bx_wrap = wrap_of E s wrap, bx_fill = fill, bx_keys = []\<rparr>],
     sq_box := Some (length (sq_boxes s))\<rparr>"

definition box_end :: "seq_state \<Rightarrow> seq_state" where
  "box_end s = s\<lparr>sq_box := None\<rparr>"

text \<open>The text of the options becomes YAML: as a block when it has lines, else as a flow mapping.\<close>

definition config_text :: "ustr \<Rightarrow> ustr" where
  "config_text c = (if 10 \<in> set c then c @ [10] else ch (CHR ''{'') # 10 # c @ [10, ch (CHR ''}'')])"

definition read_config :: "seq_env \<Rightarrow> ustr option \<Rightarrow> (ustr option \<times> ustr option) option" where
  "read_config E c = (case c of None \<Rightarrow> Some (None, None) | Some t \<Rightarrow> sv_yaml E (config_text t))"

text \<open>
  \<open>addActor\<close> of a participant \<open>t\<close> with the description \<open>i\<close> and the shape \<open>n\<close>. One that is known and is only mentioned
  again stays as it is, but for its box; else it is recorded anew, after the last one recorded.
\<close>

definition push_actor :: "ustr \<Rightarrow> seq_actor \<Rightarrow> seq_state \<Rightarrow> seq_state" where
  "push_actor t a s =
     (let actors = map_set t a (sq_actors s);
          actors' = (case sq_prev s of
              Some p \<Rightarrow> if p = [] then actors else
                (case map_of actors p of None \<Rightarrow> actors | Some h \<Rightarrow> map_set p (h\<lparr>ac_next := Some t\<rparr>) actors)
            | None \<Rightarrow> actors);
          boxes = (case sq_box s of
              None \<Rightarrow> sq_boxes s
            | Some b \<Rightarrow> (sq_boxes s)[b := (sq_boxes s ! b)\<lparr>bx_keys := bx_keys (sq_boxes s ! b) @ [t]\<rparr>]) in
      s\<lparr>sq_actors := actors', sq_boxes := boxes, sq_prev := Some t\<rparr>)"

definition kept_box :: "seq_state \<Rightarrow> seq_actor \<Rightarrow> nat option" where
  "kept_box s u = (if ac_box u \<noteq> None then ac_box u else sq_box s)"

text \<open>The alias of the options is the description when there is no other than the name, and the actor that is recorded.\<close>

definition described :: "ustr \<Rightarrow> ustr option \<Rightarrow> seq_text option \<Rightarrow> seq_text option" where
  "described t al i =
     (if given al \<and> (case i of None \<Rightarrow> True | Some d \<Rightarrow> st_text d = t)
      then Some \<lparr>st_text = the al, st_wrap = Option.bind i st_wrap\<rparr> else i)"

definition new_actor :: "seq_env \<Rightarrow> seq_state \<Rightarrow> ustr \<Rightarrow> seq_text option \<Rightarrow> ustr option \<Rightarrow> nat option \<Rightarrow> seq_actor" where
  "new_actor E s t i n box =
     (let plain = \<lparr>st_text = t, st_wrap = None\<rparr>;
          d = (case i of None \<Rightarrow> plain | Some d \<Rightarrow> if n = None then plain else d) in
      \<lparr>ac_box = box, ac_name = t, ac_description = st_text d, ac_wrap = wrap_of E s (st_wrap d), ac_prev = sq_prev s,
        ac_next = None, ac_type = (case n of None \<Rightarrow> lit ''participant'' | Some x \<Rightarrow> x)\<rparr>)"

definition add_actor :: "seq_env \<Rightarrow> ustr \<Rightarrow> seq_text option \<Rightarrow> ustr option \<Rightarrow> ustr option \<Rightarrow> seq_state \<Rightarrow>
    seq_error + seq_state" where
  "add_actor E t i n c s =
     (case read_config E c of
        None \<Rightarrow> Inl BadConfig
      | Some (ty, al) \<Rightarrow>
        let n' = (case ty of Some x \<Rightarrow> Some x | None \<Rightarrow> n); i' = described t al i in
        (case map_of (sq_actors s) t of
           None \<Rightarrow> Inr (push_actor t (new_actor E s t i' n' (sq_box s)) s)
         | Some u \<Rightarrow>
             if sq_box s \<noteq> None \<and> ac_box u \<noteq> None \<and> sq_box s \<noteq> ac_box u then Inl (TwoBoxes (ac_name u))
             else if t = ac_name u \<and> i' = None
             then Inr (s\<lparr>sq_actors := map_set t (u\<lparr>ac_box := kept_box s u\<rparr>) (sq_actors s)\<rparr>)
             else Inr (push_actor t (new_actor E s t i' n' (kept_box s u)) s)))"

lemma new_actor_simps [simp]:
  "ac_box (new_actor E s t i n box) = box" "ac_name (new_actor E s t i n box) = t"
  "ac_prev (new_actor E s t i n box) = sq_prev s" "ac_next (new_actor E s t i n box) = None"
  by (simp_all add: new_actor_def Let_def)

text \<open>\<open>activationCount\<close>\<close>

definition activation_count :: "ustr option \<Rightarrow> seq_message list \<Rightarrow> int" where
  "activation_count t ms =
     (if \<not> given t then 0
      else foldl (\<lambda>i m. if ms_type m = ACTIVE_START \<and> ms_from m = t then i + 1
                        else if ms_type m = ACTIVE_END \<and> ms_from m = t then i - 1 else i) 0 ms)"

definition push_message :: "seq_message \<Rightarrow> seq_state \<Rightarrow> seq_state" where
  "push_message m s = s\<lparr>sq_messages := sq_messages s @ [m]\<rparr>"

text \<open>\<open>addSignal\<close>\<close>

definition add_signal :: "seq_env \<Rightarrow> ustr option \<Rightarrow> ustr option \<Rightarrow> seq_text option \<Rightarrow> nat \<Rightarrow> bool \<Rightarrow> nat \<Rightarrow> seq_state \<Rightarrow>
    seq_error + seq_state" where
  "add_signal E t r i n act central s =
     (if n = ACTIVE_END \<and> activation_count t (sq_messages s) < 1 then Inl (Inactive t)
      else Inr (push_message
        \<lparr>ms_id = show_nat (length (sq_messages s)), ms_from = t, ms_to = r,
          ms_content = Text (case i of None \<Rightarrow> [] | Some d \<Rightarrow> st_text d), ms_wrap = wrap_of E s (Option.bind i st_wrap),
          ms_type = n, ms_activate = act, ms_central = central, ms_placement = None\<rparr> s))"

text \<open>\<open>addNote\<close> at one participant or two, \<open>[].concat(t, t)\<close>\<close>

definition add_note :: "seq_env \<Rightarrow> ustr list \<Rightarrow> nat \<Rightarrow> seq_text \<Rightarrow> seq_state \<Rightarrow> seq_state" where
  "add_note E t r i s =
     (let w = wrap_of E s (st_wrap i); at = t @ t in
      push_message
        \<lparr>ms_id = show_nat (length (sq_messages s)), ms_from = (if at = [] then None else Some (hd at)),
          ms_to = (if length at \<le> 1 then None else Some (at ! 1)), ms_content = Text (st_text i), ms_wrap = w,
          ms_type = NOTE, ms_activate = False, ms_central = 0, ms_placement = Some r\<rparr>
        (s\<lparr>sq_notes := sq_notes s @ [\<lparr>nt_actors = t, nt_placement = r, nt_text = st_text i, nt_wrap = w\<rparr>]\<rparr>))"


text \<open>
  \<open>apply\<close>, for what the parser makes of the statements. \<open>Signal\<close> stands for the activations, with the participant, and
  for the parts of loops and the like, with the text. Links, properties and details of participants are not modelled.
\<close>

datatype seq_op =
    SequenceIndex "int option" "int option" bool
  | AddParticipant ustr "seq_text option" "ustr option" "ustr option"
  | CreateParticipant ustr "seq_text option" "ustr option" "ustr option"
  | DestroyParticipant ustr
  | AddNote "ustr list" nat seq_text
  | AddMessage "ustr option" "ustr option" "seq_text option" nat bool nat
  | Signal "ustr option" "seq_text option" nat
  | BoxStart "ustr option" "bool option" ustr
  | BoxEnd

text \<open>The message that follows the creation or the destruction of a participant must be to it, or from it.\<close>

definition check_pending :: "ustr option \<Rightarrow> ustr option \<Rightarrow> seq_state \<Rightarrow> seq_error + seq_state" where
  "check_pending from to s =
     (if given (sq_last_created s) then
        (if to \<noteq> sq_last_created s then Inl NoCreatingMessage else Inr (s\<lparr>sq_last_created := None\<rparr>))
      else if given (sq_last_destroyed s) then
        (if to \<noteq> sq_last_destroyed s \<and> from \<noteq> sq_last_destroyed s then Inl NoDestroyingMessage
         else Inr (s\<lparr>sq_last_destroyed := None\<rparr>))
      else Inr s)"

fun seq_apply :: "seq_env \<Rightarrow> seq_op \<Rightarrow> seq_state \<Rightarrow> seq_error + seq_state" where
  "seq_apply E (SequenceIndex start step visible) s =
     Inr (push_message
       \<lparr>ms_id = show_nat (length (sq_messages s)), ms_from = None, ms_to = None, ms_content = Numbering start step visible,
         ms_wrap = False, ms_type = AUTONUMBER, ms_activate = False, ms_central = 0, ms_placement = None\<rparr> s)"
| "seq_apply E (AddParticipant t i n c) s = add_actor E t i n c s"
| "seq_apply E (CreateParticipant t i n c) s =
     (if t \<in> fst ` set (sq_actors s) then Inl (SameId t)
      else rbind (add_actor E t i n c (s\<lparr>sq_last_created := Some t\<rparr>)) (\<lambda>s'.
        Inr (s'\<lparr>sq_created := (sq_created s')(t \<mapsto> length (sq_messages s'))\<rparr>)))"
| "seq_apply E (DestroyParticipant t) s =
     Inr (s\<lparr>sq_last_destroyed := Some t, sq_destroyed := (sq_destroyed s)(t \<mapsto> length (sq_messages s))\<rparr>)"
| "seq_apply E (AddNote t r i) s = Inr (add_note E t r i s)"
| "seq_apply E (AddMessage from to msg n act central) s =
     rbind (check_pending from to s) (add_signal E from to msg n act central)"
| "seq_apply E (Signal t i n) s = add_signal E t None i n False 0 s"
| "seq_apply E (BoxStart name wrap fill) s = Inr (add_box E name wrap fill s)"
| "seq_apply E BoxEnd s = Inr (box_end s)"

fun seq_run :: "seq_env \<Rightarrow> seq_op list \<Rightarrow> seq_state \<Rightarrow> seq_error + seq_state" where
  "seq_run E [] s = Inr s"
| "seq_run E (p # ps) s = rbind (seq_apply E p s) (seq_run E ps)"


section \<open>Invariants\<close>

text \<open>An invariant of every statement is one of every diagram; both components below are of this shape.\<close>

locale seq_invariant =
  fixes inv :: "seq_state \<Rightarrow> bool"
  assumes inv_clear: "inv (seq_clear\<lparr>sq_wrap := w\<rparr>)"
    and inv_apply: "inv s \<Longrightarrow> seq_apply E p s = Inr s' \<Longrightarrow> inv s'"

context seq_invariant begin

lemma inv_run: "seq_run E ps s = Inr s' \<Longrightarrow> inv s \<Longrightarrow> inv s'"
proof (induction ps arbitrary: s)
  case (Cons p ps)
  then obtain s1 where "seq_apply E p s = Inr s1" "seq_run E ps s1 = Inr s'" by auto
  then show ?case using Cons inv_apply by blast
qed simp

lemma reached: "seq_run E ps (seq_clear\<lparr>sq_wrap := w\<rparr>) = Inr s \<Longrightarrow> inv s"
  using inv_run inv_clear by blast

end

text \<open>How many bars of \<open>t\<close> are open after the messages.\<close>

definition active :: "ustr option \<Rightarrow> seq_message list \<Rightarrow> int" where
  "active t ms = int (length (filter (\<lambda>m. ms_type m = ACTIVE_START \<and> ms_from m = t) ms)) -
     int (length (filter (\<lambda>m. ms_type m = ACTIVE_END \<and> ms_from m = t) ms))"

lemma active_simps [simp]:
  "active t [] = 0"
  "active t (ms @ [m]) = active t ms +
     (if ms_from m = t then (if ms_type m = ACTIVE_START then 1 else if ms_type m = ACTIVE_END then -1 else 0) else 0)"
  by (auto simp: active_def ACTIVE_START_def ACTIVE_END_def)

lemma activation_count_active: "activation_count t ms = (if given t then active t ms else 0)"
  by (induction ms rule: rev_induct) (auto simp: activation_count_def ACTIVE_START_def ACTIVE_END_def)

definition bars_ok :: "seq_state \<Rightarrow> bool" where
  "bars_ok s \<longleftrightarrow> (\<forall>k\<le>length (sq_messages s). \<forall>t. 0 \<le> active t (take k (sq_messages s)))"

lemma bars_ok_push:
  assumes "bars_ok s" and "sq_messages s' = sq_messages s @ [m]" and "ms_type m = ACTIVE_END \<Longrightarrow> 0 < active (ms_from m) (sq_messages s)"
  shows "bars_ok s'"
  unfolding bars_ok_def assms(2)
proof (intro allI impI)
  fix k t
  assume "k \<le> length (sq_messages s @ [m])"
  then consider "k \<le> length (sq_messages s)" | "k = Suc (length (sq_messages s))" by fastforce
  then show "0 \<le> active t (take k (sq_messages s @ [m]))"
  proof cases
    case 2
    have "0 \<le> active t (sq_messages s)" using assms(1) by (auto simp: bars_ok_def dest: spec [of _ "length (sq_messages s)"])
    then show ?thesis using 2 assms(3) by auto
  qed (use assms(1) in \<open>simp add: bars_ok_def\<close>)
qed

lemma push_actor_messages: "sq_messages (push_actor t a s) = sq_messages s"
  by (simp add: push_actor_def Let_def)

lemma add_actor_messages: "add_actor E t i n c s = Inr s' \<Longrightarrow> sq_messages s' = sq_messages s"
  by (auto simp: add_actor_def Let_def push_actor_messages split: option.splits prod.splits if_splits)

lemma check_pending_messages: "check_pending from to s = Inr s' \<Longrightarrow> sq_messages s' = sq_messages s"
  by (auto simp: check_pending_def split: if_splits)

lemma add_signal_bars:
  assumes "add_signal E t r i n act central s = Inr s'" and "bars_ok s"
  shows "bars_ok s'"
proof -
  obtain m where m: "s' = push_message m s" "ms_type m = n" "ms_from m = t" "n = ACTIVE_END \<Longrightarrow> 1 \<le> activation_count t (sq_messages s)"
    using assms(1) by (fastforce simp: add_signal_def split: if_splits)
  show ?thesis
    by (rule bars_ok_push [OF assms(2), of s' m])
      (use m in \<open>auto simp: push_message_def activation_count_active split: if_splits\<close>)
qed

interpretation bars: seq_invariant bars_ok
proof
  fix w show "bars_ok (seq_clear\<lparr>sq_wrap := w\<rparr>)" by (simp add: bars_ok_def seq_clear_def)
next
  fix s E p s'
  assume inv: "bars_ok s" and step: "seq_apply E p s = Inr s'"
  have same: "bars_ok x" if "sq_messages x = sq_messages s" for x using inv that by (simp add: bars_ok_def)
  show "bars_ok s'"
  proof (cases p)
    case (SequenceIndex a b v)
    show ?thesis by (rule bars_ok_push [OF inv, of s']) (use step SequenceIndex in \<open>auto simp: push_message_def AUTONUMBER_def ACTIVE_END_def\<close>)
  next
    case (AddNote a b i)
    show ?thesis by (rule bars_ok_push [OF inv, of s']) (use step AddNote in \<open>auto simp: push_message_def add_note_def Let_def NOTE_def ACTIVE_END_def\<close>)
  next
    case (AddMessage f t m n a c)
    then obtain s1 where "check_pending f t s = Inr s1" "add_signal E f t m n a c s1 = Inr s'" using step by auto
    then show ?thesis using add_signal_bars same check_pending_messages by blast
  next
    case (Signal t i n)
    then show ?thesis using step add_signal_bars [OF _ inv] by auto
  qed (use step in \<open>auto intro!: same simp: add_actor_messages add_box_def box_end_def split: if_splits\<close>)
qed


text \<open>The box of a participant, and what recording one does to it.\<close>

definition actor_box :: "seq_state \<Rightarrow> ustr \<Rightarrow> nat option" where
  "actor_box s k = Option.bind (map_of (sq_actors s) k) ac_box"

lemma push_actor_box: "actor_box (push_actor t a s) k = (if k = t then ac_box a else actor_box s k)"
  by (auto simp: actor_box_def push_actor_def Let_def map_of_map_set split: option.splits)

definition boxes_ok :: "seq_state \<Rightarrow> bool" where
  "boxes_ok s \<longleftrightarrow> (\<forall>b. sq_box s = Some b \<longrightarrow> b < length (sq_boxes s)) \<and>
     (\<forall>b<length (sq_boxes s). \<forall>k\<in>set (bx_keys (sq_boxes s ! b)). actor_box s k = Some b)"

lemma boxes_ok_same:
  "boxes_ok s \<Longrightarrow> sq_boxes s' = sq_boxes s \<Longrightarrow> sq_actors s' = sq_actors s \<Longrightarrow> sq_box s' = sq_box s \<or> sq_box s' = None \<Longrightarrow>
   boxes_ok s'"
  by (auto simp: boxes_ok_def actor_box_def)

lemma boxes_ok_push:
  assumes "boxes_ok s" and "\<And>b. actor_box s t = Some b \<Longrightarrow> ac_box a = Some b" and "\<And>b. sq_box s = Some b \<Longrightarrow> ac_box a = Some b"
  shows "boxes_ok (push_actor t a s)"
proof -
  have keys: "sq_box (push_actor t a s) = sq_box s" "length (sq_boxes (push_actor t a s)) = length (sq_boxes s)"
    by (simp_all add: push_actor_def Let_def split: option.splits)
  have "actor_box (push_actor t a s) k = Some b"
    if b: "b < length (sq_boxes s)" "k \<in> set (bx_keys (sq_boxes (push_actor t a s) ! b))" for b k
  proof -
    have "k \<in> set (bx_keys (sq_boxes s ! b)) \<or> (k = t \<and> sq_box s = Some b)"
      using b by (cases "sq_box s = Some b") (auto simp: push_actor_def Let_def split: option.splits)
    then show ?thesis using assms b(1) by (auto simp: push_actor_box boxes_ok_def)
  qed
  then show ?thesis using assms(1) keys by (simp add: boxes_ok_def)
qed

lemma add_actor_cases:
  assumes "add_actor E t i n c s = Inr s'"
  obtains (new) a where "map_of (sq_actors s) t = None" "s' = push_actor t a s" "ac_box a = sq_box s" "ac_prev a = sq_prev s"
      "ac_next a = None" "ac_name a = t"
    | (again) u where "map_of (sq_actors s) t = Some u" "sq_box s = None \<or> ac_box u = None \<or> sq_box s = ac_box u"
      "s' = s\<lparr>sq_actors := map_set t (u\<lparr>ac_box := kept_box s u\<rparr>) (sq_actors s)\<rparr>"
    | (anew) u and a where "map_of (sq_actors s) t = Some u" "sq_box s = None \<or> ac_box u = None \<or> sq_box s = ac_box u"
      "s' = push_actor t a s" "ac_box a = kept_box s u" "ac_name u \<noteq> t \<or> i \<noteq> None \<or> c \<noteq> None"
proof -
  obtain ty al where config: "read_config E c = Some (ty, al)" using assms by (auto simp: add_actor_def split: option.splits)
  have none: "c = None \<Longrightarrow> al = None" using config by (simp add: read_config_def)
  show ?thesis
  proof (cases "map_of (sq_actors s) t")
    case None
    then show ?thesis using assms config by (intro new) (auto simp: add_actor_def Let_def)
  next
    case (Some u)
    have desc: "described t al i = None \<or> i \<noteq> None \<or> c \<noteq> None" using none by (auto simp: described_def given_def)
    have one: "sq_box s = None \<or> ac_box u = None \<or> sq_box s = ac_box u"
      using assms config Some by (auto simp: add_actor_def Let_def split: if_splits)
    show ?thesis
    proof (cases "t = ac_name u \<and> described t al i = None")
      case True
      then have "s' = s\<lparr>sq_actors := map_set t (u\<lparr>ac_box := kept_box s u\<rparr>) (sq_actors s)\<rparr>"
        using assms config Some one by (auto simp: add_actor_def Let_def split: if_splits)
      then show ?thesis by (rule again [OF Some one])
    next
      case False
      then obtain a where "s' = push_actor t a s" "ac_box a = kept_box s u"
        using assms config Some one by (auto simp: add_actor_def Let_def split: if_splits)
      then show ?thesis by (rule anew [OF Some one]) (use False desc in auto)
    qed
  qed
qed

lemma add_actor_boxes:
  assumes "boxes_ok s" and "add_actor E t i n c s = Inr s'"
  shows "boxes_ok s'"
  using assms(2)
proof (cases rule: add_actor_cases)
  case (new a)
  show ?thesis unfolding new(2) by (rule boxes_ok_push [OF assms(1)]) (use new in \<open>auto simp: actor_box_def\<close>)
next
  case (again u)
  have "actor_box s' k = (if k = t then kept_box s u else actor_box s k)" for k
    by (simp add: again(3) actor_box_def map_of_map_set)
  moreover have "kept_box s u = Some b" if "actor_box s t = Some b" for b
    using that again(1) by (simp add: actor_box_def kept_box_def)
  ultimately show ?thesis using assms(1) by (auto simp: boxes_ok_def again(3))
next
  case (anew u a)
  show ?thesis unfolding anew(3)
    by (rule boxes_ok_push [OF assms(1)]) (use anew in \<open>auto simp: actor_box_def kept_box_def\<close>)
qed

lemma add_signal_same: "add_signal E t r i n act central s = Inr s' \<Longrightarrow> \<exists>m. s' = push_message m s"
  by (auto simp: add_signal_def split: if_splits)

lemma check_pending_same:
  "check_pending from to s = Inr s' \<Longrightarrow> sq_boxes s' = sq_boxes s \<and> sq_actors s' = sq_actors s \<and> sq_box s' = sq_box s"
  by (auto simp: check_pending_def split: if_splits)

interpretation boxes: seq_invariant boxes_ok
proof
  fix w show "boxes_ok (seq_clear\<lparr>sq_wrap := w\<rparr>)" by (simp add: boxes_ok_def seq_clear_def)
next
  fix s E p s'
  assume inv: "boxes_ok s" and step: "seq_apply E p s = Inr s'"
  note same = boxes_ok_same [OF inv]
  show "boxes_ok s'"
  proof (cases p)
    case (AddParticipant t i n c)
    then show ?thesis using step add_actor_boxes [OF inv] by simp
  next
    case (CreateParticipant t i n c)
    then obtain s1 where s1: "add_actor E t i n c (s\<lparr>sq_last_created := Some t\<rparr>) = Inr s1"
        "s' = s1\<lparr>sq_created := (sq_created s1)(t \<mapsto> length (sq_messages s1))\<rparr>"
      using step by (auto split: if_splits)
    have "boxes_ok s1" by (rule add_actor_boxes [OF _ s1(1)]) (rule same, simp_all)
    then show ?thesis by (rule boxes_ok_same) (simp_all add: s1(2))
  next
    case (AddNote a b i)
    then show ?thesis using step by (auto intro!: same simp: push_message_def add_note_def Let_def)
  next
    case (AddMessage f t m n a c)
    then obtain s1 where "check_pending f t s = Inr s1" "add_signal E f t m n a c s1 = Inr s'" using step by auto
    then show ?thesis
      using check_pending_same [of f t s s1] add_signal_same [of E f t m n a c s1 s'] by (auto intro!: same simp: push_message_def)
  next
    case (Signal t i n)
    then show ?thesis using step add_signal_same [of E t None i n False 0 s s'] by (auto intro!: same simp: push_message_def)
  next
    case (BoxStart name wrap fill)
    then show ?thesis using step inv by (auto simp: boxes_ok_def add_box_def actor_box_def nth_append less_Suc_eq)
  qed (use step in \<open>auto intro!: same simp: push_message_def box_end_def\<close>)
qed



text \<open>What is pending stays pending until the next message or the next creation.\<close>

fun starts_pending :: "seq_op \<Rightarrow> bool" where
  "starts_pending (CreateParticipant _ _ _ _) = True"
| "starts_pending (AddMessage _ _ _ _ _ _) = True"
| "starts_pending _ = False"

lemma push_actor_created: "sq_last_created (push_actor t a s) = sq_last_created s"
  by (simp add: push_actor_def Let_def)

lemma add_actor_created: "add_actor E t i n c s = Inr s' \<Longrightarrow> sq_last_created s' = sq_last_created s"
  by (erule add_actor_cases) (simp_all add: push_actor_created)

lemma seq_apply_created: "seq_apply E p s = Inr s' \<Longrightarrow> \<not> starts_pending p \<Longrightarrow> sq_last_created s' = sq_last_created s"
proof (cases p)
  case (Signal t i n)
  then show "seq_apply E p s = Inr s' \<Longrightarrow> ?thesis" using add_signal_same [of E t None i n False 0 s s'] by (auto simp: push_message_def)
qed (auto simp: push_message_def add_actor_created add_note_def add_box_def box_end_def Let_def)

lemma seq_run_created:
  "seq_run E ps s = Inr s' \<Longrightarrow> \<forall>p\<in>set ps. \<not> starts_pending p \<Longrightarrow> sq_last_created s' = sq_last_created s"
proof (induction ps arbitrary: s)
  case (Cons p ps)
  then obtain s1 where "seq_apply E p s = Inr s1" "seq_run E ps s1 = Inr s'" by auto
  then show ?case using Cons seq_apply_created [of E p s s1] by simp
qed simp

lemma seq_run_append: "seq_run E (xs @ ys) s = rbind (seq_run E xs s) (seq_run E ys)"
proof (induction xs arbitrary: s)
  case (Cons x xs)
  then show ?case by (cases "seq_apply E x s") simp_all
qed simp


section \<open>The chain of participants\<close>

text \<open>Every participant is linked to the one recorded before it and to the one recorded after it.\<close>

fun linked :: "ustr option \<Rightarrow> (ustr \<times> seq_actor) list \<Rightarrow> bool" where
  "linked p [] = True"
| "linked p ((k, a) # m) \<longleftrightarrow> ac_prev a = p \<and> ac_next a = (case m of [] \<Rightarrow> None | (j, _) # _ \<Rightarrow> Some j) \<and> linked (Some k) m"

definition chain_ok :: "seq_state \<Rightarrow> bool" where
  "chain_ok s \<longleftrightarrow> distinct (map fst (sq_actors s)) \<and> linked None (sq_actors s) \<and>
     (\<forall>(k, a)\<in>set (sq_actors s). k \<noteq> [] \<and> ac_name a = k) \<and>
     sq_prev s = (if sq_actors s = [] then None else Some (fst (last (sq_actors s))))"

text \<open>Only the first statement about a participant describes it.\<close>

fun defined_once :: "ustr list \<Rightarrow> seq_op list \<Rightarrow> bool" where
  "defined_once ks [] = True"
| "defined_once ks (AddParticipant t i n c # ps) \<longleftrightarrow>
     t \<noteq> [] \<and> (t \<in> set ks \<longrightarrow> i = None \<and> c = None) \<and> defined_once (t # ks) ps"
| "defined_once ks (CreateParticipant t i n c # ps) \<longleftrightarrow> t \<noteq> [] \<and> defined_once (t # ks) ps"
| "defined_once ks (_ # ps) \<longleftrightarrow> defined_once ks ps"

lemma map_set_head: "k \<in> fst ` set m \<Longrightarrow> (case map_set k v m of [] \<Rightarrow> None | (j, _) # _ \<Rightarrow> Some j) = (case m of [] \<Rightarrow> None | (j, _) # _ \<Rightarrow> Some j)"
  by (cases m) auto

lemma linked_same:
  "map_of m k = Some u \<Longrightarrow> ac_prev v = ac_prev u \<Longrightarrow> ac_next v = ac_next u \<Longrightarrow> linked p (map_set k v m) = linked p m"
proof (induction m arbitrary: p)
  case (Cons x m)
  show ?case
  proof (cases "fst x = k")
    case False
    then have "map_of m k = Some u" using Cons.prems(1) by (cases x) auto
    moreover from this have "k \<in> fst ` set m" by (force dest: map_of_SomeD)
    ultimately show ?thesis using False Cons map_set_head [of k m v] by (cases x) simp
  qed (use Cons.prems in \<open>cases x; auto\<close>)
qed simp

lemma linked_extend:
  "linked q (m @ [(p, h)]) \<Longrightarrow> ac_prev a = Some p \<Longrightarrow> ac_next a = None \<Longrightarrow>
   linked q (m @ [(p, h\<lparr>ac_next := Some t\<rparr>), (t, a)])"
proof (induction m arbitrary: q)
  case (Cons x m)
  then show ?case by (cases x; cases m) auto
qed simp

lemma chain_push:
  assumes "chain_ok s" and "t \<notin> fst ` set (sq_actors s)" and "t \<noteq> []" and "ac_prev a = sq_prev s" and "ac_next a = None"
    and "ac_name a = t"
  shows "chain_ok (push_actor t a s) \<and> fst ` set (sq_actors (push_actor t a s)) = insert t (fst ` set (sq_actors s))"
proof (cases "sq_actors s" rule: rev_cases)
  case Nil
  then show ?thesis using assms by (simp add: chain_ok_def push_actor_def Let_def)
next
  case (snoc m x)
  obtain p h where x: "x = (p, h)" by (cases x)
  have p: "p \<noteq> []" "p \<notin> fst ` set m" "sq_prev s = Some p" "t \<noteq> p"
    using assms(1,2) snoc x by (auto simp: chain_ok_def)
  have "map_of m p = None" using p(2) by (simp add: map_of_eq_None_iff)
  then have "map_of (m @ [(p, h), (t, a)]) p = Some h" by (simp add: map_add_def)
  then have actors: "sq_actors (push_actor t a s) = m @ [(p, h\<lparr>ac_next := Some t\<rparr>), (t, a)]"
    using assms(2) snoc x p by (simp add: push_actor_def Let_def map_set_new map_set_at)
  have "linked None (m @ [(p, h\<lparr>ac_next := Some t\<rparr>), (t, a)])"
    by (rule linked_extend) (use assms(1,4,5) snoc x p(3) in \<open>auto simp: chain_ok_def\<close>)
  moreover have "sq_prev (push_actor t a s) = Some t" by (simp add: push_actor_def Let_def)
  ultimately show ?thesis using assms snoc x p actors by (auto simp: chain_ok_def)
qed



lemma chain_again:
  assumes "chain_ok s" and "map_of (sq_actors s) t = Some u"
  shows "chain_ok (s\<lparr>sq_actors := map_set t (u\<lparr>ac_box := b\<rparr>) (sq_actors s)\<rparr>) \<and>
    fst ` set (map_set t (u\<lparr>ac_box := b\<rparr>) (sq_actors s)) = fst ` set (sq_actors s)"
proof -
  let ?v = "u\<lparr>ac_box := b\<rparr>" and ?m = "sq_actors s"
  have mem: "(t, u) \<in> set ?m" using assms(2) by (rule map_of_SomeD)
  then have keys: "map fst (map_set t ?v ?m) = map fst ?m" by (intro map_set_keys) force
  have "(k, a) \<in> set (map_set t ?v m) \<Longrightarrow> (k, a) = (t, ?v) \<or> (k, a) \<in> set m" for k a m
    by (induction m) (auto split: if_splits)
  then have entries: "\<forall>(k, a)\<in>set (map_set t ?v ?m). k \<noteq> [] \<and> ac_name a = k"
    using assms(1) mem by (fastforce simp: chain_ok_def)
  have nonempty: "?m \<noteq> []" "map_set t ?v ?m \<noteq> []" using mem keys by auto
  have last: "fst (last (map_set t ?v ?m)) = fst (last ?m)"
    using arg_cong [OF keys, of last] nonempty by (simp add: last_map)
  have "linked None (map_set t ?v ?m)" using linked_same [OF assms(2), of ?v None] assms(1) by (simp add: chain_ok_def)
  then have "chain_ok (s\<lparr>sq_actors := map_set t ?v ?m\<rparr>)"
    using assms(1) keys entries nonempty last by (simp add: chain_ok_def)
  moreover have "fst ` set (map_set t ?v ?m) = fst ` set ?m" using arg_cong [OF keys, of set] by simp
  ultimately show ?thesis by blast
qed

lemma chain_actor:
  assumes "chain_ok s" and "add_actor E t i n c s = Inr s'" and "t \<noteq> []" and "t \<in> fst ` set (sq_actors s) \<longrightarrow> i = None \<and> c = None"
  shows "chain_ok s' \<and> fst ` set (sq_actors s') = insert t (fst ` set (sq_actors s))"
  using assms(2)
proof (cases rule: add_actor_cases)
  case (new a)
  then have "t \<notin> fst ` set (sq_actors s)" by (simp add: map_of_eq_None_iff)
  then show ?thesis using chain_push [OF assms(1) _ assms(3)] new by simp
next
  case (again u)
  then have "(t, u) \<in> set (sq_actors s)" by (simp add: map_of_SomeD)
  then have "t \<in> fst ` set (sq_actors s)" by (rule image_eqI [rotated]) simp
  then show ?thesis using chain_again [OF assms(1) again(1), of "kept_box s u"] by (simp add: again(3) insert_absorb)
next
  case (anew u a)
  then have mem: "(t, u) \<in> set (sq_actors s)" by (simp add: map_of_SomeD)
  then have "t \<in> fst ` set (sq_actors s)" by (rule image_eqI [rotated]) simp
  moreover have "ac_name u = t" using assms(1) mem by (auto simp: chain_ok_def)
  ultimately show ?thesis using assms(4) anew(5) by simp
qed

lemma chain_same:
  "chain_ok s \<Longrightarrow> sq_actors s' = sq_actors s \<Longrightarrow> sq_prev s' = sq_prev s \<Longrightarrow> chain_ok s'"
  by (simp add: chain_ok_def)

text \<open>The other statements leave the participants alone.\<close>

fun names_actor :: "seq_op \<Rightarrow> bool" where
  "names_actor (AddParticipant _ _ _ _) = True"
| "names_actor (CreateParticipant _ _ _ _) = True"
| "names_actor _ = False"

lemma seq_apply_actors:
  "seq_apply E p s = Inr s' \<Longrightarrow> \<not> names_actor p \<Longrightarrow> sq_actors s' = sq_actors s \<and> sq_prev s' = sq_prev s"
proof (cases p)
  case (AddMessage f t m n a c)
  then show "seq_apply E p s = Inr s' \<Longrightarrow> ?thesis"
    by (auto simp: check_pending_def push_message_def add_signal_def split: if_splits)
next
  case (Signal t i n)
  then show "seq_apply E p s = Inr s' \<Longrightarrow> ?thesis" using add_signal_same [of E t None i n False 0 s s'] by (auto simp: push_message_def)
qed (auto simp: push_message_def add_note_def add_box_def box_end_def Let_def)

lemma chain_run:
  "seq_run E ps s = Inr s' \<Longrightarrow> chain_ok s \<Longrightarrow> defined_once ks ps \<Longrightarrow> fst ` set (sq_actors s) \<subseteq> set ks \<Longrightarrow> chain_ok s'"
proof (induction ps arbitrary: s ks)
  case (Cons p ps)
  obtain s1 where s1: "seq_apply E p s = Inr s1" "seq_run E ps s1 = Inr s'" using Cons.prems(1) by auto
  show ?case
  proof (cases "names_actor p")
    case False
    then have same: "sq_actors s1 = sq_actors s" "sq_prev s1 = sq_prev s" using seq_apply_actors [OF s1(1)] by auto
    have "defined_once ks ps" using Cons.prems(3) False by (cases p) auto
    then show ?thesis using Cons.IH [OF s1(2) chain_same [OF Cons.prems(2) same]] Cons.prems(4) same(1) by simp
  next
    case True
    then consider t i n c where "p = AddParticipant t i n c" | t i n c where "p = CreateParticipant t i n c" by (cases p) auto
    then show ?thesis
    proof cases
      case 1
      have "chain_ok s1 \<and> fst ` set (sq_actors s1) = insert t (fst ` set (sq_actors s))"
        by (rule chain_actor [OF Cons.prems(2)]) (use s1(1) Cons.prems(3,4) 1 in auto)
      then show ?thesis using Cons.IH [OF s1(2), of "t # ks"] Cons.prems(3,4) 1 by auto
    next
      case 2
      then obtain s2 where s2: "add_actor E t i n c (s\<lparr>sq_last_created := Some t\<rparr>) = Inr s2" "t \<notin> fst ` set (sq_actors s)"
          "s1 = s2\<lparr>sq_created := (sq_created s2)(t \<mapsto> length (sq_messages s2))\<rparr>"
        using s1(1) by (auto split: if_splits)
      have "chain_ok (s\<lparr>sq_last_created := Some t\<rparr>)" by (rule chain_same [OF Cons.prems(2)]) simp_all
      then have "chain_ok s2 \<and> fst ` set (sq_actors s2) = insert t (fst ` set (sq_actors s))"
        using chain_actor [OF _ s2(1)] s2(2) Cons.prems(3) 2 by simp
      moreover have "chain_ok s1" if "chain_ok s2" by (rule chain_same [OF that]) (simp_all add: s2(3))
      ultimately show ?thesis using Cons.IH [OF s1(2), of "t # ks"] Cons.prems(3,4) 2 s2(3) by auto
    qed
  qed
qed simp



section \<open>Properties\<close>

text \<open>C20. A bar of activation is never closed before it was opened: in the messages of every accepted diagram, no
  participant has at any place more ends of activation than starts; and closing one is refused exactly for a
  participant without an open bar.\<close>

theorem sequence_activations:
  assumes "seq_run E ps (seq_clear\<lparr>sq_wrap := w\<rparr>) = Inr s"
  shows "(\<forall>k\<le>length (sq_messages s). \<forall>t. 0 \<le> active t (take k (sq_messages s))) \<and>
    (\<forall>t i. (\<exists>s'. seq_apply E (Signal t i ACTIVE_END) s = Inr s') \<longleftrightarrow> given t \<and> 0 < active t (sq_messages s))"
proof
  show "\<forall>k\<le>length (sq_messages s). \<forall>t. 0 \<le> active t (take k (sq_messages s))"
    using bars.reached [OF assms] by (simp add: bars_ok_def)
  show "\<forall>t i. (\<exists>s'. seq_apply E (Signal t i ACTIVE_END) s = Inr s') \<longleftrightarrow> given t \<and> 0 < active t (sq_messages s)"
    by (auto simp: add_signal_def activation_count_active)
qed


text \<open>No participant is listed in two boxes: whoever is in the list of a box is recorded as being in that box.\<close>

lemma listed_in_one_box:
  assumes "seq_run E ps (seq_clear\<lparr>sq_wrap := w\<rparr>) = Inr s" and "b < length (sq_boxes s)" and "k \<in> set (bx_keys (sq_boxes s ! b))"
  shows "actor_box s k = Some b"
  using boxes.reached [OF assms(1)] assms(2,3) by (simp add: boxes_ok_def)

text \<open>When only the first statement about a participant describes it, the participants are a chain in the order in
  which they were first named: each is linked to the one before and the one after.\<close>

lemma participants_chained:
  assumes "seq_run E ps (seq_clear\<lparr>sq_wrap := w\<rparr>) = Inr s" and "defined_once [] ps"
  shows "distinct (map fst (sq_actors s)) \<and> linked None (sq_actors s)"
proof -
  have "chain_ok (seq_clear\<lparr>sq_wrap := w\<rparr>)" by (simp add: chain_ok_def seq_clear_def)
  then show ?thesis
    using chain_run [OF assms(1) _ assms(2)] by (auto simp: chain_ok_def seq_clear_def)
qed

text \<open>Described a second time, the participant recorded last becomes its own neighbour.\<close>

lemma redefined_actor_self_link:
  assumes "sq_prev s = Some t" and "t \<noteq> []"
  shows "\<exists>h. map_of (sq_actors (push_actor t a s)) t = Some h \<and> ac_next h = Some t"
  using assms by (simp add: push_actor_def Let_def map_of_map_set)

text \<open>Named in a box after it was named outside, a participant is recorded as being in the box but not listed there.\<close>

lemma late_member_not_listed:
  assumes "map_of (sq_actors s) t = Some u" and "ac_name u = t" and "ac_box u = None" and "sq_box s = Some b"
  shows "\<exists>s'. seq_apply E (AddParticipant t None n None) s = Inr s' \<and> actor_box s' t = Some b \<and> sq_boxes s' = sq_boxes s"
  using assms by (simp add: add_actor_def read_config_def described_def given_def kept_box_def actor_box_def map_of_map_set)


section \<open>Witnesses\<close>

definition demo_env :: seq_env where
  "demo_env = \<lparr>sv_wrap = False, sv_yaml = (\<lambda>_. Some (None, None))\<rparr>"

text \<open>A box with Alice; Alice calls Bob, whose bar opens; Carl is created and greeted; Bob's bar ends.\<close>

definition demo_sequence :: "seq_op list" where
  "demo_sequence =
     [BoxStart (Some (lit ''Team'')) None (lit ''blue''), AddParticipant (lit ''A'') None (Some (lit ''actor'')) None, BoxEnd,
      AddParticipant (lit ''A'') None None None, AddParticipant (lit ''B'') None None None,
      AddMessage (Some (lit ''A'')) (Some (lit ''B'')) None 0 True 0, Signal (Some (lit ''B'')) None ACTIVE_START,
      CreateParticipant (lit ''C'') None (Some (lit ''participant'')) None,
      AddParticipant (lit ''B'') None None None, AddParticipant (lit ''C'') None None None,
      AddMessage (Some (lit ''B'')) (Some (lit ''C'')) None 0 False 0, Signal (Some (lit ''B'')) None ACTIVE_END]"

definition demo_sequence_end :: seq_state where
  "demo_sequence_end = (case seq_run demo_env demo_sequence seq_clear of Inl _ \<Rightarrow> seq_clear | Inr s \<Rightarrow> s)"

lemma demo_sequence_run: "seq_run demo_env demo_sequence (seq_clear\<lparr>sq_wrap := None\<rparr>) = Inr demo_sequence_end"
proof -
  have "case seq_run demo_env demo_sequence seq_clear of Inl _ \<Rightarrow> False | Inr _ \<Rightarrow> True" by code_simp
  then have "seq_run demo_env demo_sequence seq_clear = Inr demo_sequence_end"
    by (auto simp: demo_sequence_end_def split: sum.splits)
  moreover have "seq_clear\<lparr>sq_wrap := None\<rparr> = seq_clear" by (simp add: seq_clear_def)
  ultimately show ?thesis by simp
qed

lemma sequence_activations_witness:
  "length (sq_messages demo_sequence_end) = 4 \<and> 0 \<le> active (Some (lit ''B'')) (take 3 (sq_messages demo_sequence_end))"
proof -
  have "length (sq_messages demo_sequence_end) = 4" by code_simp
  moreover from this have "3 \<le> length (sq_messages demo_sequence_end)" by simp
  then have "0 \<le> active (Some (lit ''B'')) (take 3 (sq_messages demo_sequence_end))"
    using sequence_activations [OF demo_sequence_run] by blast
  ultimately show ?thesis by blast
qed


end
