(* ===== verification/Packet_Diagram.thy ===== *)
theory Packet_Diagram
  imports Rust_Str
begin

text \<open>
  Packet diagrams of \<open>docs/mermaid.tiny.js\<close> (line 2226): the blocks of bits of a packet are checked, laid out in
  rows of \<open>bitsPerRow\<close> bits, cut where a row ends, and placed on the drawing. Positions and pixels are whole
  numbers, unbounded here; they are exact in the code up to \<open>2 ^ 53\<close>.
\<close>

section \<open>Blocks and rows\<close>

text \<open>A block as parsed, where \<open>None\<close> is \<open>undefined\<close>, and a block of a row.\<close>

record block_in =
  bi_start :: "int option"
  bi_end :: "int option"
  bi_bits :: "int option"
  bi_label :: ustr

record packet_block =
  pb_start :: int
  pb_end :: int
  pb_bits :: int
  pb_label :: ustr

datatype packet_error =
    EndBeforeStart int int
  | NotContiguous int int int
  | ZeroBits int
  | StartAfterEnd int int

text \<open>\<open>getNextFittingBlock\<close>: what of a block fits into row \<open>t\<close> of \<open>r\<close> bits, and the rest.\<close>

definition next_fitting :: "packet_block \<Rightarrow> int \<Rightarrow> int \<Rightarrow> packet_error + packet_block \<times> packet_block option" where
  "next_fitting e t r =
     (if pb_end e < pb_start e then Inl (StartAfterEnd (pb_start e) (pb_end e))
      else if pb_end e + 1 \<le> t * r then Inr (e, None)
      else let i = t * r - 1; n = t * r in
        Inr (\<lparr>pb_start = pb_start e, pb_end = i, pb_bits = i - pb_start e, pb_label = pb_label e\<rparr>,
          Some \<lparr>pb_start = n, pb_end = pb_end e, pb_bits = pb_end e - n, pb_label = pb_label e\<rparr>))"

definition max_packet_size :: nat where
  "max_packet_size = 10000"

text \<open>\<open>pushWord\<close>\<close>

definition push_word :: "packet_block list \<Rightarrow> packet_block list list \<Rightarrow> packet_block list list" where
  "push_word t packet = (if t = [] then packet else packet @ [t])"

text \<open>The state of \<open>populate\<close>: the rows of the packet, the row being filled (\<open>i\<close>), its number (\<open>n\<close>) and the last bit (\<open>r\<close>).\<close>

record packet_state =
  ps_packet :: "packet_block list list"
  ps_word :: "packet_block list"
  ps_row :: int
  ps_last :: int

definition place_piece :: "int \<Rightarrow> packet_block \<Rightarrow> packet_state \<Rightarrow> packet_state" where
  "place_piece s d st =
     (let i = ps_word st @ [d] in
      if pb_end d + 1 = ps_row st * s
      then st\<lparr>ps_packet := push_word i (ps_packet st), ps_word := [], ps_row := ps_row st + 1\<rparr>
      else st\<lparr>ps_word := i\<rparr>)"

text \<open>The loop that cuts a block. Every turn makes the row longer or the packet, and both are bounded.\<close>

function fill_rows :: "int \<Rightarrow> packet_block \<Rightarrow> packet_state \<Rightarrow> packet_error + packet_state" where
  "fill_rows s e st =
     (if int (length (ps_word st)) \<le> s + 1 \<and> length (ps_packet st) < max_packet_size then
        (case next_fitting e (ps_row st) s of
           Inl x \<Rightarrow> Inl x
         | Inr (d, None) \<Rightarrow> Inr (place_piece s d st)
         | Inr (d, Some f) \<Rightarrow> fill_rows s f (place_piece s d st))
      else Inr st)"
  by pat_completeness auto

termination
  by (relation "measures [\<lambda>(s, e, st). max_packet_size - length (ps_packet st),
        \<lambda>(s, e, st). nat (s + 2 - int (length (ps_word st)))]")
    (auto simp: place_piece_def push_word_def Let_def)

declare fill_rows.simps [simp del]

text \<open>The checks on a block and its bounds, and the whole of \<open>populate\<close>.\<close>

definition check_block :: "int \<Rightarrow> block_in \<Rightarrow> packet_error + packet_block" where
  "check_block r b =
     rbind (case (bi_start b, bi_end b) of
        (Some o0, Some l) \<Rightarrow> if l < o0 then Inl (EndBeforeStart o0 l) else Inr ()
      | _ \<Rightarrow> Inr ()) (\<lambda>_.
      let st = (case bi_start b of None \<Rightarrow> r + 1 | Some o0 \<Rightarrow> o0) in
      if st \<noteq> r + 1 then Inl (NotContiguous st (case bi_end b of None \<Rightarrow> st | Some l \<Rightarrow> l) (r + 1))
      else if bi_bits b = Some 0 then Inl (ZeroBits st)
      else let l = (case bi_end b of None \<Rightarrow> st + (case bi_bits b of None \<Rightarrow> 1 | Some u \<Rightarrow> u) - 1 | Some l \<Rightarrow> l) in
        Inr \<lparr>pb_start = st, pb_end = l, pb_bits = (case bi_bits b of None \<Rightarrow> l - st + 1 | Some u \<Rightarrow> u),
          pb_label = bi_label b\<rparr>)"

definition place_block :: "int \<Rightarrow> block_in \<Rightarrow> packet_state \<Rightarrow> packet_error + packet_state" where
  "place_block s b st =
     rbind (check_block (ps_last st) b) (\<lambda>e. fill_rows s e (st\<lparr>ps_last := pb_end e\<rparr>))"

fun place_blocks :: "int \<Rightarrow> block_in list \<Rightarrow> packet_state \<Rightarrow> packet_error + packet_state" where
  "place_blocks s [] st = Inr st"
| "place_blocks s (b # bs) st = rbind (place_block s b st) (place_blocks s bs)"

definition packet_start :: packet_state where
  "packet_start = \<lparr>ps_packet = [], ps_word = [], ps_row = 1, ps_last = -1\<rparr>"

definition packet_populate :: "int \<Rightarrow> block_in list \<Rightarrow> packet_error + packet_block list list" where
  "packet_populate s bs = rbind (place_blocks s bs packet_start) (\<lambda>st. Inr (push_word (ps_word st) (ps_packet st)))"


section \<open>The bits of a packet\<close>

text \<open>The bits that a block covers, each with its number and the label it has on the drawing.\<close>

definition block_bits :: "packet_block \<Rightarrow> (int \<times> ustr) list" where
  "block_bits p = map (\<lambda>k. (k, pb_label p)) [pb_start p..pb_end p]"

definition row_bits :: "packet_block list \<Rightarrow> (int \<times> ustr) list" where
  "row_bits w = concat (map block_bits w)"

text \<open>What the text asks for: every block covers the bits after the last one, \<open>r\<close>, to its end.\<close>

definition block_end :: "int \<Rightarrow> block_in \<Rightarrow> int" where
  "block_end r b = (case bi_end b of None \<Rightarrow> r + (case bi_bits b of None \<Rightarrow> 1 | Some u \<Rightarrow> u) | Some l \<Rightarrow> l)"

fun packet_bits :: "int \<Rightarrow> block_in list \<Rightarrow> (int \<times> ustr) list" where
  "packet_bits r [] = []"
| "packet_bits r (b # bs) = map (\<lambda>k. (k, bi_label b)) [r + 1..block_end r b] @ packet_bits (block_end r b) bs"

text \<open>Row \<open>j\<close> of rows of \<open>s\<close> elements.\<close>

definition nth_row :: "nat \<Rightarrow> 'a list \<Rightarrow> nat \<Rightarrow> 'a list" where
  "nth_row s xs j = take s (drop (j * s) xs)"

lemma nth_row_append: "Suc j * s \<le> length xs \<Longrightarrow> nth_row s (xs @ ys) j = nth_row s xs j"
  by (auto simp: nth_row_def)

lemma row_bits_simps [simp]:
  "row_bits [] = []" "row_bits (w @ v) = row_bits w @ row_bits v" "row_bits (d # w) = block_bits d @ row_bits w"
  by (simp_all add: row_bits_def)

lemma length_block_bits [simp]: "length (block_bits p) = nat (pb_end p + 1 - pb_start p)"
  by (simp add: block_bits_def)

lemma block_bits_split:
  assumes "pb_start p \<le> m" and "m \<le> pb_end p"
  shows "block_bits p = block_bits (p\<lparr>pb_end := m - 1, pb_bits := x\<rparr>) @ block_bits (p\<lparr>pb_start := m, pb_bits := y\<rparr>)"
proof -
  have "[pb_start p..pb_end p] = [pb_start p..m - 1] @ [m..pb_end p]"
    using assms by (rule upto_split1)
  then show ?thesis by (simp add: block_bits_def)
qed

definition proper :: "packet_block list \<Rightarrow> bool" where
  "proper w \<longleftrightarrow> (\<forall>p\<in>set w. pb_start p \<le> pb_end p)"

lemma proper_simps [simp]: "proper []" "proper (p # w) \<longleftrightarrow> pb_start p \<le> pb_end p \<and> proper w"
  "proper (v @ w) \<longleftrightarrow> proper v \<and> proper w"
  by (auto simp: proper_def)

text \<open>
  With \<open>s\<close> bits in a row and all bits up to now in \<open>B\<close>: the rows are full, the row being filled holds what is left
  over and has room, unless the packet has as many rows as it may have.
\<close>

definition rows_inv :: "nat \<Rightarrow> (int \<times> ustr) list \<Rightarrow> packet_state \<Rightarrow> bool" where
  "rows_inv s B st \<longleftrightarrow>
     (let k = length (ps_packet st) in
      ps_row st = int k + 1 \<and> k \<le> max_packet_size \<and> k * s \<le> length B \<and>
      map row_bits (ps_packet st) = map (nth_row s B) [0..<k] \<and>
      (\<forall>w\<in>set (ps_word st # ps_packet st). proper w) \<and>
      (if k < max_packet_size
       then length B < Suc k * s \<and> row_bits (ps_word st) = drop (k * s) B \<and>
         length (ps_word st) \<le> length (row_bits (ps_word st))
       else ps_word st = []))"

lemma rows_inv_last [simp]: "rows_inv s B (st\<lparr>ps_last := r\<rparr>) = rows_inv s B st"
  by (simp add: rows_inv_def)

lemma old_rows: "k * s \<le> length B \<Longrightarrow> map (nth_row s (B @ C)) [0..<k] = map (nth_row s B) [0..<k]"
proof (rule map_cong [OF refl])
  fix j assume "k * s \<le> length B" and "j \<in> set [0..<k]"
  then have "Suc j * s \<le> k * s" by (intro mult_le_mono1) auto
  then show "nth_row s (B @ C) j = nth_row s B j" using \<open>k * s \<le> length B\<close> by (intro nth_row_append) linarith
qed

lemma place_piece_inv:
  assumes inv: "rows_inv s B st" and room: "length (ps_packet st) < max_packet_size" and start: "pb_start d = int (length B)"
    and fits: "pb_start d \<le> pb_end d" "pb_end d + 1 \<le> ps_row st * int s"
  shows "rows_inv s (B @ block_bits d) (place_piece (int s) d st)"
proof -
  let ?k = "length (ps_packet st)" and ?B = "B @ block_bits d"
  have k: "ps_row st = int ?k + 1" "?k * s \<le> length B" "row_bits (ps_word st) = drop (?k * s) B"
    "map row_bits (ps_packet st) = map (nth_row s B) [0..<?k]" "length (ps_word st) \<le> length (row_bits (ps_word st))"
    "\<forall>w\<in>set (ps_word st # ps_packet st). proper w"
    using inv unfolding rows_inv_def Let_def if_P [OF room] by blast+
  have row: "ps_row st * int s = int (Suc ?k * s)" using k(1) by (simp add: algebra_simps)
  have len: "int (length ?B) = pb_end d + 1" using start fits(1) by simp
  have word: "row_bits (ps_word st @ [d]) = drop (?k * s) ?B" using k(2,3) by simp
  have size: "length (ps_word st @ [d]) \<le> length (row_bits (ps_word st @ [d]))" using k(5) fits(1) by simp
  have old: "map row_bits (ps_packet st) = map (nth_row s ?B) [0..<?k]" using k(4) old_rows [OF k(2)] by simp
  show ?thesis
  proof (cases "pb_end d + 1 = ps_row st * int s")
    case True
    then have full: "length ?B = Suc ?k * s" using len row by linarith
    then have "row_bits (ps_word st @ [d]) = nth_row s ?B ?k" using word by (simp add: nth_row_def)
    moreover have "0 < s" using fits start by (cases s) auto
    ultimately show ?thesis
      using True old full k(1,6) room fits(1)
      by (auto simp: rows_inv_def place_piece_def push_word_def Let_def)
  next
    case False
    then have "length ?B < Suc ?k * s" using len row fits(2) by linarith
    then show ?thesis
      using False old word size k(1,2,6) room fits(1) by (simp add: rows_inv_def place_piece_def Let_def)
  qed
qed


lemma fill_rows_inv:
  "rows_inv s B st \<Longrightarrow> 0 < s \<Longrightarrow> pb_start e = int (length B) \<Longrightarrow> pb_start e \<le> pb_end e \<Longrightarrow>
   \<exists>st'. fill_rows (int s) e st = Inr st' \<and> rows_inv s (B @ block_bits e) st' \<and> ps_last st' = ps_last st"
proof (induction "int s" e st arbitrary: B rule: fill_rows.induct)
  case (1 e st)
  let ?k = "length (ps_packet st)"
  note inv = 1(2) and s = 1(3) and start = 1(4) and wf = 1(5)
  show ?case
  proof (cases "?k < max_packet_size")
    case False
    then have k: "?k = max_packet_size" "ps_row st = int ?k + 1" "?k * s \<le> length B"
        "map row_bits (ps_packet st) = map (nth_row s B) [0..<?k]" "ps_word st = []"
        "\<forall>w\<in>set (ps_packet st). proper w"
      using inv by (auto simp: rows_inv_def Let_def)
    then have "rows_inv s (B @ block_bits e) st"
      using old_rows [OF k(3)] by (simp add: rows_inv_def)
    then show ?thesis using k(1) by (simp add: fill_rows.simps)
  next
    case room: True
    have k: "ps_row st = int ?k + 1" "?k * s \<le> length B" "length B < Suc ?k * s"
        "length (ps_word st) \<le> length (row_bits (ps_word st))" "row_bits (ps_word st) = drop (?k * s) B"
      using inv unfolding rows_inv_def Let_def if_P [OF room] by blast+
    have guard: "int (length (ps_word st)) \<le> int s + 1 \<and> ?k < max_packet_size"
      using k(2-5) room by simp
    have row: "ps_row st * int s = int (Suc ?k * s)" using k(1) by (simp add: algebra_simps)
    show ?thesis
    proof (cases "pb_end e + 1 \<le> ps_row st * int s")
      case True
      then have fit: "next_fitting e (ps_row st) (int s) = Inr (e, None)" using wf by (simp add: next_fitting_def)
      show ?thesis
        using place_piece_inv [OF inv room start wf True] guard fit
        by (subst fill_rows.simps) (simp add: place_piece_def Let_def)
    next
      case False
      let ?m = "ps_row st * int s"
      let ?d = "e\<lparr>pb_end := ?m - 1, pb_bits := ?m - 1 - pb_start e\<rparr>" and ?f = "e\<lparr>pb_start := ?m, pb_bits := pb_end e - ?m\<rparr>"
      have fit: "next_fitting e (ps_row st) (int s) = Inr (?d, Some ?f)"
        using wf False by (cases e) (simp add: next_fitting_def Let_def)
      have m: "pb_start e < ?m" "?m \<le> pb_end e" using start k(3) row False by linarith+
      have inv': "rows_inv s (B @ block_bits ?d) (place_piece (int s) ?d st)"
        by (rule place_piece_inv [OF inv room]) (use start m in simp_all)
      have "\<exists>st'. fill_rows (int s) ?f (place_piece (int s) ?d st) = Inr st' \<and>
          rows_inv s ((B @ block_bits ?d) @ block_bits ?f) st' \<and> ps_last st' = ps_last (place_piece (int s) ?d st)"
        by (rule 1(1) [OF guard fit refl refl inv' s]) (use start m in simp_all)
      moreover have "(B @ block_bits ?d) @ block_bits ?f = B @ block_bits e"
        using block_bits_split [of e ?m] m by simp
      ultimately show ?thesis
        using guard fit by (subst fill_rows.simps) (simp add: place_piece_def Let_def)
    qed
  qed
qed


text \<open>What the grammar makes: \<open>start\<close>, \<open>start-end\<close> or \<open>+bits\<close>, of digits.\<close>

definition parsed_block :: "block_in \<Rightarrow> bool" where
  "parsed_block b \<longleftrightarrow>
     (case bi_start b of
        None \<Rightarrow> bi_end b = None \<and> (\<exists>u. bi_bits b = Some u \<and> 0 \<le> u)
      | Some o0 \<Rightarrow> bi_bits b = None)"

text \<open>Every block begins after the last one and has at least one bit.\<close>

fun contiguous :: "int \<Rightarrow> block_in list \<Rightarrow> bool" where
  "contiguous r [] \<longleftrightarrow> True"
| "contiguous r (b # bs) \<longleftrightarrow>
     bi_start b \<in> {None, Some (r + 1)} \<and> r < block_end r b \<and> contiguous (block_end r b) bs"

lemma check_block_parsed:
  assumes "parsed_block b"
  shows "bi_start b \<in> {None, Some (r + 1)} \<Longrightarrow> r < block_end r b \<Longrightarrow>
      check_block r b = Inr \<lparr>pb_start = r + 1, pb_end = block_end r b, pb_bits = block_end r b - r, pb_label = bi_label b\<rparr>"
    and "check_block r b = Inr e \<Longrightarrow> bi_start b \<in> {None, Some (r + 1)} \<and> r < block_end r b"
  using assms by (auto simp: parsed_block_def check_block_def block_end_def Let_def split: option.splits if_splits)

lemma place_blocks_inv:
  "rows_inv s B st \<Longrightarrow> 0 < s \<Longrightarrow> ps_last st + 1 = int (length B) \<Longrightarrow> \<forall>b\<in>set bs. parsed_block b \<Longrightarrow>
   (case place_blocks (int s) bs st of
      Inl x \<Rightarrow> \<not> contiguous (ps_last st) bs
    | Inr st' \<Rightarrow> contiguous (ps_last st) bs \<and> rows_inv s (B @ packet_bits (ps_last st) bs) st')"
proof (induction bs arbitrary: B st)
  case (Cons b bs)
  let ?r = "ps_last st" and ?l = "block_end (ps_last st) b"
  have b: "parsed_block b" using Cons.prems(4) by simp
  show ?case
  proof (cases "bi_start b \<in> {None, Some (?r + 1)} \<and> ?r < ?l")
    case False
    then show ?thesis
      using check_block_parsed(2) [OF b, of ?r] by (cases "check_block ?r b") (auto simp: place_block_def)
  next
    case True
    let ?e = "\<lparr>pb_start = ?r + 1, pb_end = ?l, pb_bits = ?l - ?r, pb_label = bi_label b\<rparr>"
    have e: "check_block ?r b = Inr ?e" using check_block_parsed(1) [OF b, of ?r] True by blast
    have "\<exists>st'. fill_rows (int s) ?e (st\<lparr>ps_last := ?l\<rparr>) = Inr st' \<and> rows_inv s (B @ block_bits ?e) st' \<and>
        ps_last st' = ps_last (st\<lparr>ps_last := ?l\<rparr>)"
      by (rule fill_rows_inv) (use Cons.prems True in simp_all)
    then obtain st' where st': "fill_rows (int s) ?e (st\<lparr>ps_last := ?l\<rparr>) = Inr st'" "rows_inv s (B @ block_bits ?e) st'"
        "ps_last st' = ?l"
      by auto
    have "ps_last st' + 1 = int (length (B @ block_bits ?e))" using Cons.prems(3) st'(3) True by simp
    from Cons.IH [OF st'(2) Cons.prems(2) this] Cons.prems(4)
    have IH: "case place_blocks (int s) bs st' of Inl x \<Rightarrow> \<not> contiguous ?l bs
        | Inr st'' \<Rightarrow> contiguous ?l bs \<and> rows_inv s ((B @ block_bits ?e) @ packet_bits ?l bs) st''"
      unfolding st'(3) by simp
    have "place_blocks (int s) (b # bs) st = place_blocks (int s) bs st'"
      using e st'(1) by (simp add: place_block_def)
    moreover have "B @ packet_bits ?r (b # bs) = (B @ block_bits ?e) @ packet_bits ?l bs"
      by (simp add: block_bits_def)
    ultimately show ?thesis
      using IH True by (cases "place_blocks (int s) bs st'") (simp_all del: packet_bits.simps place_blocks.simps)
  qed
qed simp


lemma rows_inv_start: "0 < s \<Longrightarrow> rows_inv s [] packet_start"
  by (simp add: rows_inv_def packet_start_def max_packet_size_def)

lemma packet_start_last: "ps_last packet_start = -1"
  by (simp add: packet_start_def)

text \<open>When the last row is pushed, the rows are those of all bits, or the first ones of them.\<close>

definition row_count :: "nat \<Rightarrow> 'a list \<Rightarrow> nat" where
  "row_count s xs = min max_packet_size ((length xs + s - 1) div s)"

lemma rows_inv_finish:
  assumes "rows_inv s B st" and "0 < s"
  shows "map row_bits (push_word (ps_word st) (ps_packet st)) = map (nth_row s B) [0..<row_count s B] \<and>
    (\<forall>w\<in>set (push_word (ps_word st) (ps_packet st)). proper w)"
proof -
  let ?k = "length (ps_packet st)"
  have k: "?k \<le> max_packet_size" "?k * s \<le> length B" "map row_bits (ps_packet st) = map (nth_row s B) [0..<?k]"
      "\<forall>w\<in>set (ps_word st # ps_packet st). proper w"
    using assms(1) by (auto simp: rows_inv_def Let_def)
  show ?thesis
  proof (cases "?k < max_packet_size")
    case False
    then have full: "?k = max_packet_size" "ps_word st = []" using k(1) assms(1) by (auto simp: rows_inv_def Let_def)
    have "?k \<le> (length B + s - 1) div s"
      using k(2) assms(2) by (simp add: less_eq_div_iff_mult_less_eq)
    then show ?thesis using k(3,4) full by (simp add: row_count_def push_word_def)
  next
    case room: True
    have w: "length B < Suc ?k * s" "row_bits (ps_word st) = drop (?k * s) B" "length (ps_word st) \<le> length (row_bits (ps_word st))"
      using assms(1) unfolding rows_inv_def Let_def if_P [OF room] by blast+
    show ?thesis
    proof (cases "ps_word st = []")
      case True
      then have "length B = ?k * s" using w(2) k(2) by simp
      then have "(length B + s - 1) div s = ?k" using assms(2) by (intro div_nat_eqI) (auto simp: mult.commute)
      then show ?thesis using True room k(3,4) by (simp add: row_count_def push_word_def)
    next
      case False
      then have "?k * s < length B" using w(2,3) by (cases "length B \<le> ?k * s") auto
      then have "(length B + s - 1) div s = Suc ?k"
        using w(1) assms(2) by (intro div_nat_eqI) (auto simp: mult.commute)
      moreover have "row_bits (ps_word st) = nth_row s B ?k" using w(1,2) by (simp add: nth_row_def)
      ultimately show ?thesis using False room k(3,4) by (simp add: row_count_def push_word_def)
    qed
  qed
qed

lemma packet_populate_spec:
  assumes "0 < s" and "\<forall>b\<in>set bs. parsed_block b"
  shows "case packet_populate (int s) bs of
      Inl x \<Rightarrow> \<not> contiguous (-1) bs
    | Inr rows \<Rightarrow> contiguous (-1) bs \<and> (\<forall>w\<in>set rows. proper w) \<and>
        map row_bits rows = map (nth_row s (packet_bits (-1) bs)) [0..<row_count s (packet_bits (-1) bs)]"
proof -
  have "case place_blocks (int s) bs packet_start of Inl x \<Rightarrow> \<not> contiguous (-1) bs
      | Inr st \<Rightarrow> contiguous (-1) bs \<and> rows_inv s (packet_bits (-1) bs) st"
    using place_blocks_inv [OF rows_inv_start [OF assms(1)] assms(1) _ assms(2)] unfolding packet_start_last append_Nil by simp
  then show ?thesis
    using rows_inv_finish [OF _ assms(1)] by (auto simp: packet_populate_def split: sum.splits)
qed


section \<open>The drawing\<close>

text \<open>The options of packet diagrams; \<open>getConfig\<close> makes room for the numbers of the bits.\<close>

record packet_config =
  row_height :: int
  padding_x :: int
  padding_y :: int
  bit_width :: int
  bits_per_row :: int
  show_bits :: bool

definition packet_get_config :: "packet_config \<Rightarrow> packet_config" where
  "packet_get_config t = (if show_bits t then t\<lparr>padding_y := padding_y t + 10\<rparr> else t)"

record rect =
  rx :: int
  ry :: int
  rwidth :: int
  rheight :: int

text \<open>\<open>drawWord\<close>: the rectangle of block \<open>f\<close> of row \<open>r\<close>. The start of a block is not negative, so \<open>%\<close> is \<open>mod\<close>.\<close>

definition block_rect :: "packet_config \<Rightarrow> nat \<Rightarrow> packet_block \<Rightarrow> rect" where
  "block_rect c r f =
     \<lparr>rx = pb_start f mod bits_per_row c * bit_width c + 1, ry = int r * (row_height c + padding_y c) + padding_y c,
      rwidth = (pb_end f - pb_start f + 1) * bit_width c - padding_x c, rheight = row_height c\<rparr>"

definition packet_rects :: "packet_config \<Rightarrow> packet_block list list \<Rightarrow> rect list" where
  "packet_rects c packet = concat (map (\<lambda>(r, w). map (block_rect c r) w) (enumerate 0 packet))"

text \<open>\<open>draw\<close>: the size of the drawing, with or without a title.\<close>

definition packet_size :: "packet_config \<Rightarrow> bool \<Rightarrow> packet_block list list \<Rightarrow> int \<times> int" where
  "packet_size c titled packet =
     (bit_width c * bits_per_row c + 2,
      (row_height c + padding_y c) * (int (length packet) + 1) - (if titled then 0 else row_height c))"

definition disjoint_rects :: "rect \<Rightarrow> rect \<Rightarrow> bool" where
  "disjoint_rects a b \<longleftrightarrow> rx a + rwidth a \<le> rx b \<or> rx b + rwidth b \<le> rx a \<or> ry a + rheight a \<le> ry b \<or> ry b + rheight b \<le> ry a"

definition inside :: "int \<times> int \<Rightarrow> rect \<Rightarrow> bool" where
  "inside box a \<longleftrightarrow> 0 \<le> rx a \<and> 0 \<le> ry a \<and> rx a + rwidth a \<le> fst box \<and> ry a + rheight a \<le> snd box"

lemma packet_bits_numbers: "contiguous r bs \<Longrightarrow> map fst (packet_bits r bs) = [r + 1..r + int (length (packet_bits r bs))]"
proof (induction bs arbitrary: r)
  case (Cons b bs)
  let ?l = "block_end r b"
  have IH: "map fst (packet_bits ?l bs) = [?l + 1..?l + int (length (packet_bits ?l bs))]" and l: "r < ?l"
    using Cons by auto
  have "map fst (packet_bits r (b # bs)) = [r + 1..?l] @ [?l + 1..?l + int (length (packet_bits ?l bs))]"
    using IH by (simp add: comp_def)
  also have "\<dots> = [r + 1..?l + int (length (packet_bits ?l bs))]"
    using l upto_split2 [of "r + 1" ?l "?l + int (length (packet_bits ?l bs))"] by simp
  also have "?l + int (length (packet_bits ?l bs)) = r + int (length (packet_bits r (b # bs)))"
    using l by simp
  finally show ?case .
qed simp

text \<open>The pieces of a row of consecutive bits lie one after the other between its bounds.\<close>

lemma row_pieces:
  "map fst (row_bits w) = [a..b] \<Longrightarrow> proper w \<Longrightarrow>
   sorted_wrt (\<lambda>p q. pb_end p < pb_start q) w \<and> (\<forall>p\<in>set w. a \<le> pb_start p \<and> pb_end p \<le> b)"
proof (induction w arbitrary: a)
  case (Cons p w)
  have p: "pb_start p \<le> pb_end p" "proper w" using Cons.prems(2) by auto
  have eq: "[pb_start p..pb_end p] @ map fst (row_bits w) = [a..b]"
    using Cons.prems(1) by (simp add: block_bits_def comp_def)
  then have "a \<le> b" using p(1) by (cases "a \<le> b") auto
  then have a: "a = pb_start p" using eq p(1) by (simp add: upto_rec1)
  have "pb_end p \<in> set [a..b]" unfolding eq [symmetric] using p(1) by simp
  then have le: "pb_end p \<le> b" by simp
  have "[a..b] = [a..pb_end p] @ [pb_end p + 1..b]" using upto_split2 [of a "pb_end p" b] p(1) a le by simp
  then have "map fst (row_bits w) = [pb_end p + 1..b]" using eq a by simp
  from Cons.IH [OF this p(2)] show ?case using a le p(1) by auto
qed simp


lemma map_int_upt: "map int [a..<b] = [int a..int b - 1]"
proof (induction b)
  case (Suc b)
  then show ?case by (cases "a \<le> b") (auto simp: upto_rec2)
qed auto

lemma take_upt_min: "take s [k..<n] = [k..<min (k + s) n]"
  by (cases "k + s \<le> n") (simp_all add: take_upt)

lemma row_numbers:
  assumes "packet_populate (int s) bs = Inr rows" and "0 < s" and "\<forall>b\<in>set bs. parsed_block b" and "j < length rows"
  shows "\<exists>m\<le>Suc j * s. map fst (row_bits (rows ! j)) = [int (j * s)..int m - 1] \<and> proper (rows ! j)"
proof -
  let ?B = "packet_bits (-1) bs"
  have spec: "contiguous (-1) bs" "\<forall>w\<in>set rows. proper w" "map row_bits rows = map (nth_row s ?B) [0..<row_count s ?B]"
    using packet_populate_spec [OF assms(2,3)] assms(1) by simp_all
  have len: "length rows = row_count s ?B" using arg_cong [OF spec(3), of length] by simp
  have "row_bits (rows ! j) = nth_row s ?B j"
    using arg_cong [OF spec(3), of "\<lambda>xs. xs ! j"] assms(4) len by simp
  moreover have "map fst ?B = map int [0..<length ?B]"
    using packet_bits_numbers [OF spec(1)] by (simp add: map_int_upt)
  moreover have "map fst (nth_row s ?B j) = nth_row s (map fst ?B) j" by (simp add: nth_row_def take_map drop_map)
  ultimately have "map fst (row_bits (rows ! j)) = nth_row s (map int [0..<length ?B]) j" by simp
  also have "\<dots> = map int [j * s..<min (Suc j * s) (length ?B)]"
    by (simp add: nth_row_def take_map drop_map take_upt_min add.commute)
  finally have "map fst (row_bits (rows ! j)) = map int [j * s..<min (Suc j * s) (length ?B)]" .
  moreover have "min (Suc j * s) (length ?B) \<le> Suc j * s" by simp
  ultimately show ?thesis using spec(2) assms(4) unfolding map_int_upt by (meson nth_mem)
qed


text \<open>Rectangles of one row, and of rows one above the other.\<close>

lemma block_rect_row:
  assumes "0 < s" and "int (j * s) \<le> pb_start p" and "pb_start p \<le> pb_end p" and "pb_end p < int (Suc j * s)"
    and "bits_per_row c = int s"
  shows "block_rect c j p = \<lparr>rx = (pb_start p - int (j * s)) * bit_width c + 1,
    ry = int j * (row_height c + padding_y c) + padding_y c,
    rwidth = (pb_end p - pb_start p + 1) * bit_width c - padding_x c, rheight = row_height c\<rparr>"
proof -
  have "pb_start p mod int s = (pb_start p - int j * int s + int j * int s) mod int s" by simp
  also have "\<dots> = (pb_start p - int j * int s) mod int s" by (rule mod_mult_self1)
  also have "\<dots> = pb_start p - int j * int s"
    using assms by (intro mod_pos_pos_trivial) (simp_all add: algebra_simps)
  finally show ?thesis by (simp add: block_rect_def assms(5))
qed

lemma sorted_rows:
  assumes "\<And>j a. j < length ws \<Longrightarrow> a \<in> set (f (n + j) (ws ! j)) \<Longrightarrow> ry a = int (n + j) * (h + q) + q \<and> rheight a = h"
    and "\<And>j. j < length ws \<Longrightarrow> sorted_wrt disjoint_rects (f (n + j) (ws ! j))" and "0 \<le> h" and "0 \<le> q"
  shows "sorted_wrt disjoint_rects (concat (map (\<lambda>(r, w). f r w) (enumerate n ws)))"
  using assms(1,2)
proof (induction ws arbitrary: n)
  case (Cons w ws)
  have "sorted_wrt disjoint_rects (concat (map (\<lambda>(r, w). f r w) (enumerate (Suc n) ws)))"
  proof (rule Cons.IH)
    show "ry a = int (Suc n + j) * (h + q) + q \<and> rheight a = h" if "j < length ws" "a \<in> set (f (Suc n + j) (ws ! j))" for j a
      using Cons.prems(1) [of "Suc j" a] that by simp
    show "sorted_wrt disjoint_rects (f (Suc n + j) (ws ! j))" if "j < length ws" for j
      using Cons.prems(2) [of "Suc j"] that by simp
  qed
  moreover have "disjoint_rects a b" if rs: "a \<in> set (f n w)" "(r, v) \<in> set (enumerate (Suc n) ws)" "b \<in> set (f r v)" for a b r v
  proof -
    define j where "j = r - Suc n"
    then have j: "j < length ws" "r = Suc n + j" "v = ws ! j" using rs(2) by (auto simp: in_set_enumerate_eq)
    have "ry a = int n * (h + q) + q" "rheight a = h" "ry b = int (Suc n + j) * (h + q) + q"
      using Cons.prems(1) [of 0 a] Cons.prems(1) [of "Suc j" b] rs j by auto
    moreover have "int (Suc n) * (h + q) \<le> int (Suc n + j) * (h + q)" using assms(3,4) by (intro mult_right_mono) auto
    ultimately have "ry a + rheight a \<le> ry b" using assms(4) by (simp add: algebra_simps)
    then show ?thesis by (simp add: disjoint_rects_def)
  qed
  ultimately show ?case using Cons.prems(2) [of 0] by (fastforce simp: sorted_wrt_append)
qed simp


lemma row_rects:
  assumes "packet_populate (int s) bs = Inr rows" and "0 < s" and "\<forall>b\<in>set bs. parsed_block b" and "j < length rows"
    and c: "bits_per_row c = int s" "0 \<le> bit_width c" "0 \<le> padding_x c"
  shows "sorted_wrt disjoint_rects (map (block_rect c j) (rows ! j)) \<and>
    (\<forall>a\<in>set (map (block_rect c j) (rows ! j)). 0 \<le> rx a \<and> rx a + rwidth a \<le> int s * bit_width c + 1 \<and>
       ry a = int j * (row_height c + padding_y c) + padding_y c \<and> rheight a = row_height c)"
proof -
  let ?w = "rows ! j" and ?o = "int (j * s)"
  obtain m where m: "m \<le> Suc j * s" "map fst (row_bits ?w) = [?o..int m - 1]" "proper ?w"
    using row_numbers [OF assms(1-4)] by blast
  have sorted: "sorted_wrt (\<lambda>p q. pb_end p < pb_start q) ?w"
    and bound: "\<And>p. p \<in> set ?w \<Longrightarrow> ?o \<le> pb_start p \<and> pb_end p \<le> int m - 1"
    using row_pieces [OF m(2,3)] by auto
  have rect: "?o \<le> pb_start p \<and> pb_start p \<le> pb_end p \<and> pb_end p < int (Suc j * s) \<and>
      block_rect c j p = \<lparr>rx = (pb_start p - ?o) * bit_width c + 1, ry = int j * (row_height c + padding_y c) + padding_y c,
        rwidth = (pb_end p - pb_start p + 1) * bit_width c - padding_x c, rheight = row_height c\<rparr>"
    if "p \<in> set ?w" for p
    using bound [OF that] of_nat_mono [OF m(1), where 'a = int] m(3) that block_rect_row [OF assms(2) _ _ _ c(1), of j p] by (auto simp: proper_def)
  have right: "rx (block_rect c j p) + rwidth (block_rect c j p) = (pb_end p + 1 - ?o) * bit_width c + 1 - padding_x c"
    if "p \<in> set ?w" for p
    using rect [OF that] by (simp add: algebra_simps)
  have "disjoint_rects (block_rect c j p) (block_rect c j q)" if pq: "p \<in> set ?w" "q \<in> set ?w" "pb_end p < pb_start q" for p q
  proof -
    have "(pb_end p + 1 - ?o) * bit_width c \<le> (pb_start q - ?o) * bit_width c"
      using pq(3) c(2) by (intro mult_right_mono) auto
    then show ?thesis using right [OF pq(1)] rect [OF pq(2)] c(3) by (simp add: disjoint_rects_def)
  qed
  then have "sorted_wrt disjoint_rects (map (block_rect c j) ?w)"
    unfolding sorted_wrt_map by (rule sorted_wrt_mono_rel [OF _ sorted])
  moreover have "0 \<le> rx (block_rect c j p) \<and> rx (block_rect c j p) + rwidth (block_rect c j p) \<le> int s * bit_width c + 1"
    if p: "p \<in> set ?w" for p
  proof -
    have "(pb_end p + 1 - ?o) * bit_width c \<le> int s * bit_width c"
      using rect [OF p] c(2) by (intro mult_right_mono) (auto simp: algebra_simps)
    moreover have "0 \<le> (pb_start p - ?o) * bit_width c" using rect [OF p] c(2) by simp
    moreover have "rx (block_rect c j p) = (pb_start p - ?o) * bit_width c + 1" using rect [OF p] by simp
    ultimately show ?thesis using right [OF p] c(3) by simp
  qed
  ultimately show ?thesis using rect by auto
qed


section \<open>Properties\<close>

text \<open>C22. A packet is drawn exactly when its blocks follow one another without gap, overlap or empty block; then row \<open>j\<close>
  has the bits \<open>j * s\<close> to \<open>(j + 1) * s - 1\<close> of the packet, each once and under the label of its block, up to ten
  thousand rows; what is beyond them is left out without an error.\<close>

theorem packet_rows:
  assumes "0 < s" and "\<forall>b\<in>set bs. parsed_block b"
  shows "case packet_populate (int s) bs of
      Inl x \<Rightarrow> \<not> contiguous (-1) bs
    | Inr rows \<Rightarrow> contiguous (-1) bs \<and>
        map row_bits rows = map (nth_row s (packet_bits (-1) bs)) [0..<row_count s (packet_bits (-1) bs)]"
  using packet_populate_spec [OF assms] by (cases "packet_populate (int s) bs") simp_all

text \<open>Every rectangle of a packet is inside the drawing, and no two of them overlap.\<close>

lemma packet_drawing:
  assumes "packet_populate (int s) bs = Inr rows" and "0 < s" and "\<forall>b\<in>set bs. parsed_block b"
    and "c = packet_get_config c0" and "bits_per_row c0 = int s" and "0 \<le> bit_width c0" and "0 \<le> padding_x c0"
    and "0 \<le> padding_y c0" and "0 \<le> row_height c0"
  shows "(\<forall>a\<in>set (packet_rects c rows). inside (packet_size c titled rows) a) \<and> sorted_wrt disjoint_rects (packet_rects c rows)"
proof
  have c: "bits_per_row c = int s" "0 \<le> bit_width c" "0 \<le> padding_x c" "0 \<le> padding_y c" "0 \<le> row_height c"
    using assms(4-9) by (simp_all add: packet_get_config_def)
  note row = row_rects [OF assms(1-3) _ c(1-3)]
  show "\<forall>a\<in>set (packet_rects c rows). inside (packet_size c titled rows) a"
  proof
    fix a assume "a \<in> set (packet_rects c rows)"
    then obtain j where j: "j < length rows" "a \<in> set (map (block_rect c j) (rows ! j))"
      by (auto simp: packet_rects_def in_set_enumerate_eq)
    have a: "0 \<le> rx a" "rx a + rwidth a \<le> int s * bit_width c + 1"
      "ry a = int j * (row_height c + padding_y c) + padding_y c" "rheight a = row_height c"
      using row [OF j(1)] j(2) by blast+
    have "(int j + 1) * (row_height c + padding_y c) \<le> int (length rows) * (row_height c + padding_y c)"
      using j(1) c(4,5) by (intro mult_right_mono) auto
    then have "ry a + rheight a \<le> snd (packet_size c titled rows)"
      using a(3,4) c(4,5) by (simp add: packet_size_def algebra_simps)
    moreover have "0 \<le> ry a" using a(3) c(4,5) by simp
    ultimately show "inside (packet_size c titled rows) a"
      using a(1,2) c(1) by (simp add: inside_def packet_size_def algebra_simps)
  qed
  show "sorted_wrt disjoint_rects (packet_rects c rows)"
    unfolding packet_rects_def
  proof (rule sorted_rows [where h = "row_height c" and q = "padding_y c", OF _ _ c(5,4)])
    show "ry a = int (0 + j) * (row_height c + padding_y c) + padding_y c \<and> rheight a = row_height c"
      if "j < length rows" "a \<in> set (map (block_rect c (0 + j)) (rows ! j))" for j a
      using row [OF that(1)] that(2) unfolding add_0 by blast
  qed (use row in simp)
qed

text \<open>The number of bits that a cut block carries along is one too small, for both of its pieces.\<close>

lemma cut_bits_wrong:
  assumes "next_fitting e t r = Inr (d, Some f)"
  shows "pb_bits d = pb_end d - pb_start d \<and> pb_bits f = pb_end f - pb_start f"
  using assms by (auto simp: next_fitting_def Let_def split: if_splits)



section \<open>Witnesses\<close>

text \<open>A packet of 15 bits in rows of 8: \<open>0-3: "a"\<close>, \<open>+10: "b"\<close> and \<open>14: "c"\<close>.\<close>

definition demo_blocks :: "block_in list" where
  "demo_blocks =
     [\<lparr>bi_start = Some 0, bi_end = Some 3, bi_bits = None, bi_label = lit ''a''\<rparr>,
      \<lparr>bi_start = None, bi_end = None, bi_bits = Some 10, bi_label = lit ''b''\<rparr>,
      \<lparr>bi_start = Some 14, bi_end = None, bi_bits = None, bi_label = lit ''c''\<rparr>]"

definition demo_packet_config :: packet_config where
  "demo_packet_config =
     \<lparr>row_height = 32, padding_x = 5, padding_y = 5, bit_width = 32, bits_per_row = 8, show_bits = True\<rparr>"

lemma demo_blocks_ok: "\<forall>b\<in>set demo_blocks. parsed_block b" "contiguous (-1) demo_blocks"
  by (simp_all add: demo_blocks_def parsed_block_def block_end_def)

lemma packet_rows_witness:
  "\<exists>rows. packet_populate (int 8) demo_blocks = Inr rows \<and> length rows = 2 \<and>
     row_bits (rows ! 1) = [(8, lit ''b''), (9, lit ''b''), (10, lit ''b''), (11, lit ''b''), (12, lit ''b''),
       (13, lit ''b''), (14, lit ''c'')]"
proof -
  have "(0::nat) < 8" by simp
  from packet_rows [OF this demo_blocks_ok(1)] demo_blocks_ok(2)
  obtain rows where rows: "packet_populate (int 8) demo_blocks = Inr rows"
      "map row_bits rows = map (nth_row 8 (packet_bits (-1) demo_blocks)) [0..<row_count 8 (packet_bits (-1) demo_blocks)]"
    by (auto split: sum.splits)
  have bits: "packet_bits (-1) demo_blocks = map (\<lambda>k. (k, lit ''a'')) [0, 1, 2, 3] @
      map (\<lambda>k. (k, lit ''b'')) [4, 5, 6, 7, 8, 9, 10, 11, 12, 13] @ [(14, lit ''c'')]"
    by (simp add: demo_blocks_def block_end_def upto_rec1)
  have "map row_bits rows = [nth_row 8 (packet_bits (-1) demo_blocks) 0, nth_row 8 (packet_bits (-1) demo_blocks) 1]"
    unfolding rows(2) by (simp add: bits row_count_def max_packet_size_def upt_rec)
  then obtain w v where "rows = [w, v]" "row_bits v = nth_row 8 (packet_bits (-1) demo_blocks) 1" by auto
  then show ?thesis using rows(1) by (simp add: bits nth_row_def)
qed

end
