(* ===== verification/Outline.thy ===== *)
theory Outline
  imports Insomni_Prelude
begin

text \<open>
  Trees given by indentation, as treemaps and fishbone diagrams read them: row \<open>i\<close> belongs to the last section that
  is still open, one that no row since has been indented as little as. The laws of this relation that make a
  traversal of the tree come out in the order of the text are a locale.
\<close>

section \<open>Open sections\<close>

text \<open>The sections among the first \<open>n\<close> rows with nothing after them on their level or above.\<close>

definition open_sections :: "(nat \<Rightarrow> int) \<Rightarrow> (nat \<Rightarrow> bool) \<Rightarrow> nat \<Rightarrow> nat list" where
  "open_sections lev sec n = filter (\<lambda>j. sec j \<and> list_all (\<lambda>k. lev j < lev k) [Suc j..<n]) [0..<n]"

definition enclosing :: "(nat \<Rightarrow> int) \<Rightarrow> (nat \<Rightarrow> bool) \<Rightarrow> nat \<Rightarrow> nat list" where
  "enclosing lev sec i = filter (\<lambda>j. lev j < lev i) (open_sections lev sec i)"

definition parent_of :: "(nat \<Rightarrow> int) \<Rightarrow> (nat \<Rightarrow> bool) \<Rightarrow> nat \<Rightarrow> nat option" where
  "parent_of lev sec i = (case rev (enclosing lev sec i) of [] \<Rightarrow> None | j # _ \<Rightarrow> Some j)"

lemma open_sections_Suc:
  "open_sections lev sec (Suc n) = enclosing lev sec n @ (if sec n then [n] else [])"
proof -
  have "filter (\<lambda>j. sec j \<and> list_all (\<lambda>k. lev j < lev k) [Suc j..<Suc n]) [0..<n] =
      filter (\<lambda>j. lev j < lev n) (filter (\<lambda>j. sec j \<and> list_all (\<lambda>k. lev j < lev k) [Suc j..<n]) [0..<n])"
    unfolding filter_filter by (rule filter_cong [OF refl]) auto
  then show ?thesis by (simp add: open_sections_def enclosing_def)
qed

lemma in_enclosing:
  "j \<in> set (enclosing lev sec i) \<longleftrightarrow> j < i \<and> sec j \<and> (\<forall>k. j < k \<and> k \<le> i \<longrightarrow> lev j < lev k)"
  by (auto simp: enclosing_def open_sections_def list_all_iff Suc_le_eq) (metis le_neq_implies_less)?

lemma enclosing_sorted: "sorted_wrt (<) (enclosing lev sec i)"
  by (simp add: enclosing_def open_sections_def sorted_wrt_filter)

lemma open_levels: "sorted_wrt (\<lambda>j k. lev j < lev k) (open_sections lev sec n)"
proof -
  have "sorted_wrt (<) (open_sections lev sec n)"
    by (simp add: open_sections_def sorted_wrt_filter)
  then show ?thesis
    by (rule sorted_wrt_mono_rel [rotated]) (auto simp: open_sections_def list_all_iff Suc_le_eq)
qed

text \<open>Popping a stack of open sections down to the first one above the level of a row leaves those that enclose it.\<close>

lemma dropWhile_sorted:
  "sorted_wrt (\<lambda>x y. f y < f x) xs \<Longrightarrow> dropWhile (\<lambda>x. c \<le> f x) xs = filter (\<lambda>x. f x < (c::int)) xs"
proof (induction xs)
  case (Cons x xs)
  show ?case
  proof (cases "c \<le> f x")
    case False
    then have "\<forall>y\<in>set xs. f y < c" using Cons.prems by auto
    then show ?thesis using False by simp
  qed (use Cons in simp)
qed simp

definition section_stack :: "(nat \<Rightarrow> int) \<Rightarrow> (nat \<Rightarrow> bool) \<Rightarrow> nat \<Rightarrow> (nat \<times> int) list" where
  "section_stack lev sec n = map (\<lambda>j. (j, lev j)) (rev (open_sections lev sec n))"

lemma section_stack_pop:
  "dropWhile (\<lambda>(j, l). lev n \<le> l) (section_stack lev sec n) = map (\<lambda>j. (j, lev j)) (rev (enclosing lev sec n))"
proof -
  have "sorted_wrt (\<lambda>j k. lev k < lev j) (rev (open_sections lev sec n))"
    using open_levels by (simp add: sorted_wrt_rev)
  from dropWhile_sorted [OF this, of "lev n"] show ?thesis
    by (simp add: section_stack_def dropWhile_map comp_def enclosing_def rev_filter)
qed

lemma section_stack_Suc:
  "section_stack lev sec (Suc n) =
     (if sec n then [(n, lev n)] else []) @ map (\<lambda>j. (j, lev j)) (rev (enclosing lev sec n))"
  by (simp add: section_stack_def open_sections_Suc)

lemma section_stack_0 [simp]: "section_stack lev sec 0 = []"
  by (simp add: section_stack_def open_sections_def)


section \<open>Nested relations\<close>

text \<open>Rows between a row and its parent have their own parents there.\<close>

locale nested =
  fixes par :: "nat \<Rightarrow> nat option"
  assumes par_before: "par i = Some p \<Longrightarrow> p < i"
    and par_between: "par i = Some p \<Longrightarrow> p < k \<Longrightarrow> k < i \<Longrightarrow> \<exists>q. par k = Some q \<and> p \<le> q"

text \<open>A traversal in preorder with the depth of every node; the fuel bounds the nodes that are left.\<close>

fun preorder :: "nat \<Rightarrow> (nat \<Rightarrow> nat list) \<Rightarrow> nat \<Rightarrow> nat list \<Rightarrow> (nat \<times> nat) list option" where
  "preorder fuel ch d [] = Some []"
| "preorder 0 ch d (l # ls) = None"
| "preorder (Suc f) ch d (l # ls) =
     Option.bind (preorder f ch (Suc d) (ch l)) (\<lambda>xs.
     Option.bind (preorder f ch d ls) (\<lambda>ys. Some ((l, d) # xs @ ys)))"

definition children_of :: "(nat \<Rightarrow> nat option) \<Rightarrow> nat \<Rightarrow> nat option \<Rightarrow> nat list" where
  "children_of par n p = filter (\<lambda>i. par i = p) [0..<n]"

text \<open>The number of sections around a row.\<close>

function depth_of :: "(nat \<Rightarrow> nat option) \<Rightarrow> nat \<Rightarrow> nat" where
  "depth_of par i = (case par i of Some p \<Rightarrow> if p < i then Suc (depth_of par p) else 0 | None \<Rightarrow> 0)"
  by pat_completeness auto

termination by (relation "measure snd") auto

declare depth_of.simps [simp del]

lemma upt_split: "a \<le> b \<Longrightarrow> b \<le> c \<Longrightarrow> [a..<c] = [a..<b] @ [b..<c]"
  by (metis le_Suc_ex upt_add_eq_append)

context nested begin

lemma first_child:
  assumes "a < b"
  obtains c where "a < c" and "c \<le> b" and "\<And>i. a < i \<Longrightarrow> i < c \<Longrightarrow> par i \<noteq> q" and "c < b \<Longrightarrow> par c = q"
proof (cases "\<exists>i. a < i \<and> i < b \<and> par i = q")
  case True
  define c where "c = (LEAST i. a < i \<and> i < b \<and> par i = q)"
  have "a < c \<and> c < b \<and> par c = q" unfolding c_def by (rule LeastI_ex [OF True])
  moreover have "par i \<noteq> q" if "a < i" "i < c" for i
    using not_less_Least [of i "\<lambda>i. a < i \<and> i < b \<and> par i = q"] that calculation c_def by auto
  ultimately show ?thesis using that by auto
next
  case False
  then show ?thesis using that [of b] assms by auto
qed

lemma preorder_interval:
  "b \<le> n \<Longrightarrow> (\<And>i. a \<le> i \<Longrightarrow> i < b \<Longrightarrow> par i = q \<or> (\<exists>p. par i = Some p \<and> a \<le> p)) \<Longrightarrow>
   (\<And>q'. q = Some q' \<Longrightarrow> q' < a) \<Longrightarrow> (\<And>i p. b \<le> i \<Longrightarrow> i < n \<Longrightarrow> par i = Some p \<Longrightarrow> a \<le> p \<Longrightarrow> b \<le> p) \<Longrightarrow>
   b - a \<le> f \<Longrightarrow> d = (case q of None \<Rightarrow> 0 | Some q' \<Rightarrow> Suc (depth_of par q')) \<Longrightarrow>
   preorder f (\<lambda>p. children_of par n (Some p)) d (filter (\<lambda>i. par i = q) [a..<b]) =
     Some (map (\<lambda>i. (i, depth_of par i)) [a..<b])"
proof (induction f arbitrary: a b q d)
  case (Suc f)
  show ?case
  proof (cases "a < b")
    case True
    obtain c where c: "a < c" "c \<le> b" "\<And>i. a < i \<Longrightarrow> i < c \<Longrightarrow> par i \<noteq> q" "c < b \<Longrightarrow> par c = q"
      using first_child [OF True, of q] by blast
    have a: "par a = q" using Suc.prems(2) [of a] True par_before by fastforce
    have split: "[a..<b] = a # [Suc a..<c] @ [c..<b]"
      using c(1,2) upt_split [of "Suc a" c b] by (simp add: upt_conv_Cons)
    have outside: "c \<le> i \<Longrightarrow> i < n \<Longrightarrow> par i = Some p \<Longrightarrow> a \<le> p \<Longrightarrow> c \<le> p" for i p
    proof (rule ccontr)
      assume i: "c \<le> i" "i < n" "par i = Some p" "a \<le> p" "\<not> c \<le> p"
      then have "i < b" using Suc.prems(4) c(2) by (metis le_trans not_le)
      then have "par c = q" using c(4) i(1) by simp
      then have "c \<noteq> i" using i(3,4) Suc.prems(3) by auto
      then obtain q' where "par c = Some q'" "p \<le> q'" using par_between [OF i(3), of c] i by auto
      then show False using \<open>par c = q\<close> Suc.prems(3) i(4) by auto
    qed
    have "children_of par n (Some a) = filter (\<lambda>i. par i = Some a) ([0..<Suc a] @ [Suc a..<c] @ [c..<n])"
      using c(1,2) Suc.prems(1) upt_split [of 0 "Suc a" n] upt_split [of "Suc a" c n] by (simp add: children_of_def del: upt_Suc)
    moreover have "filter (\<lambda>i. par i = Some a) [0..<Suc a] = []" using par_before by (fastforce simp: filter_empty_conv)
    moreover have "filter (\<lambda>i. par i = Some a) [c..<n] = []" using outside c(1) by (fastforce simp: filter_empty_conv)
    ultimately have kids: "children_of par n (Some a) = filter (\<lambda>i. par i = Some a) [Suc a..<c]"
      by (simp only: filter_append append_Nil append_Nil2)
    have "preorder f (\<lambda>p. children_of par n (Some p)) (Suc d) (filter (\<lambda>i. par i = Some a) [Suc a..<c]) =
        Some (map (\<lambda>i. (i, depth_of par i)) [Suc a..<c])"
    proof (rule Suc.IH)
      show "c \<le> n" using c(2) Suc.prems(1) by simp
      show "par i = Some a \<or> (\<exists>p. par i = Some p \<and> Suc a \<le> p)" if "Suc a \<le> i" "i < c" for i
        using Suc.prems(2) [of i] c(2,3) that by (auto simp: Suc_le_eq le_less)
      show "c \<le> p" if "c \<le> i" "i < n" "par i = Some p" "Suc a \<le> p" for i p using outside that by simp
      show "c - Suc a \<le> f" using Suc.prems(5) c(1,2) by simp
      show "Suc d = (case Some a of None \<Rightarrow> 0 | Some q' \<Rightarrow> Suc (depth_of par q'))"
        using Suc.prems(6) a par_before by (auto simp: depth_of.simps [of par a] split: option.splits)
    qed simp
    moreover have "preorder f (\<lambda>p. children_of par n (Some p)) d (filter (\<lambda>i. par i = q) [c..<b]) =
        Some (map (\<lambda>i. (i, depth_of par i)) [c..<b])"
    proof (rule Suc.IH [OF Suc.prems(1)])
      show "par i = q \<or> (\<exists>p. par i = Some p \<and> c \<le> p)" if "c \<le> i" "i < b" for i
        using Suc.prems(2) [of i] outside [of i] c(1) that Suc.prems(1) by (metis le_trans less_imp_le less_le_trans)
      show "q' < c" if "q = Some q'" for q' using Suc.prems(3) [OF that] c(1) by simp
      show "b \<le> p" if "b \<le> i" "i < n" "par i = Some p" "c \<le> p" for i p using Suc.prems(4) [of i p] that c(1) by simp
      show "b - c \<le> f" using Suc.prems(5) c(1) by simp
    qed (rule Suc.prems(6))
    moreover have "filter (\<lambda>i. par i = q) [a..<b] = a # filter (\<lambda>i. par i = q) [c..<b]"
    proof -
      have "filter (\<lambda>i. par i = q) [Suc a..<c] = []" using c(3) by (auto simp: filter_empty_conv)
      then show ?thesis using a split by simp
    qed
    moreover have "depth_of par a = d"
      using Suc.prems(6) a par_before by (auto simp: depth_of.simps [of par a] split: option.splits)
    ultimately show ?thesis using kids split by simp
  qed simp
qed simp

text \<open>A traversal from the rows without a parent meets every row once, in order.\<close>

lemma preorder_all:
  "n \<le> f \<Longrightarrow> preorder f (\<lambda>p. children_of par n (Some p)) 0 (children_of par n None) =
     Some (map (\<lambda>i. (i, depth_of par i)) [0..<n])"
  unfolding children_of_def [of _ _ None] by (rule preorder_interval) auto

end

interpretation sections: nested "parent_of lev sec" for lev sec
proof
  have last: "parent_of lev sec i = Some p \<longleftrightarrow> (\<exists>ps. enclosing lev sec i = ps @ [p])" for i p
    unfolding parent_of_def by (auto split: list.splits)
  fix i p k
  assume i: "parent_of lev sec i = Some p"
  then have p: "p \<in> set (enclosing lev sec i)" using last by auto
  then show "p < i" by (simp add: in_enclosing)
  assume k: "p < k" "k < i"
  have "p \<in> set (enclosing lev sec k)" using p k by (auto simp: in_enclosing)
  then obtain ps q where q: "enclosing lev sec k = ps @ [q]" by (cases "enclosing lev sec k" rule: rev_cases) auto
  moreover have "p \<le> q"
    using enclosing_sorted [of lev sec k] \<open>p \<in> set (enclosing lev sec k)\<close> q by (auto simp: sorted_wrt_append)
  ultimately show "\<exists>q. parent_of lev sec k = Some q \<and> p \<le> q" using last by blast
qed

end
