(* ===== verification/Outline_Diagrams.thy ===== *)
theory Outline_Diagrams
  imports Outline Js_Library
begin

text \<open>
  The trees of treemaps (\<open>docs/mermaid.tiny.js\<close>, line 2535) and fishbone diagrams (line 2438), built from the lines of
  the text and their indentation. The code links node objects; here they are numbered in the order of their
  creation, which is that of the lines, and kept in a store.
\<close>

section \<open>Treemaps\<close>

text \<open>\<open>isLabelStyle\<close>\<close>

definition is_label_style :: "ustr \<Rightarrow> bool" where
  "is_label_style e \<longleftrightarrow> e \<in> set (map lit
     [''color'', ''font-size'', ''font-family'', ''font-weight'', ''font-style'', ''text-decoration'', ''text-align'',
      ''text-transform'', ''line-height'', ''letter-spacing'', ''word-spacing'', ''text-shadow'', ''text-overflow'',
      ''white-space'', ''word-wrap'', ''word-break'', ''overflow-wrap'', ''hyphens''])"

text \<open>The styles of a text: separated by commas or semicolons, where a comma
  after a backslash (92, 44) is part of a style; three paragraph signs (167) stand for it in between.\<close>

definition style_list :: "ustr \<Rightarrow> ustr list" where
  "style_list r = split_at (ch (CHR '';''))
     (replace_all [167, 167, 167] (lit '','')
       (replace_all (lit '','') (lit '';'') (replace_all [92, 44] [167, 167, 167] r)))"

text \<open>\<open>addClass\<close> and \<open>getStylesForClass\<close> of \<open>TreeMapDB\<close>, on its map of classes\<close>

definition treemap_add_class :: "ustr \<Rightarrow> ustr \<Rightarrow> (ustr \<rightharpoonup> style_class) \<Rightarrow> (ustr \<rightharpoonup> style_class)" where
  "treemap_add_class t r classes =
     (let i = (case classes t of None \<Rightarrow> \<lparr>sc_id = t, sc_styles = [], sc_text_styles = []\<rparr> | Some i \<Rightarrow> i); n = style_list r in
      classes(t \<mapsto> i\<lparr>sc_text_styles := sc_text_styles i @ filter is_label_style n, sc_styles := sc_styles i @ n\<rparr>))"

definition styles_for_class :: "(ustr \<rightharpoonup> style_class) \<Rightarrow> ustr \<Rightarrow> ustr list" where
  "styles_for_class classes t = (case classes t of None \<Rightarrow> [] | Some i \<Rightarrow> sc_styles i)"

text \<open>
  A statement of the text: a class or an item, and the row that \<open>populate\<close> makes of an item. What is \<open>undefined\<close> is
  \<open>JUndef\<close> or \<open>None\<close>.
\<close>

record treemap_item =
  ti_indent :: "nat option"
  ti_leaf :: bool
  ti_name :: "ustr option"
  ti_value :: js
  ti_selector :: "ustr option"

datatype treemap_statement = ClassDef "ustr option" "ustr option" | Item treemap_item

record treemap_row =
  tr_level :: int
  tr_name :: ustr
  tr_leaf :: bool
  tr_value :: js
  tr_selector :: "ustr option"
  tr_styles :: "ustr list option"

text \<open>\<open>getItemName\<close>\<close>

definition item_name :: "treemap_item \<Rightarrow> ustr" where
  "item_name e = (case ti_name e of None \<Rightarrow> [] | Some s \<Rightarrow> s)"

definition row_of :: "(ustr \<rightharpoonup> style_class) \<Rightarrow> treemap_item \<Rightarrow> treemap_row" where
  "row_of classes e =
     (let h = (case ti_selector e of None \<Rightarrow> [] | Some k \<Rightarrow> if k = [] then [] else styles_for_class classes k) in
      \<lparr>tr_level = (case ti_indent e of None \<Rightarrow> 0 | Some k \<Rightarrow> int k), tr_name = item_name e, tr_leaf = ti_leaf e,
        tr_value = ti_value e, tr_selector = ti_selector e, tr_styles = (if h = [] then None else Some h)\<rparr>)"

text \<open>The two loops of \<open>populate\<close> over the statements: all classes first, then the rows.\<close>

fun collect_classes :: "treemap_statement list \<Rightarrow> (ustr \<rightharpoonup> style_class) \<Rightarrow> (ustr \<rightharpoonup> style_class)" where
  "collect_classes [] classes = classes"
| "collect_classes (ClassDef name styles # ss) classes =
     collect_classes ss (treemap_add_class (case name of None \<Rightarrow> [] | Some t \<Rightarrow> t) (case styles of None \<Rightarrow> [] | Some r \<Rightarrow> r) classes)"
| "collect_classes (Item _ # ss) classes = collect_classes ss classes"

fun collect_rows :: "(ustr \<rightharpoonup> style_class) \<Rightarrow> treemap_statement list \<Rightarrow> treemap_row list" where
  "collect_rows classes [] = []"
| "collect_rows classes (ClassDef _ _ # ss) = collect_rows classes ss"
| "collect_rows classes (Item e # ss) = row_of classes e # collect_rows classes ss"

definition treemap_rows :: "treemap_statement list \<Rightarrow> treemap_row list" where
  "treemap_rows ss = collect_rows (collect_classes ss Map.empty) ss"

record tree_node =
  tn_name :: ustr
  tn_children :: "nat list option"
  tn_selector :: "ustr option"
  tn_styles :: "ustr list option"
  tn_value :: js

definition new_node :: "treemap_row \<Rightarrow> tree_node" where
  "new_node i =
     \<lparr>tn_name = tr_name i, tn_children = (if tr_leaf i then None else Some []), tn_selector = tr_selector i,
       tn_styles = tr_styles i, tn_value = (if tr_leaf i then tr_value i else JUndef)\<rparr>"

text \<open>\<open>s.children ? s.children.push(n) : s.children = [n]\<close>\<close>

definition push_child :: "nat \<Rightarrow> tree_node \<Rightarrow> tree_node" where
  "push_child n s = s\<lparr>tn_children := Some (case tn_children s of None \<Rightarrow> [n] | Some cs \<Rightarrow> cs @ [n])\<rparr>"

text \<open>\<open>buildHierarchy\<close>: the nodes made, the outermost ones (\<open>t\<close>) and the stack of sections (\<open>r\<close>), its top first.\<close>

record hierarchy =
  hi_nodes :: "tree_node list"
  hi_roots :: "nat list"
  hi_stack :: "(nat \<times> int) list"

definition add_row :: "treemap_row \<Rightarrow> hierarchy \<Rightarrow> hierarchy" where
  "add_row i h =
     (let n = length (hi_nodes h);
          r = dropWhile (\<lambda>(_, level). tr_level i \<le> level) (hi_stack h);
          nodes = hi_nodes h @ [new_node i];
          r' = (if tr_leaf i then r else (n, tr_level i) # r) in
      case r of
        [] \<Rightarrow> \<lparr>hi_nodes = nodes, hi_roots = hi_roots h @ [n], hi_stack = r'\<rparr>
      | (s, _) # _ \<Rightarrow> \<lparr>hi_nodes = nodes[s := push_child n (nodes ! s)], hi_roots = hi_roots h, hi_stack = r'\<rparr>)"

definition build_hierarchy :: "treemap_row list \<Rightarrow> hierarchy" where
  "build_hierarchy rows = foldl (\<lambda>h i. add_row i h) \<lparr>hi_nodes = [], hi_roots = [], hi_stack = []\<rparr> rows"

text \<open>\<open>TreeMapDB\<close> and its \<open>addNode\<close>\<close>

record treemap_db =
  td_classes :: "ustr \<rightharpoonup> style_class"
  td_nodes :: "nat list"
  td_levels :: "nat \<rightharpoonup> nat"
  td_outer :: "nat list"
  td_root :: "nat option"

definition treemap_add_node :: "nat \<Rightarrow> nat \<Rightarrow> treemap_db \<Rightarrow> treemap_db" where
  "treemap_add_node t r db =
     (let db' = db\<lparr>td_nodes := td_nodes db @ [t], td_levels := (td_levels db)(t \<mapsto> r)\<rparr> in
      if r = 0
      then db'\<lparr>td_outer := td_outer db @ [t], td_root := (case td_root db of None \<Rightarrow> Some t | Some x \<Rightarrow> Some x)\<rparr>
      else db')"

definition node_children :: "tree_node \<Rightarrow> nat list" where
  "node_children l = (case tn_children l of None \<Rightarrow> [] | Some cs \<Rightarrow> cs)"

text \<open>\<open>addNodesRecursively\<close>, with fuel for the nodes to come.\<close>

fun add_nodes_recursively :: "nat \<Rightarrow> tree_node list \<Rightarrow> nat list \<Rightarrow> nat \<Rightarrow> treemap_db \<Rightarrow> treemap_db option" where
  "add_nodes_recursively fuel nodes [] d db = Some db"
| "add_nodes_recursively 0 nodes (l # s) d db = None"
| "add_nodes_recursively (Suc f) nodes (l # s) d db =
     Option.bind
       (if node_children (nodes ! l) \<noteq> []
        then add_nodes_recursively f nodes (node_children (nodes ! l)) (Suc d) (treemap_add_node l d db)
        else Some (treemap_add_node l d db))
       (\<lambda>db'. add_nodes_recursively f nodes s d db')"

definition treemap_populate :: "treemap_statement list \<Rightarrow> treemap_db option" where
  "treemap_populate ss =
     (let rows = treemap_rows ss; i = build_hierarchy rows in
      add_nodes_recursively (length rows) (hi_nodes i) (hi_roots i) 0
        \<lparr>td_classes = collect_classes ss Map.empty, td_nodes = [], td_levels = Map.empty, td_outer = [], td_root = None\<rparr>)"


text \<open>
  \<open>isLabelStyle\<close> expects the name of a style, and is asked about whole declarations: one with a colon is never kept
  as a style of the text.
\<close>

lemma declaration_no_label_style: "is_label_style s \<Longrightarrow> ch (CHR '':'') \<notin> set s"
  by (auto simp: is_label_style_def lit_def ch_def)


section \<open>The tree of a treemap\<close>

definition row_level :: "treemap_row list \<Rightarrow> nat \<Rightarrow> int" where
  "row_level rows i = tr_level (rows ! i)"

definition row_section :: "treemap_row list \<Rightarrow> nat \<Rightarrow> bool" where
  "row_section rows i \<longleftrightarrow> \<not> tr_leaf (rows ! i)"

abbreviation row_parent :: "treemap_row list \<Rightarrow> nat \<Rightarrow> nat option" where
  "row_parent rows \<equiv> parent_of (row_level rows) (row_section rows)"

lemma children_of_Suc: "children_of par (Suc n) p = children_of par n p @ (if par n = p then [n] else [])"
  by (simp add: children_of_def)

lemma parent_of_enclosing: "parent_of lev sec n = (case rev (enclosing lev sec n) of [] \<Rightarrow> None | j # _ \<Rightarrow> Some j)"
  by (simp add: parent_of_def)

definition finished_node :: "treemap_row list \<Rightarrow> nat \<Rightarrow> nat \<Rightarrow> tree_node" where
  "finished_node rows n i = (new_node (rows ! i))
     \<lparr>tn_children := if tr_leaf (rows ! i) then None else Some (children_of (row_parent rows) n (Some i))\<rparr>"

lemma add_row_root:
  "dropWhile (\<lambda>(_, level). tr_level i \<le> level) (hi_stack h) = [] \<Longrightarrow>
   add_row i h = \<lparr>hi_nodes = hi_nodes h @ [new_node i], hi_roots = hi_roots h @ [length (hi_nodes h)],
     hi_stack = (if tr_leaf i then [] else [(length (hi_nodes h), tr_level i)])\<rparr>"
  by (simp add: add_row_def Let_def del: dropWhile_eq_Nil_conv)

lemma add_row_child:
  "dropWhile (\<lambda>(_, level). tr_level i \<le> level) (hi_stack h) = (s, l) # r \<Longrightarrow>
   add_row i h = \<lparr>hi_nodes = (hi_nodes h @ [new_node i])[s := push_child (length (hi_nodes h)) ((hi_nodes h @ [new_node i]) ! s)],
     hi_roots = hi_roots h, hi_stack = (if tr_leaf i then [] else [(length (hi_nodes h), tr_level i)]) @ (s, l) # r\<rparr>"
  by (simp add: add_row_def Let_def)

lemma build_take:
  "n \<le> length rows \<Longrightarrow> build_hierarchy (take n rows) =
     \<lparr>hi_nodes = map (finished_node rows n) [0..<n], hi_roots = children_of (row_parent rows) n None,
      hi_stack = section_stack (row_level rows) (row_section rows) n\<rparr>"
proof (induction n)
  case 0
  then show ?case by (simp add: build_hierarchy_def children_of_def)
next
  case (Suc n)
  let ?lev = "row_level rows" and ?sec = "row_section rows" and ?i = "rows ! n" and ?h = "build_hierarchy (take n rows)"
  have h: "hi_nodes ?h = map (finished_node rows n) [0..<n]" "hi_roots ?h = children_of (row_parent rows) n None"
      "hi_stack ?h = section_stack ?lev ?sec n"
    using Suc by simp_all
  have step: "build_hierarchy (take (Suc n) rows) = add_row ?i ?h"
    using Suc.prems by (simp add: build_hierarchy_def take_Suc_conv_app_nth)
  have pop: "dropWhile (\<lambda>(_, level). tr_level ?i \<le> level) (hi_stack ?h) = map (\<lambda>j. (j, ?lev j)) (rev (enclosing ?lev ?sec n))"
    unfolding h(3) using section_stack_pop [of ?lev n ?sec] by (simp only: row_level_def [of rows n])
  have push: "(if tr_leaf ?i then [] else [(length (hi_nodes ?h), tr_level ?i)]) @ map (\<lambda>j. (j, ?lev j)) (rev (enclosing ?lev ?sec n)) =
      section_stack ?lev ?sec (Suc n)"
    by (simp add: h(1) section_stack_Suc row_section_def [of rows n] row_level_def [of rows n])
  have "children_of (row_parent rows) n (Some n) = []"
    using sections.par_before by (fastforce simp: children_of_def filter_empty_conv)
  then have new: "new_node ?i = finished_node rows (Suc n) n"
    using sections.par_before [of ?lev ?sec n n] by (auto simp: finished_node_def new_node_def children_of_Suc)
  have other: "finished_node rows (Suc n) j = finished_node rows n j" if "row_parent rows n \<noteq> Some j" for j
    using that by (simp add: finished_node_def children_of_Suc)
  show ?case
  proof (cases "rev (enclosing ?lev ?sec n)")
    case Nil
    then have "row_parent rows n = None" by (simp add: parent_of_enclosing)
    moreover have "section_stack ?lev ?sec (Suc n) = (if tr_leaf ?i then [] else [(length (hi_nodes ?h), tr_level ?i)])"
      unfolding push [symmetric] Nil by simp
    ultimately show ?thesis
      unfolding step using add_row_root [OF pop [unfolded Nil list.map]] h new other by (simp add: children_of_Suc)
  next
    case (Cons p ps)
    then have p: "row_parent rows n = Some p" by (simp add: parent_of_enclosing)
    then have "p < n" using sections.par_before by blast
    have "p \<in> set (enclosing ?lev ?sec n)" using Cons by (metis list.set_intros(1) set_rev)
    then have "\<not> tr_leaf (rows ! p)" by (simp add: in_enclosing row_section_def)
    then have "push_child n (finished_node rows n p) = finished_node rows (Suc n) p"
      using p by (simp add: push_child_def finished_node_def children_of_Suc)
    then have nodes: "(map (finished_node rows n) [0..<n] @ [new_node ?i])[p := push_child n (finished_node rows n p)] =
        map (finished_node rows (Suc n)) [0..<Suc n]"
      using p \<open>p < n\<close> other new by (intro nth_equalityI) (auto simp: nth_append nth_list_update less_Suc_eq)
    have "(map (finished_node rows n) [0..<n] @ [new_node ?i]) ! p = finished_node rows n p"
      using \<open>p < n\<close> by (simp add: nth_append)
    moreover have "section_stack ?lev ?sec (Suc n) = (if tr_leaf ?i then [] else [(length (hi_nodes ?h), tr_level ?i)]) @
        (p, ?lev p) # map (\<lambda>j. (j, ?lev j)) ps"
      unfolding push [symmetric] Cons by simp
    ultimately show ?thesis
      unfolding step using add_row_child [OF pop [unfolded Cons list.map]] h nodes p by (simp add: children_of_Suc del: upt_Suc)
  qed
qed


text \<open>The traversal adds the nodes in preorder.\<close>

lemma add_nodes_preorder:
  "add_nodes_recursively f nodes ls d db =
     map_option (foldl (\<lambda>db (t, r). treemap_add_node t r db) db) (preorder f (\<lambda>l. node_children (nodes ! l)) d ls)"
proof (induction f nodes ls d db rule: add_nodes_recursively.induct)
  case (3 f nodes l s d db)
  then show ?case
    by (cases "preorder f (\<lambda>l. node_children (nodes ! l)) (Suc d) (node_children (nodes ! l))";
        cases "preorder f (\<lambda>l. node_children (nodes ! l)) d s") auto
qed simp_all

lemma preorder_cong:
  "(\<And>l. l < n \<Longrightarrow> kids l = kids' l) \<Longrightarrow> (\<And>l. set (kids' l) \<subseteq> {..<n}) \<Longrightarrow> set ls \<subseteq> {..<n} \<Longrightarrow>
   preorder f kids d ls = preorder f kids' d ls"
proof (induction f kids d ls rule: preorder.induct)
  case (3 f kids d l ls)
  have l: "kids l = kids' l" using 3(3,5) by simp
  have here: "preorder f kids (Suc d) (kids l) = preorder f kids' (Suc d) (kids' l)"
    unfolding l [symmetric] by (rule 3(1)) (use 3(3,4) l in auto)
  show ?case
  proof (cases "preorder f kids (Suc d) (kids l)")
    case (Some xs)
    have "preorder f kids d ls = preorder f kids' d ls" by (rule 3(2) [OF Some]) (use 3(3-5) in auto)
    then show ?thesis using here by simp
  qed (use here in simp)
qed simp_all

lemma children_of_range: "set (children_of par n p) \<subseteq> {..<n}"
  by (auto simp: children_of_def)

text \<open>What adding the nodes \<open>0\<close> to \<open>n - 1\<close>, each on its level, makes of an empty database.\<close>

definition filled_db :: "(ustr \<rightharpoonup> style_class) \<Rightarrow> (nat \<Rightarrow> nat) \<Rightarrow> nat \<Rightarrow> treemap_db" where
  "filled_db classes lv n =
     \<lparr>td_classes = classes, td_nodes = [0..<n], td_levels = (\<lambda>i. if i < n then Some (lv i) else None),
       td_outer = filter (\<lambda>i. lv i = 0) [0..<n], td_root = List.find (\<lambda>i. lv i = 0) [0..<n]\<rparr>"

lemma find_append: "List.find P (xs @ ys) = (case List.find P xs of None \<Rightarrow> List.find P ys | Some x \<Rightarrow> Some x)"
  by (induction xs) auto

lemma add_all_nodes:
  "foldl (\<lambda>db (t, r). treemap_add_node t r db)
     \<lparr>td_classes = classes, td_nodes = [], td_levels = Map.empty, td_outer = [], td_root = None\<rparr>
     (map (\<lambda>i. (i, lv i)) [0..<n]) = filled_db classes lv n"
proof (induction n)
  case (Suc n)
  then show ?case
    by (auto simp: filled_db_def treemap_add_node_def Let_def find_append fun_eq_iff less_Suc_eq split: option.splits)
qed (simp add: filled_db_def fun_eq_iff)

lemma depth_zero: "depth_of (parent_of lev sec) i = 0 \<longleftrightarrow> parent_of lev sec i = None"
  using sections.par_before [of lev sec i] by (auto simp: depth_of.simps [of _ i] split: option.splits)


section \<open>Fishbone diagrams\<close>

text \<open>\<open>IshikawaDB\<close>. The stack has its top first; \<open>title\<close> is the title of the diagram.\<close>

record bone =
  bo_text :: ustr
  bo_children :: "nat list"

record ishikawa_db =
  is_nodes :: "bone list"
  is_root :: "nat option"
  is_stack :: "(int \<times> nat) list"
  is_base :: "int option"
  is_title :: ustr

definition ishikawa_clear :: ishikawa_db where
  "ishikawa_clear = \<lparr>is_nodes = [], is_root = None, is_stack = [], is_base = None, is_title = []\<rparr>"

text \<open>The loop that leaves the bottom of the stack alone. \<open>setDiagramTitle\<close> sanitises the text once more.\<close>

fun pop_bones :: "int \<Rightarrow> (int \<times> nat) list \<Rightarrow> (int \<times> nat) list" where
  "pop_bones n ((l, s) # t # st) = (if n \<le> l then pop_bones n (t # st) else (l, s) # t # st)"
| "pop_bones n st = st"

definition ishikawa_add_node :: "(ustr \<Rightarrow> ustr) \<Rightarrow> int \<Rightarrow> ustr \<Rightarrow> ishikawa_db \<Rightarrow> ishikawa_db" where
  "ishikawa_add_node sanitize t r db =
     (let i = sanitize r; k = length (is_nodes db); nodes = is_nodes db @ [\<lparr>bo_text = i, bo_children = []\<rparr>] in
      if is_root db = None
      then db\<lparr>is_nodes := nodes, is_root := Some k, is_stack := [(0, k)], is_title := sanitize i\<rparr>
      else
        let base = (case is_base db of None \<Rightarrow> t | Some b \<Rightarrow> b);
            n0 = t - base + 1; n = (if n0 \<le> 0 then 1 else n0);
            st = pop_bones n (is_stack db); s = snd (hd st) in
        db\<lparr>is_nodes := nodes[s := (nodes ! s)\<lparr>bo_children := bo_children (nodes ! s) @ [k]\<rparr>],
          is_base := Some base, is_stack := (n, k) # st\<rparr>)"

definition ishikawa_lines :: "(ustr \<Rightarrow> ustr) \<Rightarrow> (int \<times> ustr) list \<Rightarrow> ishikawa_db \<Rightarrow> ishikawa_db" where
  "ishikawa_lines sanitize ls db = foldl (\<lambda>db (t, r). ishikawa_add_node sanitize t r db) db ls"



section \<open>The tree of a fishbone diagram\<close>

text \<open>The level of a line: the first line is the head, and what is indented less than the second counts like it.\<close>

definition bone_level :: "(int \<times> ustr) list \<Rightarrow> nat \<Rightarrow> int" where
  "bone_level ls i = (if i = 0 then 0 else max 1 (fst (ls ! i) - fst (ls ! 1) + 1))"

abbreviation bone_parent :: "(int \<times> ustr) list \<Rightarrow> nat \<Rightarrow> nat option" where
  "bone_parent ls \<equiv> parent_of (bone_level ls) (\<lambda>_. True)"

lemma pop_bones_dropWhile: "st \<noteq> [] \<Longrightarrow> fst (last st) < n \<Longrightarrow> pop_bones n st = dropWhile (\<lambda>(l, _). n \<le> l) st"
  by (induction n st rule: pop_bones.induct) auto

text \<open>The head is around every other line.\<close>

lemma head_encloses:
  assumes "0 < i"
  shows "\<exists>ps. enclosing (bone_level ls) (\<lambda>_. True) i = 0 # ps"
proof -
  have "0 \<in> set (enclosing (bone_level ls) (\<lambda>_. True) i)" using assms by (auto simp: in_enclosing bone_level_def less_max_iff_disj)
  then show ?thesis
    using enclosing_sorted [of "bone_level ls" "\<lambda>_. True" i] by (cases "enclosing (bone_level ls) (\<lambda>_. True) i") auto
qed

lemma bone_parent_None: "bone_parent ls i = None \<longleftrightarrow> i = 0"
proof (cases "i = 0")
  case True
  then show ?thesis by (simp add: parent_of_def enclosing_def open_sections_def)
next
  case False
  then show ?thesis using head_encloses [of i ls] by (auto simp: parent_of_def split: list.splits)
qed

definition bone_stack :: "(int \<times> ustr) list \<Rightarrow> nat \<Rightarrow> (int \<times> nat) list" where
  "bone_stack ls n = map (\<lambda>(j, l). (l, j)) (section_stack (bone_level ls) (\<lambda>_. True) n)"

lemma bone_stack_Suc:
  "bone_stack ls (Suc n) = (bone_level ls n, n) # map (\<lambda>j. (bone_level ls j, j)) (rev (enclosing (bone_level ls) (\<lambda>_. True) n))"
  by (simp add: bone_stack_def section_stack_Suc)

lemma bone_stack_last: "bone_stack ls (Suc n) \<noteq> [] \<and> fst (last (bone_stack ls (Suc n))) = 0"
proof (cases "n = 0")
  case False
  then obtain ps where "enclosing (bone_level ls) (\<lambda>_. True) n = 0 # ps" using head_encloses by blast
  then show ?thesis by (simp add: bone_stack_Suc bone_level_def)
qed (simp add: bone_stack_Suc enclosing_def open_sections_def bone_level_def)

lemma bone_stack_pop:
  "0 < n \<Longrightarrow> pop_bones (bone_level ls n) (bone_stack ls n) =
     map (\<lambda>j. (bone_level ls j, j)) (rev (enclosing (bone_level ls) (\<lambda>_. True) n))"
proof -
  assume n: "0 < n"
  then obtain m where "n = Suc m" by (cases n) auto
  then have "pop_bones (bone_level ls n) (bone_stack ls n) = dropWhile (\<lambda>(l, _). bone_level ls n \<le> l) (bone_stack ls n)"
    using bone_stack_last [of ls m] by (intro pop_bones_dropWhile) (auto simp: bone_level_def)
  also have "\<dots> = map (\<lambda>(j, l). (l, j)) (dropWhile (\<lambda>(j, l). bone_level ls n \<le> l) (section_stack (bone_level ls) (\<lambda>_. True) n))"
    by (simp add: bone_stack_def dropWhile_map comp_def case_prod_unfold)
  finally show ?thesis by (simp add: section_stack_pop)
qed

definition finished_bone :: "(ustr \<Rightarrow> ustr) \<Rightarrow> (int \<times> ustr) list \<Rightarrow> nat \<Rightarrow> nat \<Rightarrow> bone" where
  "finished_bone sanitize ls n i =
     \<lparr>bo_text = sanitize (snd (ls ! i)), bo_children = children_of (bone_parent ls) n (Some i)\<rparr>"



lemma ishikawa_take:
  "Suc n \<le> length ls \<Longrightarrow> ishikawa_lines sanitize (take (Suc n) ls) ishikawa_clear =
     \<lparr>is_nodes = map (finished_bone sanitize ls (Suc n)) [0..<Suc n], is_root = Some 0, is_stack = bone_stack ls (Suc n),
       is_base = (if n = 0 then None else Some (fst (ls ! 1))), is_title = sanitize (sanitize (snd (ls ! 0)))\<rparr>"
proof (induction n)
  case 0
  then obtain t x ls' where "ls = (t, x) # ls'" by (cases ls) auto
  then show ?case
    using sections.par_before [of "bone_level ls" "\<lambda>_. True" 0 0]
    by (auto simp: ishikawa_lines_def ishikawa_add_node_def ishikawa_clear_def finished_bone_def children_of_def
        bone_stack_Suc enclosing_def open_sections_def bone_level_def Let_def)
next
  case (Suc n)
  let ?k = "Suc n" and ?h = "ishikawa_lines sanitize (take (Suc n) ls) ishikawa_clear"
  obtain t x where tx: "ls ! ?k = (t, x)" by (cases "ls ! ?k")
  have step: "ishikawa_lines sanitize (take (Suc ?k) ls) ishikawa_clear = ishikawa_add_node sanitize t x ?h"
    using Suc.prems tx by (simp add: ishikawa_lines_def take_Suc_conv_app_nth [of ?k])
  have h: "?h = \<lparr>is_nodes = map (finished_bone sanitize ls ?k) [0..<?k], is_root = Some 0, is_stack = bone_stack ls ?k,
       is_base = (if n = 0 then None else Some (fst (ls ! 1))), is_title = sanitize (sanitize (snd (ls ! 0)))\<rparr>"
    using Suc by simp
  have base: "(case is_base ?h of None \<Rightarrow> t | Some b \<Rightarrow> b) = fst (ls ! 1)" unfolding h using tx by (cases "n = 0") auto
  have level: "(if t - fst (ls ! 1) + 1 \<le> 0 then 1 else t - fst (ls ! 1) + 1) = bone_level ls ?k"
    by (simp add: bone_level_def tx)
  obtain p ps where p: "rev (enclosing (bone_level ls) (\<lambda>_. True) ?k) = p # ps"
    using head_encloses [of ?k ls] by (cases "rev (enclosing (bone_level ls) (\<lambda>_. True) ?k)") auto
  then have par: "bone_parent ls ?k = Some p" by (simp add: parent_of_enclosing)
  then have "p < ?k" using sections.par_before by blast
  have stack: "pop_bones (bone_level ls ?k) (bone_stack ls ?k) = (bone_level ls p, p) # map (\<lambda>j. (bone_level ls j, j)) ps"
    using bone_stack_pop [of ?k ls] p by simp
  have "children_of (bone_parent ls) ?k (Some ?k) = []"
    using sections.par_before by (fastforce simp: children_of_def filter_empty_conv)
  then have new: "\<lparr>bo_text = sanitize x, bo_children = []\<rparr> = finished_bone sanitize ls (Suc ?k) ?k"
    using sections.par_before [of "bone_level ls" "\<lambda>_. True" ?k ?k] tx by (auto simp: finished_bone_def children_of_Suc)
  have other: "finished_bone sanitize ls (Suc ?k) j = finished_bone sanitize ls ?k j" if "p \<noteq> j" for j
    using that par by (simp add: finished_bone_def children_of_Suc)
  let ?nodes = "map (finished_bone sanitize ls ?k) [0..<?k] @ [\<lparr>bo_text = sanitize x, bo_children = []\<rparr>]"
  have at: "?nodes ! p = finished_bone sanitize ls ?k p" using \<open>p < ?k\<close> by (simp add: nth_append del: upt_Suc)
  have pushed: "(finished_bone sanitize ls ?k p)\<lparr>bo_children := bo_children (finished_bone sanitize ls ?k p) @ [?k]\<rparr> =
      finished_bone sanitize ls (Suc ?k) p"
    using par by (simp add: finished_bone_def children_of_Suc)
  have nodes: "?nodes[p := finished_bone sanitize ls (Suc ?k) p] = map (finished_bone sanitize ls (Suc ?k)) [0..<Suc ?k]"
    using \<open>p < ?k\<close> other new by (intro nth_equalityI) (auto simp: nth_append nth_list_update less_Suc_eq simp del: upt_Suc)
  have "ishikawa_add_node sanitize t x ?h = ?h\<lparr>is_nodes := ?nodes[p := finished_bone sanitize ls (Suc ?k) p],
      is_base := Some (fst (ls ! 1)), is_stack := (bone_level ls ?k, ?k) # (bone_level ls p, p) # map (\<lambda>j. (bone_level ls j, j)) ps\<rparr>"
    unfolding ishikawa_add_node_def Let_def base level unfolding h using stack at pushed
    by (simp del: upt_Suc)
  also have "(bone_level ls ?k, ?k) # (bone_level ls p, p) # map (\<lambda>j. (bone_level ls j, j)) ps = bone_stack ls (Suc ?k)"
    using p by (simp add: bone_stack_Suc)
  finally show ?case unfolding step nodes by (simp add: h del: upt_Suc)
qed



section \<open>Properties\<close>

text \<open>C21. A treemap is the tree that its text shows: row \<open>i\<close> is a child of the last section still open before it, in the
  order of the text, leaves have no children, and the traversal, which always ends, registers every row once, in
  order, on the level of its depth, with the outermost rows as roots.\<close>

theorem treemap_outline:
  "let rows = treemap_rows ss; n = length rows in
    treemap_populate ss = Some (filled_db (collect_classes ss Map.empty) (depth_of (row_parent rows)) n) \<and>
    hi_nodes (build_hierarchy rows) = map (finished_node rows n) [0..<n] \<and>
    hi_roots (build_hierarchy rows) = children_of (row_parent rows) n None"
proof -
  define rows where "rows = treemap_rows ss"
  let ?n = "length rows" and ?h = "build_hierarchy rows"
  have h: "hi_nodes ?h = map (finished_node rows ?n) [0..<?n]" "hi_roots ?h = children_of (row_parent rows) ?n None"
    using build_take [of ?n rows] by simp_all
  have kids: "node_children (hi_nodes ?h ! l) = children_of (row_parent rows) ?n (Some l)" if "l < ?n" for l
  proof (cases "tr_leaf (rows ! l)")
    case True
    have "\<not> row_section rows l" using True by (simp add: row_section_def)
    then have "row_parent rows i \<noteq> Some l" for i
      using in_enclosing [of l "row_level rows" "row_section rows" i] unfolding parent_of_enclosing
      by (auto split: list.splits)
    then show ?thesis using True that by (simp add: h finished_node_def node_children_def children_of_def)
  qed (use that in \<open>simp add: h finished_node_def node_children_def\<close>)
  have "preorder ?n (\<lambda>l. node_children (hi_nodes ?h ! l)) 0 (hi_roots ?h) =
      preorder ?n (\<lambda>p. children_of (row_parent rows) ?n (Some p)) 0 (hi_roots ?h)"
    by (rule preorder_cong [of ?n]) (use kids children_of_range in \<open>simp_all add: h\<close>)
  also have "\<dots> = Some (map (\<lambda>i. (i, depth_of (row_parent rows) i)) [0..<?n])"
    unfolding h by (rule sections.preorder_all) simp
  finally show ?thesis
    using h by (simp add: treemap_populate_def add_nodes_preorder add_all_nodes Let_def flip: rows_def)
qed

text \<open>A fishbone diagram is one tree: the first line is its head and its title, every other line hangs on the last
  line before it that is indented less, where lines indented less than the second count like the second, and from the
  head every line is reached once, in the order of the text.\<close>

lemma ishikawa_outline:
  assumes "ls \<noteq> []"
  shows "let db = ishikawa_lines sanitize ls ishikawa_clear; n = length ls in
    is_root db = Some 0 \<and> is_title db = sanitize (sanitize (snd (ls ! 0))) \<and>
    is_nodes db = map (finished_bone sanitize ls n) [0..<n] \<and>
    preorder n (\<lambda>i. bo_children (is_nodes db ! i)) 0 [0] = Some (map (\<lambda>i. (i, depth_of (bone_parent ls) i)) [0..<n])"
proof -
  let ?db = "ishikawa_lines sanitize ls ishikawa_clear" and ?n = "length ls"
  obtain m where m: "?n = Suc m" using assms by (cases ls) auto
  have db: "is_root ?db = Some 0" "is_title ?db = sanitize (sanitize (snd (ls ! 0)))"
      "is_nodes ?db = map (finished_bone sanitize ls ?n) [0..<?n]"
    using ishikawa_take [of m ls sanitize] m by (simp_all del: upt_Suc)
  have kids: "bo_children (is_nodes ?db ! i) = children_of (bone_parent ls) ?n (Some i)" if "i < ?n" for i
    using that by (simp add: db(3) finished_bone_def)
  have "[0] = children_of (bone_parent ls) ?n None"
    unfolding children_of_def bone_parent_None using m by (simp add: upt_conv_Cons filter_empty_conv del: upt_Suc)
  moreover have "preorder ?n (\<lambda>i. bo_children (is_nodes ?db ! i)) 0 [0] =
      preorder ?n (\<lambda>p. children_of (bone_parent ls) ?n (Some p)) 0 [0]"
    by (rule preorder_cong [of ?n]) (use kids children_of_range m in auto)
  moreover have "preorder ?n (\<lambda>p. children_of (bone_parent ls) ?n (Some p)) 0 (children_of (bone_parent ls) ?n None) =
      Some (map (\<lambda>i. (i, depth_of (bone_parent ls) i)) [0..<?n])"
    by (rule sections.preorder_all) simp
  ultimately show ?thesis using db by (simp add: Let_def)
qed


section \<open>Witnesses\<close>

definition demo_bones :: "(int \<times> ustr) list" where
  "demo_bones = [(0, lit ''late''), (4, lit ''people''), (6, lit ''sick''), (2, lit ''tools'')]"

end
