(* ===== verification/Er_Diagram.thy ===== *)
theory Er_Diagram
  imports Js_Library
begin

text \<open>
  The records of entity relationship diagrams (\<open>ErDB\<close> of \<open>docs/mermaid.tiny.js\<close>, line 486), what the
  statements of the text do to them (the actions of the grammar, line 481), and the nodes and edges they give to the
  layout. Fields that are the same for every node or edge are left out.
\<close>

section \<open>Records\<close>

datatype cardinality = ZERO_OR_ONE | ZERO_OR_MORE | ONE_OR_MORE | ONLY_ONE | MD_PARENT

datatype identification = NON_IDENTIFYING | IDENTIFYING

record rel_spec =
  card_a :: cardinality
  rel_type :: identification
  card_b :: cardinality

record er_attribute =
  at_type :: ustr
  at_name :: ustr
  at_keys :: "ustr list option"
  at_comment :: "ustr option"

record er_entity =
  en_id :: ustr
  en_label :: ustr
  en_attributes :: "er_attribute list"
  en_alias :: ustr
  en_look :: ustr
  en_classes :: ustr
  en_styles :: "ustr list"
  en_compiled :: "ustr list option"
  en_color :: "nat option"

record er_relation =
  rl_a :: ustr
  rl_role :: ustr
  rl_b :: ustr
  rl_spec :: rel_spec

record er_state =
  er_entities :: "(ustr \<times> er_entity) list"
  er_relationships :: "er_relation list"
  er_classes :: "(ustr \<times> style_class) list"
  er_direction :: ustr

definition er_new :: er_state where
  "er_new = \<lparr>er_entities = [], er_relationships = [], er_classes = [], er_direction = lit ''TB''\<rparr>"


section \<open>Operations\<close>

text \<open>\<open>addEntity\<close>: the name, the alias (empty when there is none), and the \<open>look\<close> of the configuration\<close>

definition entity_id :: "ustr \<Rightarrow> nat \<Rightarrow> ustr" where
  "entity_id t n = lit ''entity-'' @ t @ lit ''-'' @ show_nat n"

definition new_entity :: "ustr option \<Rightarrow> ustr \<Rightarrow> ustr \<Rightarrow> nat \<Rightarrow> er_entity" where
  "new_entity look t r n =
     \<lparr>en_id = entity_id t n, en_label = t, en_attributes = [], en_alias = r,
       en_look = (case look of None \<Rightarrow> lit ''default'' | Some l \<Rightarrow> l), en_classes = lit ''default'', en_styles = [],
       en_compiled = None, en_color = None\<rparr>"

definition add_entity :: "ustr option \<Rightarrow> ustr \<Rightarrow> ustr \<Rightarrow> er_state \<Rightarrow> er_state" where
  "add_entity look t r s =
     (case map_of (er_entities s) t of
        Some e \<Rightarrow>
          if en_alias e = [] \<and> r \<noteq> [] then s\<lparr>er_entities := map_set t (e\<lparr>en_alias := r\<rparr>) (er_entities s)\<rparr> else s
      | None \<Rightarrow> s\<lparr>er_entities := map_set t (new_entity look t r (length (er_entities s))) (er_entities s)\<rparr>)"

text \<open>\<open>addAttributes\<close>, from the last to the first\<close>

definition complete_attribute :: "er_attribute \<Rightarrow> er_attribute" where
  "complete_attribute a =
     a\<lparr>at_keys := Some (case at_keys a of None \<Rightarrow> [] | Some ks \<Rightarrow> ks),
       at_comment := Some (case at_comment a of None \<Rightarrow> [] | Some c \<Rightarrow> c)\<rparr>"

definition push_attribute :: "er_entity \<Rightarrow> er_attribute \<Rightarrow> er_entity" where
  "push_attribute i a = i\<lparr>en_attributes := en_attributes i @ [complete_attribute a]\<rparr>"

definition change_entity :: "ustr \<Rightarrow> (er_entity \<Rightarrow> er_entity) \<Rightarrow> er_state \<Rightarrow> er_state" where
  "change_entity t f s = s\<lparr>er_entities := map_change t f (er_entities s)\<rparr>"

definition add_attributes :: "ustr option \<Rightarrow> ustr \<Rightarrow> er_attribute list \<Rightarrow> er_state \<Rightarrow> er_state" where
  "add_attributes look t r s = change_entity t (\<lambda>i. foldl push_attribute i (rev r)) (add_entity look t [] s)"

text \<open>\<open>addRelationship\<close>\<close>

definition add_relationship :: "ustr \<Rightarrow> ustr \<Rightarrow> ustr \<Rightarrow> rel_spec \<Rightarrow> er_state \<Rightarrow> er_state" where
  "add_relationship t r i n s =
     (case (map_of (er_entities s) t, map_of (er_entities s) i) of
        (Some a, Some b) \<Rightarrow>
          s\<lparr>er_relationships := er_relationships s @ [\<lparr>rl_a = en_id a, rl_role = r, rl_b = en_id b, rl_spec = n\<rparr>]\<rparr>
      | _ \<Rightarrow> s)"

definition set_direction :: "ustr \<Rightarrow> er_state \<Rightarrow> er_state" where
  "set_direction t s = s\<lparr>er_direction := t\<rparr>"

text \<open>\<open>getCompiledStyles\<close>\<close>

fun compiled_styles :: "(ustr \<times> style_class) list \<Rightarrow> ustr list \<Rightarrow> ustr list \<Rightarrow> ustr list" where
  "compiled_styles classes [] r = r"
| "compiled_styles classes (i # t) r =
     compiled_styles classes t
       (case map_of classes i of
          None \<Rightarrow> r
        | Some n \<Rightarrow> map js_trim (map js_trim (r @ sc_styles n) @ sc_text_styles n))"

text \<open>\<open>addCssStyles\<close>: it is left at the first name that is not an entity.\<close>

fun add_css_styles :: "ustr list \<Rightarrow> ustr list option \<Rightarrow> er_state \<Rightarrow> er_state" where
  "add_css_styles [] r s = s"
| "add_css_styles (i # t) r s =
     (case (r, map_of (er_entities s) i) of
        (Some ss, Some n) \<Rightarrow>
          add_css_styles t r (change_entity i (\<lambda>e. e\<lparr>en_styles := en_styles e @ ss\<rparr>) s)
      | _ \<Rightarrow> s)"

text \<open>\<open>addClass\<close> and \<open>setClass\<close>\<close>

definition er_add_class :: "ustr list \<Rightarrow> ustr list option \<Rightarrow> er_state \<Rightarrow> er_state" where
  "er_add_class t r s = s\<lparr>er_classes := foldl (define_style r) (er_classes s) t\<rparr>"

definition join_class :: "ustr \<Rightarrow> ustr \<Rightarrow> ustr" where
  "join_class classes c = classes @ lit '' '' @ c"

definition er_set_class :: "ustr list \<Rightarrow> ustr list \<Rightarrow> er_state \<Rightarrow> er_state" where
  "er_set_class t r s =
     foldl (\<lambda>s i. change_entity i (\<lambda>n. n\<lparr>en_classes := foldl join_class (en_classes n) r\<rparr>) s) s t"

definition er_clear :: "er_state \<Rightarrow> er_state" where
  "er_clear s = s\<lparr>er_entities := [], er_classes := [], er_relationships := []\<rparr>"


section \<open>The nodes and the edges\<close>

record er_edge =
  ed_id :: ustr
  ed_start :: ustr
  ed_end :: ustr
  ed_label :: ustr
  ed_arrow_start :: ustr
  ed_arrow_end :: ustr
  ed_pattern :: ustr
  ed_look :: "ustr option"

text \<open>\<open>getEdgeId\<close> (line 134), with a prefix and a counter\<close>

definition edge_id :: "ustr \<Rightarrow> ustr \<Rightarrow> nat \<Rightarrow> ustr \<Rightarrow> ustr" where
  "edge_id e t counter prefix =
     (if prefix = [] then [] else prefix @ lit ''_'') @ e @ lit ''_'' @ t @ lit ''_'' @ show_nat counter"

fun cardinality_name :: "cardinality \<Rightarrow> ustr" where
  "cardinality_name ZERO_OR_ONE = lit ''ZERO_OR_ONE''"
| "cardinality_name ZERO_OR_MORE = lit ''ZERO_OR_MORE''"
| "cardinality_name ONE_OR_MORE = lit ''ONE_OR_MORE''"
| "cardinality_name ONLY_ONE = lit ''ONLY_ONE''"
| "cardinality_name MD_PARENT = lit ''MD_PARENT''"

definition arrow_of :: "cardinality \<Rightarrow> ustr" where
  "arrow_of c = map ascii_lower (cardinality_name c)"

definition er_edge_of :: "ustr option \<Rightarrow> nat \<Rightarrow> er_relation \<Rightarrow> er_edge" where
  "er_edge_of look n o' =
     \<lparr>ed_id = edge_id (rl_a o') (rl_b o') n (lit ''id''), ed_start = rl_a o', ed_end = rl_b o', ed_label = rl_role o',
       ed_arrow_start = arrow_of (card_b (rl_spec o')), ed_arrow_end = arrow_of (card_a (rl_spec o')),
       ed_pattern = (if rel_type (rl_spec o') = IDENTIFYING then lit ''solid'' else lit ''dashed''), ed_look = look\<rparr>"

text \<open>\<open>getData\<close>: the loop over the entities, which stores the styles and the place in each, and over the relations\<close>

definition finish_entity :: "(ustr \<times> style_class) list \<Rightarrow> nat \<Rightarrow> er_entity \<Rightarrow> er_entity" where
  "finish_entity classes n l =
     l\<lparr>en_compiled := Some (compiled_styles classes (split_at (ch (CHR '' '')) (en_classes l)) []), en_color := Some n\<rparr>"

fun er_nodes_from :: "(ustr \<times> style_class) list \<Rightarrow> nat \<Rightarrow> (ustr \<times> er_entity) list \<Rightarrow> er_entity list" where
  "er_nodes_from classes n [] = []"
| "er_nodes_from classes n ((_, l) # ls) = finish_entity classes n l # er_nodes_from classes (Suc n) ls"

fun er_edges_from :: "ustr option \<Rightarrow> nat \<Rightarrow> er_relation list \<Rightarrow> er_edge list" where
  "er_edges_from look n [] = []"
| "er_edges_from look n (o' # os) = er_edge_of look n o' # er_edges_from look (Suc n) os"

definition er_get_data :: "ustr option \<Rightarrow> er_state \<Rightarrow> er_entity list \<times> er_edge list" where
  "er_get_data look s =
     (er_nodes_from (er_classes s) 0 (er_entities s), er_edges_from look 0 (er_relationships s))"

text \<open>Markers for the ends of an edge (line 302) by the arrow; one that is not there gets none.\<close>

definition arrow_marker :: "ustr \<Rightarrow> ustr option" where
  "arrow_marker = map_of (map (\<lambda>(a, m). (lit a, lit m))
     [(''arrow_cross'', ''cross''), (''arrow_point'', ''point''), (''arrow_barb'', ''barb''),
      (''arrow_barb_neo'', ''barb''), (''arrow_circle'', ''circle''), (''aggregation'', ''aggregation''),
      (''extension'', ''extension''), (''composition'', ''composition''), (''dependency'', ''dependency''),
      (''lollipop'', ''lollipop''), (''only_one'', ''onlyOne''), (''zero_or_one'', ''zeroOrOne''),
      (''one_or_more'', ''oneOrMore''), (''zero_or_more'', ''zeroOrMore''),
      (''requirement_arrow'', ''requirement_arrow''), (''requirement_contains'', ''requirement_contains'')])"


section \<open>Statements\<close>

text \<open>
  A statement of the text. An end of a relation is a name with the classes given to it; an entity has a name, and
  perhaps an alias, classes and a block of attributes (none is the same as an empty one).
\<close>

datatype er_statement =
    Relates "ustr \<times> ustr list option" rel_spec "ustr \<times> ustr list option" ustr
  | EntityDef ustr "ustr option" "ustr list option" "er_attribute list"
  | Direction ustr
  | StyleDef "ustr list" "ustr list"
  | GiveClass "ustr list" "ustr list"
  | GiveStyle "ustr list" "ustr list"

text \<open>The list of attributes that the grammar builds: the first one is pushed onto the list of the others.\<close>

fun attribute_list :: "er_attribute list \<Rightarrow> er_attribute list" where
  "attribute_list [] = []"
| "attribute_list (a # as) = attribute_list as @ [a]"

definition give_classes :: "ustr \<Rightarrow> ustr list option \<Rightarrow> er_state \<Rightarrow> er_state" where
  "give_classes t c s = (case c of None \<Rightarrow> s | Some r \<Rightarrow> er_set_class [t] r s)"

fun er_apply :: "ustr option \<Rightarrow> er_statement \<Rightarrow> er_state \<Rightarrow> er_state" where
  "er_apply look (Relates (a, ca) n (b, cb) r) s =
     give_classes b cb (give_classes a ca
       (add_relationship a r b n (add_entity look b [] (add_entity look a [] s))))"
| "er_apply look (EntityDef t al c as) s =
     (let s1 = add_entity look t (case al of None \<Rightarrow> [] | Some r \<Rightarrow> r) s;
          s2 = (if as = [] then s1 else add_attributes look t (attribute_list as) s1) in
      give_classes t c s2)"
| "er_apply look (Direction d) s = set_direction d s"
| "er_apply look (StyleDef t r) s = er_add_class t (Some r) s"
| "er_apply look (GiveClass t r) s = er_set_class t r s"
| "er_apply look (GiveStyle t r) s = add_css_styles t (Some r) s"

definition er_text :: "ustr option \<Rightarrow> er_statement list \<Rightarrow> er_state" where
  "er_text look ss = foldl (\<lambda>s st. er_apply look st s) er_new ss"



section \<open>The diagram of a text\<close>

text \<open>
  The abstract diagram: the names that entities have in the order in which the text mentions them first, and the
  relations between names.
\<close>

record er_view =
  es_names :: "ustr list"
  es_relations :: "(ustr \<times> ustr \<times> ustr) list"

definition mention :: "ustr \<Rightarrow> ustr list \<Rightarrow> ustr list" where
  "mention t names = (if t \<in> set names then names else names @ [t])"

fun er_spec_step :: "er_statement \<Rightarrow> er_view \<Rightarrow> er_view" where
  "er_spec_step (Relates (a, _) _ (b, _) r) d =
     d\<lparr>es_names := mention b (mention a (es_names d)), es_relations := es_relations d @ [(a, r, b)]\<rparr>"
| "er_spec_step (EntityDef t _ _ _) d = d\<lparr>es_names := mention t (es_names d)\<rparr>"
| "er_spec_step _ d = d"

definition er_spec_start :: er_view where
  "er_spec_start = \<lparr>es_names = [], es_relations = []\<rparr>"

definition er_spec :: "er_statement list \<Rightarrow> er_view" where
  "er_spec ss = foldl (\<lambda>d st. er_spec_step st d) er_spec_start ss"

text \<open>The id of a name: its place among the names is part of it.\<close>

definition place :: "ustr list \<Rightarrow> ustr \<Rightarrow> nat" where
  "place names t = length (takeWhile (\<lambda>k. k \<noteq> t) names)"

definition id_in :: "ustr list \<Rightarrow> ustr \<Rightarrow> ustr" where
  "id_in names t = entity_id t (place names t)"

definition named_entity :: "ustr \<times> er_entity \<Rightarrow> ustr \<times> ustr \<times> ustr" where
  "named_entity e = (fst e, en_label (snd e), en_id (snd e))"

definition named_relation :: "er_relation \<Rightarrow> ustr \<times> ustr \<times> ustr" where
  "named_relation o' = (rl_a o', rl_role o', rl_b o')"

definition er_implements :: "er_state \<Rightarrow> er_view \<Rightarrow> bool" where
  "er_implements s d \<longleftrightarrow>
     distinct (es_names d) \<and>
     map named_entity (er_entities s) = map (\<lambda>t. (t, t, id_in (es_names d) t)) (es_names d) \<and>
     (\<forall>(a, r, b)\<in>set (es_relations d). a \<in> set (es_names d) \<and> b \<in> set (es_names d)) \<and>
     map named_relation (er_relationships s) =
       map (\<lambda>(a, r, b). (id_in (es_names d) a, r, id_in (es_names d) b)) (es_relations d)"

lemma place_append: "t \<in> set names \<Longrightarrow> place (names @ ks) t = place names t"
  by (simp add: place_def takeWhile_append1)

lemma place_new: "t \<notin> set names \<Longrightarrow> place (names @ [t]) t = length names"
  by (subst place_def, subst takeWhile_append2) auto

lemma id_in_append [simp]: "t \<in> set names \<Longrightarrow> id_in (names @ ks) t = id_in names t"
  by (simp add: id_in_def place_append)

text \<open>Only \<open>addEntity\<close> changes what entities there are, and their names and ids.\<close>

definition same_diagram :: "er_state \<Rightarrow> er_state \<Rightarrow> bool" where
  "same_diagram s s' \<longleftrightarrow> map named_entity (er_entities s') = map named_entity (er_entities s) \<and>
     er_relationships s' = er_relationships s"

lemma same_diagram_trans: "same_diagram s s' \<Longrightarrow> same_diagram s' s'' \<Longrightarrow> same_diagram s s''"
  by (simp add: same_diagram_def)

lemma same_diagram_refl [simp]: "same_diagram s s"
  by (simp add: same_diagram_def)

lemma change_entity_same:
  "(\<And>e. en_label (f e) = en_label e \<and> en_id (f e) = en_id e) \<Longrightarrow> same_diagram s (change_entity t f s)"
  by (simp add: same_diagram_def change_entity_def map_change_same named_entity_def)

lemma set_class_same: "same_diagram s (er_set_class t r s)"
proof (induction t arbitrary: s)
  case (Cons i t)
  have "same_diagram s (change_entity i (\<lambda>n. n\<lparr>en_classes := foldl join_class (en_classes n) r\<rparr>) s)"
    by (rule change_entity_same) simp
  then show ?case using Cons same_diagram_trans by (fastforce simp: er_set_class_def)
qed (simp add: er_set_class_def)

lemma css_styles_same: "same_diagram s (add_css_styles t r s)"
proof (induction t r s rule: add_css_styles.induct)
  case (2 i t r s)
  have "same_diagram s (change_entity i (\<lambda>e. e\<lparr>en_styles := en_styles e @ ss\<rparr>) s)" for ss
    by (rule change_entity_same) simp
  then show ?case using 2 same_diagram_trans by (fastforce split: option.splits)
qed simp

lemma push_attribute_same:
  "en_label (foldl push_attribute i r) = en_label i \<and> en_id (foldl push_attribute i r) = en_id i"
  by (induction r arbitrary: i) (simp_all add: push_attribute_def)

lemma give_classes_same: "same_diagram s (give_classes t c s)"
  by (cases c) (simp_all add: give_classes_def set_class_same)

lemma implements_same: "er_implements s d \<Longrightarrow> same_diagram s s' \<Longrightarrow> er_implements s' d"
  by (simp add: er_implements_def same_diagram_def)

lemma entity_keys:
  assumes "er_implements s d"
  shows "map fst (er_entities s) = es_names d"
proof -
  have "map fst (map named_entity (er_entities s)) = es_names d"
    using assms by (simp add: er_implements_def comp_def)
  then show ?thesis by (simp add: named_entity_def comp_def)
qed

lemma entity_at:
  assumes "er_implements s d"
  shows "t \<in> set (es_names d) \<longleftrightarrow> (\<exists>e. map_of (er_entities s) t = Some e)"
    and "map_of (er_entities s) t = Some e \<Longrightarrow> en_id e = id_in (es_names d) t"
proof -
  have "t \<in> set (es_names d) \<longleftrightarrow> t \<in> fst ` set (er_entities s)"
    using arg_cong [OF entity_keys [OF assms], of set] by simp
  then show "t \<in> set (es_names d) \<longleftrightarrow> (\<exists>e. map_of (er_entities s) t = Some e)"
    by (metis map_of_eq_None_iff not_None_eq)
  assume "map_of (er_entities s) t = Some e"
  then have "named_entity (t, e) \<in> set (map named_entity (er_entities s))" by (auto dest: map_of_SomeD)
  also have "\<dots> = set (map (\<lambda>t. (t, t, id_in (es_names d) t)) (es_names d))"
    using assms by (simp only: er_implements_def)
  finally show "en_id e = id_in (es_names d) t" by (auto simp: named_entity_def)
qed

lemma add_entity_implements:
  assumes "er_implements s d"
  shows "er_implements (add_entity look t r s) (d\<lparr>es_names := mention t (es_names d)\<rparr>)"
proof (cases "map_of (er_entities s) t")
  case (Some e)
  then have "mention t (es_names d) = es_names d" using entity_at(1) [OF assms, of t] by (simp add: mention_def)
  moreover have "same_diagram s (add_entity look t r s)"
    using Some by (simp add: add_entity_def same_diagram_def map_set_same [of _ _ e] named_entity_def)
  ultimately show ?thesis using implements_same [OF assms] by simp
next
  case None
  then have new: "t \<notin> set (es_names d)" using entity_at(1) [OF assms, of t] by simp
  then have key: "t \<notin> fst ` set (er_entities s)" using None by (simp add: map_of_eq_None_iff)
  have n: "length (er_entities s) = length (es_names d)"
    using entity_keys [OF assms] by (metis length_map)
  have "map named_entity (er_entities s) = map (\<lambda>k. (k, k, id_in (es_names d @ [t]) k)) (es_names d)"
    using assms by (simp add: er_implements_def)
  moreover have "id_in (es_names d @ [t]) t = entity_id t (length (es_names d))"
    using new by (simp add: id_in_def place_new)
  moreover have "map (\<lambda>(a, r, b). (id_in (es_names d) a, r, id_in (es_names d) b)) (es_relations d) =
      map (\<lambda>(a, r, b). (id_in (es_names d @ [t]) a, r, id_in (es_names d @ [t]) b)) (es_relations d)"
    using assms by (auto simp: er_implements_def)
  ultimately show ?thesis
    using assms new None key n
    by (auto simp: er_implements_def add_entity_def mention_def map_set_new named_entity_def new_entity_def)
qed

lemma add_relationship_implements:
  assumes "er_implements s d" and "a \<in> set (es_names d)" and "b \<in> set (es_names d)"
  shows "er_implements (add_relationship a r b n s) (d\<lparr>es_relations := es_relations d @ [(a, r, b)]\<rparr>)"
  using assms entity_at [OF assms(1)]
  by (auto simp: er_implements_def add_relationship_def named_relation_def)

lemma add_attributes_same:
  "same_diagram (add_entity look t [] s) (add_attributes look t as s)"
  unfolding add_attributes_def by (rule change_entity_same) (rule push_attribute_same)

lemma mention_in: "t \<in> set (mention t names)" "k \<in> set names \<Longrightarrow> k \<in> set (mention t names)"
  by (simp_all add: mention_def)

lemma mention_again [simp]: "mention t (mention t names) = mention t names"
  by (simp add: mention_def)

lemma er_apply_implements:
  assumes "er_implements s d"
  shows "er_implements (er_apply look st s) (er_spec_step st d)"
proof (cases st)
  case (Relates ea n eb r)
  obtain a ca b cb where e: "ea = (a, ca)" "eb = (b, cb)" by (cases ea, cases eb)
  let ?s = "add_entity look b [] (add_entity look a [] s)" and ?d = "d\<lparr>es_names := mention b (mention a (es_names d))\<rparr>"
  have "er_implements ?s ?d"
    using add_entity_implements [OF add_entity_implements [OF assms], of look b "[]" look a "[]"] by simp
  then have "er_implements (add_relationship a r b n ?s) (?d\<lparr>es_relations := es_relations ?d @ [(a, r, b)]\<rparr>)"
    by (rule add_relationship_implements) (simp_all add: mention_in)
  then show ?thesis
    using Relates e implements_same [OF _ same_diagram_trans [OF give_classes_same give_classes_same]] by simp
next
  case (EntityDef t al c as)
  have "er_implements (add_entity look t r s) (er_spec_step st d)" for r
    using add_entity_implements [OF assms] EntityDef by simp
  moreover from this add_entity_implements [of _ "er_spec_step st d" look t "[]"] EntityDef
  have "er_implements (add_entity look t [] (add_entity look t r s)) (er_spec_step st d)" for r by simp
  ultimately show ?thesis
    using EntityDef implements_same [OF _ add_attributes_same] implements_same [OF _ give_classes_same]
    by (simp add: Let_def)
next
  case (GiveClass t r)
  then show ?thesis using implements_same [OF assms set_class_same] by simp
next
  case (GiveStyle t r)
  then show ?thesis using implements_same [OF assms css_styles_same] by simp
qed (use assms in \<open>simp_all add: er_implements_def set_direction_def er_add_class_def\<close>)

interpretation er: simulation er_new "er_apply look" er_spec_start er_spec_step er_implements for look
  by unfold_locales (simp add: er_implements_def er_new_def er_spec_start_def, rule er_apply_implements)

lemma er_text_implements: "er_implements (er_text look ss) (er_spec ss)"
  unfolding er_text_def er_spec_def by (rule er.run_simulated)


section \<open>Properties\<close>

lemma er_nodes_from_length [simp]: "length (er_nodes_from classes n es) = length es"
  by (induction classes n es rule: er_nodes_from.induct) simp_all

lemma er_nodes_from_places:
  "map en_color (er_nodes_from classes n es) = map Some [n..<n + length es]"
  by (induction classes n es rule: er_nodes_from.induct) (simp_all add: finish_entity_def upt_conv_Cons del: upt_Suc)

lemma er_nodes_from_views:
  "map en_label (er_nodes_from classes n es) = map (\<lambda>e. fst (snd (named_entity e))) es"
  "map en_id (er_nodes_from classes n es) = map (\<lambda>e. snd (snd (named_entity e))) es"
  by (induction classes n es rule: er_nodes_from.induct) (simp_all add: finish_entity_def named_entity_def)

lemma er_edges_from_ends:
  "map (\<lambda>e. (ed_start e, ed_label e, ed_end e)) (er_edges_from look n os) = map named_relation os"
  by (induction look n os rule: er_edges_from.induct) (simp_all add: er_edge_of_def named_relation_def)

text \<open>Ids end in a number that no other one ends in.\<close>

definition tail_number :: "ustr \<Rightarrow> ustr" where
  "tail_number s = takeWhile is_digit (rev s)"

lemma tail_number_show: "\<not> is_digit c \<Longrightarrow> tail_number (p @ c # show_nat m) = rev (show_nat m)"
  using show_nat_digits [of m] by (auto simp: tail_number_def list_all_iff takeWhile_append)

lemma tail_number_ids [simp]:
  "tail_number (entity_id t n) = rev (show_nat n)"
  "tail_number (edge_id a b n prefix) = rev (show_nat n)"
  using tail_number_show [of "ch (CHR ''-'')" "lit ''entity-'' @ t" n]
    tail_number_show [of "ch (CHR ''_'')" "(if prefix = [] then [] else prefix @ lit ''_'') @ a @ lit ''_'' @ b" n]
  by (simp_all add: entity_id_def edge_id_def lit_def ch_def is_digit_def)

lemma distinct_by_number:
  assumes "map tail_number xs = map (\<lambda>n. rev (show_nat n)) [i..<j]"
  shows "distinct xs"
proof -
  have "distinct (map (\<lambda>n. rev (show_nat n)) [i..<j])" by (simp add: distinct_map inj_on_def)
  then have "distinct (map tail_number xs)" by (simp only: assms)
  then show ?thesis by (simp add: distinct_map)
qed

lemma places: "distinct names \<Longrightarrow> map (place names) names = [0..<length names]"
proof (induction names rule: rev_induct)
  case (snoc t names)
  then have "map (place (names @ [t])) names = [0..<length names]" by (simp add: place_append cong: map_cong)
  then show ?case using snoc.prems by (simp add: place_new)
qed simp

lemma entity_ids_distinct:
  assumes "distinct names"
  shows "distinct (map (id_in names) names)"
proof (rule distinct_by_number)
  show "map tail_number (map (id_in names) names) = map (\<lambda>n. rev (show_nat n)) [0..<length names]"
    by (simp add: id_in_def places [OF assms, symmetric])
qed

lemma edge_ids_distinct: "distinct (map ed_id (er_edges_from look n os))"
proof (rule distinct_by_number)
  show "map tail_number (map ed_id (er_edges_from look n os)) = map (\<lambda>n. rev (show_nat n)) [n..<n + length os]"
    by (induction look n os rule: er_edges_from.induct) (simp_all add: er_edge_of_def upt_conv_Cons del: upt_Suc)
qed

text \<open>
  C0. The diagram of a text has one node for every name it mentions, in the order in which they come first and numbered
  so for the colours, and one edge for every relation, in their order: it has the label of the relation and joins
  the nodes of its two names. No two nodes and no two edges have the same id.
\<close>

theorem er_diagram_of_text:
  "(let d = er_spec ss; nodes = fst (er_get_data look (er_text look ss)); edges = snd (er_get_data look (er_text look ss)) in
      distinct (es_names d) \<and> map en_label nodes = es_names d \<and>
      map en_id nodes = map (id_in (es_names d)) (es_names d) \<and> distinct (map en_id nodes) \<and>
      map en_color nodes = map Some [0..<length nodes] \<and>
      map (\<lambda>e. (ed_start e, ed_label e, ed_end e)) edges =
        map (\<lambda>(a, r, b). (id_in (es_names d) a, r, id_in (es_names d) b)) (es_relations d) \<and>
      set (map ed_start edges) \<union> set (map ed_end edges) \<subseteq> set (map en_id nodes) \<and> distinct (map ed_id edges))"
proof -
  let ?d = "er_spec ss" and ?s = "er_text look ss"
  let ?nodes = "fst (er_get_data look ?s)" and ?edges = "snd (er_get_data look ?s)"
  have D: "er_implements ?s ?d" by (rule er_text_implements)
  then have names: "distinct (es_names ?d)"
    and E: "map named_entity (er_entities ?s) = map (\<lambda>t. (t, t, id_in (es_names ?d) t)) (es_names ?d)"
    by (simp_all add: er_implements_def)
  have views: "map f (map named_entity (er_entities ?s)) = map (\<lambda>t. f (t, t, id_in (es_names ?d) t)) (es_names ?d)" for f :: "_ \<Rightarrow> ustr"
    by (simp add: E)
  have labels: "map en_label ?nodes = es_names ?d"
    using views [of "\<lambda>e. fst (snd e)"] by (simp add: er_get_data_def er_nodes_from_views comp_def)
  have ids: "map en_id ?nodes = map (id_in (es_names ?d)) (es_names ?d)"
    using views [of "\<lambda>e. snd (snd e)"] by (simp add: er_get_data_def er_nodes_from_views comp_def)
  have colors: "map en_color ?nodes = map Some [0..<length ?nodes]"
    using er_nodes_from_places [of "er_classes ?s" 0 "er_entities ?s"] by (simp add: er_get_data_def)
  have ends: "map (\<lambda>e. (ed_start e, ed_label e, ed_end e)) ?edges =
      map (\<lambda>(a, r, b). (id_in (es_names ?d) a, r, id_in (es_names ?d) b)) (es_relations ?d)"
    using D by (simp add: er_get_data_def er_edges_from_ends er_implements_def)
  have inside: "set (map ed_start ?edges) \<union> set (map ed_end ?edges) \<subseteq> set (map en_id ?nodes)"
  proof -
    have starts: "map ed_start ?edges = map (id_in (es_names ?d)) (map fst (es_relations ?d))"
      and stops: "map ed_end ?edges = map (id_in (es_names ?d)) (map (\<lambda>x. snd (snd x)) (es_relations ?d))"
      using arg_cong [OF ends, of "map fst"] arg_cong [OF ends, of "map (\<lambda>x. snd (snd x))"]
      by (simp_all add: comp_def split_def)
    have "set (map fst (es_relations ?d)) \<subseteq> set (es_names ?d)"
      "set (map (\<lambda>x. snd (snd x)) (es_relations ?d)) \<subseteq> set (es_names ?d)"
      using D by (auto simp: er_implements_def)
    then show ?thesis
      unfolding ids starts stops Un_subset_iff set_map [of "id_in (es_names ?d)"] by (intro conjI image_mono)
  qed
  have nodes: "distinct (map en_id ?nodes)" unfolding ids by (rule entity_ids_distinct [OF names])
  have edges: "distinct (map ed_id ?edges)" by (simp add: er_get_data_def edge_ids_distinct)
  show ?thesis
    unfolding Let_def by (intro conjI names labels ids nodes colors ends inside edges)
qed

text \<open>The end of a relation that stands for a parent has an arrow without a marker.\<close>

lemma parent_end_unmarked: "arrow_marker (arrow_of c) = None \<longleftrightarrow> c = MD_PARENT"
  by (cases c) (simp_all add: arrow_marker_def arrow_of_def lit_def ch_def ascii_lower_def is_upper_def)

text \<open>\<open>style\<close> leaves out the names after one that is not an entity; \<open>class\<close> does not.\<close>

lemma styles_stop_at_unknown:
  "map_of (er_entities s) i = None \<Longrightarrow> add_css_styles (i # t) r s = s \<and> er_set_class (i # t) c s = er_set_class t c s"
  by (auto simp: er_set_class_def change_entity_def map_change_def split: option.splits)

text \<open>The attributes of an entity are those of its blocks, in the order of the text.\<close>

lemma rev_attribute_list: "attribute_list as = rev as"
  by (induction as) simp_all

lemma attributes_in_order:
  "foldl push_attribute i (rev (attribute_list as)) =
     i\<lparr>en_attributes := en_attributes i @ map complete_attribute as\<rparr>"
  unfolding rev_attribute_list by (induction as arbitrary: i) (simp_all add: push_attribute_def)

end
