(* ===== verification/Requirement_Diagram.thy ===== *)
theory Requirement_Diagram
  imports Js_Library
begin

text \<open>
  The records of requirement diagrams (\<open>RequirementDB\<close> of \<open>docs/mermaid.tiny.js\<close>, line 1168), what the statements
  of the text do to them (the actions of the grammar, line 1163), and the nodes and edges they give to the layout.
  Fields that are the same for every node or edge are left out.
\<close>

section \<open>Records\<close>

record req_fields =
  rf_id :: ustr
  rf_text :: ustr
  rf_risk :: ustr
  rf_verify :: ustr

record requirement =
  rn_name :: ustr
  rn_type :: ustr
  rn_fields :: req_fields
  rn_styles :: "ustr list"
  rn_classes :: "ustr list"

record el_fields =
  ef_type :: ustr
  ef_doc :: ustr

record req_element =
  el_name :: ustr
  el_fields :: el_fields
  el_styles :: "ustr list"
  el_classes :: "ustr list"

record req_relation =
  rr_type :: ustr
  rr_src :: ustr
  rr_dst :: ustr

record req_state =
  rq_requirements :: "(ustr \<times> requirement) list"
  rq_elements :: "(ustr \<times> req_element) list"
  rq_relations :: "req_relation list"
  rq_latest :: req_fields
  rq_latest_element :: el_fields
  rq_classes :: "(ustr \<times> style_class) list"
  rq_direction :: ustr

text \<open>\<open>getInitialRequirement\<close> and \<open>getInitialElement\<close>: what the lines of a body set\<close>

definition initial_requirement :: req_fields where
  "initial_requirement = \<lparr>rf_id = [], rf_text = [], rf_risk = [], rf_verify = []\<rparr>"

definition initial_element :: el_fields where
  "initial_element = \<lparr>ef_type = [], ef_doc = []\<rparr>"

definition req_new :: req_state where
  "req_new = \<lparr>rq_requirements = [], rq_elements = [], rq_relations = [], rq_latest = initial_requirement,
     rq_latest_element = initial_element, rq_classes = [], rq_direction = lit ''TB''\<rparr>"


section \<open>Operations\<close>

text \<open>\<open>addRequirement\<close> and \<open>addElement\<close>\<close>

definition add_requirement :: "ustr \<Rightarrow> ustr \<Rightarrow> req_state \<Rightarrow> req_state" where
  "add_requirement t r s =
     (let rs = (if t \<in> fst ` set (rq_requirements s) then rq_requirements s
                else map_set t \<lparr>rn_name = t, rn_type = r, rn_fields = rq_latest s, rn_styles = [],
                  rn_classes = [lit ''default'']\<rparr> (rq_requirements s)) in
      s\<lparr>rq_requirements := rs, rq_latest := initial_requirement\<rparr>)"

definition add_element :: "ustr \<Rightarrow> req_state \<Rightarrow> req_state" where
  "add_element t s =
     (let es = (if t \<in> fst ` set (rq_elements s) then rq_elements s
                else map_set t \<lparr>el_name = t, el_fields = rq_latest_element s, el_styles = [],
                  el_classes = [lit ''default'']\<rparr> (rq_elements s)) in
      s\<lparr>rq_elements := es, rq_latest_element := initial_element\<rparr>)"

text \<open>\<open>setNewReqId\<close>, \<open>setNewReqText\<close>, \<open>setNewReqRisk\<close>, \<open>setNewReqVerifyMethod\<close>, \<open>setNewElementType\<close>, \<open>setNewElementDocRef\<close>\<close>

datatype req_line = ReqId ustr | ReqText ustr | ReqRisk ustr | ReqVerify ustr

datatype el_line = ElType ustr | ElDocRef ustr

fun set_new_req :: "req_line \<Rightarrow> req_fields \<Rightarrow> req_fields" where
  "set_new_req (ReqId t) f = f\<lparr>rf_id := t\<rparr>"
| "set_new_req (ReqText t) f = f\<lparr>rf_text := t\<rparr>"
| "set_new_req (ReqRisk t) f = f\<lparr>rf_risk := t\<rparr>"
| "set_new_req (ReqVerify t) f = f\<lparr>rf_verify := t\<rparr>"

fun set_new_element :: "el_line \<Rightarrow> el_fields \<Rightarrow> el_fields" where
  "set_new_element (ElType t) f = f\<lparr>ef_type := t\<rparr>"
| "set_new_element (ElDocRef t) f = f\<lparr>ef_doc := t\<rparr>"

definition req_add_relationship :: "ustr \<Rightarrow> ustr \<Rightarrow> ustr \<Rightarrow> req_state \<Rightarrow> req_state" where
  "req_add_relationship t r i s = s\<lparr>rq_relations := rq_relations s @ [\<lparr>rr_type = t, rr_src = r, rr_dst = i\<rparr>]\<rparr>"

text \<open>
  A change of the styles and classes of what has a name: of the requirement, else of the element. \<open>None\<close> when there is
  neither.
\<close>

type_synonym looks = "ustr list \<times> ustr list"

definition restyle_requirement :: "(looks \<Rightarrow> looks) \<Rightarrow> requirement \<Rightarrow> requirement" where
  "restyle_requirement f n =
     n\<lparr>rn_styles := fst (f (rn_styles n, rn_classes n)), rn_classes := snd (f (rn_styles n, rn_classes n))\<rparr>"

definition restyle_element :: "(looks \<Rightarrow> looks) \<Rightarrow> req_element \<Rightarrow> req_element" where
  "restyle_element f n =
     n\<lparr>el_styles := fst (f (el_styles n, el_classes n)), el_classes := snd (f (el_styles n, el_classes n))\<rparr>"

definition restyle :: "ustr \<Rightarrow> (looks \<Rightarrow> looks) \<Rightarrow> req_state \<Rightarrow> req_state option" where
  "restyle i f s =
     (if i \<in> fst ` set (rq_requirements s)
      then Some (s\<lparr>rq_requirements := map_change i (restyle_requirement f) (rq_requirements s)\<rparr>)
      else if i \<in> fst ` set (rq_elements s)
      then Some (s\<lparr>rq_elements := map_change i (restyle_element f) (rq_elements s)\<rparr>)
      else None)"

text \<open>\<open>setCssStyle\<close>: it is left at the first name that is not there.\<close>

definition split_style :: "ustr \<Rightarrow> ustr list" where
  "split_style s = (if js_includes s (lit '','') then split_at (ch (CHR '','')) s else [s])"

fun set_css_style :: "ustr list \<Rightarrow> ustr list option \<Rightarrow> req_state \<Rightarrow> req_state" where
  "set_css_style [] r s = s"
| "set_css_style (i # t) None s = s"
| "set_css_style (i # t) (Some r) s =
     (case restyle i (\<lambda>(styles, classes). (foldl (\<lambda>ss e. ss @ split_style e) styles r, classes)) s of
        None \<Rightarrow> s
      | Some s' \<Rightarrow> set_css_style t (Some r) s')"

text \<open>\<open>setClass\<close>\<close>

definition push_class :: "(ustr \<times> style_class) list \<Rightarrow> looks \<Rightarrow> ustr \<Rightarrow> looks" where
  "push_class defs l s =
     (fst l @ (case map_of defs s of None \<Rightarrow> [] | Some o' \<Rightarrow> sc_styles o'), snd l @ [s])"

definition req_set_class :: "ustr list \<Rightarrow> ustr list \<Rightarrow> req_state \<Rightarrow> req_state" where
  "req_set_class t r s =
     foldl (\<lambda>s i. case restyle i (\<lambda>l. foldl (push_class (rq_classes s)) l r) s of None \<Rightarrow> s | Some s' \<Rightarrow> s') s t"

text \<open>\<open>defineClass\<close>: what already has the class gets its styles too.\<close>

definition add_defined :: "ustr \<Rightarrow> ustr list \<Rightarrow> looks \<Rightarrow> looks" where
  "add_defined i r l = (if i \<in> set (snd l) then (fst l @ concat (map (split_at (ch (CHR '',''))) r), snd l) else l)"

definition define_class :: "ustr list \<Rightarrow> ustr list \<Rightarrow> req_state \<Rightarrow> req_state" where
  "define_class t r s =
     foldl (\<lambda>s i. s\<lparr>rq_classes := define_style (Some r) (rq_classes s) i,
         rq_requirements := map (\<lambda>(k, n). (k, restyle_requirement (add_defined i r) n)) (rq_requirements s),
         rq_elements := map (\<lambda>(k, n). (k, restyle_element (add_defined i r) n)) (rq_elements s)\<rparr>) s t"

definition req_set_direction :: "ustr \<Rightarrow> req_state \<Rightarrow> req_state" where
  "req_set_direction t s = s\<lparr>rq_direction := t\<rparr>"

definition req_clear :: "req_state \<Rightarrow> req_state" where
  "req_clear s = s\<lparr>rq_relations := [], rq_latest := initial_requirement, rq_requirements := [],
     rq_latest_element := initial_element, rq_elements := [], rq_classes := []\<rparr>"


section \<open>The nodes and the edges\<close>

record req_node =
  nd_id :: ustr
  nd_content :: "requirement + req_element"
  nd_styles :: "ustr list"
  nd_classes :: ustr
  nd_color :: nat
  nd_look :: "ustr option"

record req_edge =
  re_id :: ustr
  re_start :: "ustr option"
  re_end :: "ustr option"
  re_label :: ustr
  re_style :: "ustr list"
  re_pattern :: ustr
  re_arrow_start :: ustr
  re_arrow_end :: ustr
  re_look :: "ustr option"

definition requirement_node :: "ustr option \<Rightarrow> req_node list \<Rightarrow> ustr \<times> requirement \<Rightarrow> req_node list" where
  "requirement_node look r e =
     (let n = snd e in
      r @ [\<lparr>nd_id = rn_name n, nd_content = Inl n, nd_styles = rn_styles n, nd_classes = join_with (lit '' '') (rn_classes n),
            nd_color = length r, nd_look = look\<rparr>])"

definition element_node :: "ustr option \<Rightarrow> req_node list \<Rightarrow> ustr \<times> req_element \<Rightarrow> req_node list" where
  "element_node look r e =
     (let n = snd e in
      r @ [\<lparr>nd_id = el_name n, nd_content = Inr n, nd_styles = el_styles n, nd_classes = join_with (lit '' '') (el_classes n),
            nd_color = length r, nd_look = look\<rparr>])"

text \<open>\<open>this.requirements.get(k)?.name ?? this.elements.get(k)?.name\<close>\<close>

definition node_name :: "req_state \<Rightarrow> ustr \<Rightarrow> ustr option" where
  "node_name s k =
     (case map_option rn_name (map_of (rq_requirements s) k) of
        Some n \<Rightarrow> Some n
      | None \<Rightarrow> map_option el_name (map_of (rq_elements s) k))"

text \<open>The counter of the ids starts anew with every relation.\<close>

definition req_edge_of :: "ustr option \<Rightarrow> req_state \<Rightarrow> req_relation \<Rightarrow> req_edge" where
  "req_edge_of look q n =
     (let s = 0; o' = (rr_type n = lit ''contains'') in
      \<lparr>re_id = rr_src n @ lit ''-'' @ rr_dst n @ lit ''-'' @ show_nat s,
        re_start = node_name q (rr_src n), re_end = node_name q (rr_dst n),
        re_label = lit ''&lt;&lt;'' @ rr_type n @ lit ''&gt;&gt;'',
        re_style = [lit ''fill:none'', if o' then [] else lit ''stroke-dasharray: 10,7''],
        re_pattern = (if o' then lit ''normal'' else lit ''dashed''),
        re_arrow_start = (if o' then lit ''requirement_contains'' else []),
        re_arrow_end = (if o' then [] else lit ''requirement_arrow''), re_look = look\<rparr>)"

definition req_get_data :: "ustr option \<Rightarrow> req_state \<Rightarrow> req_node list \<times> req_edge list" where
  "req_get_data look s =
     (foldl (element_node look) (foldl (requirement_node look) [] (rq_requirements s)) (rq_elements s),
      map (req_edge_of look s) (rq_relations s))"


section \<open>Statements\<close>

text \<open>
  The lines of a body, as a rule with the rest of the body on its right, are acted on from the last to the first, and
  before the definition itself. A relation is of a type from a source to a destination, whichever way its arrow is written.
\<close>

datatype req_statement =
    RequirementDef ustr ustr "req_line list" "ustr list option"
  | ElementDef ustr "el_line list" "ustr list option"
  | Relate ustr ustr ustr
  | ReqDirection ustr
  | ClassDefinition "ustr list" "ustr list"
  | ClassUse "ustr list" "ustr list"
  | StyleUse "ustr list" "ustr list"

definition use_classes :: "ustr \<Rightarrow> ustr list option \<Rightarrow> req_state \<Rightarrow> req_state" where
  "use_classes t c s = (case c of None \<Rightarrow> s | Some r \<Rightarrow> req_set_class [t] r s)"

fun req_apply :: "req_statement \<Rightarrow> req_state \<Rightarrow> req_state" where
  "req_apply (RequirementDef t ty body c) s =
     use_classes t c (add_requirement t ty (s\<lparr>rq_latest := foldr set_new_req body (rq_latest s)\<rparr>))"
| "req_apply (ElementDef t body c) s =
     use_classes t c (add_element t (s\<lparr>rq_latest_element := foldr set_new_element body (rq_latest_element s)\<rparr>))"
| "req_apply (Relate ty src dst) s = req_add_relationship ty src dst s"
| "req_apply (ReqDirection d) s = req_set_direction d s"
| "req_apply (ClassDefinition t r) s = define_class t r s"
| "req_apply (ClassUse t r) s = req_set_class t r s"
| "req_apply (StyleUse t r) s = set_css_style t (Some r) s"

definition req_text :: "req_statement list \<Rightarrow> req_state" where
  "req_text ss = foldl (\<lambda>s st. req_apply st s) req_new ss"


section \<open>The diagram of a text\<close>

text \<open>The abstract diagram: of every name its first definition, in which the first line of a kind counts, and the relations.\<close>

fun first_line :: "('l \<Rightarrow> ustr option) \<Rightarrow> 'l list \<Rightarrow> ustr" where
  "first_line f [] = []"
| "first_line f (l # ls) = (case f l of None \<Rightarrow> first_line f ls | Some v \<Rightarrow> v)"

definition body_fields :: "req_line list \<Rightarrow> req_fields" where
  "body_fields ls =
     \<lparr>rf_id = first_line (\<lambda>l. case l of ReqId t \<Rightarrow> Some t | _ \<Rightarrow> None) ls,
       rf_text = first_line (\<lambda>l. case l of ReqText t \<Rightarrow> Some t | _ \<Rightarrow> None) ls,
       rf_risk = first_line (\<lambda>l. case l of ReqRisk t \<Rightarrow> Some t | _ \<Rightarrow> None) ls,
       rf_verify = first_line (\<lambda>l. case l of ReqVerify t \<Rightarrow> Some t | _ \<Rightarrow> None) ls\<rparr>"

definition body_element :: "el_line list \<Rightarrow> el_fields" where
  "body_element ls =
     \<lparr>ef_type = first_line (\<lambda>l. case l of ElType t \<Rightarrow> Some t | _ \<Rightarrow> None) ls,
       ef_doc = first_line (\<lambda>l. case l of ElDocRef t \<Rightarrow> Some t | _ \<Rightarrow> None) ls\<rparr>"

record req_view =
  rv_requirements :: "(ustr \<times> ustr \<times> req_fields) list"
  rv_elements :: "(ustr \<times> el_fields) list"
  rv_relations :: "(ustr \<times> ustr \<times> ustr) list"

definition define_first :: "ustr \<Rightarrow> 'a \<Rightarrow> (ustr \<times> 'a) list \<Rightarrow> (ustr \<times> 'a) list" where
  "define_first k v m = (if k \<in> fst ` set m then m else m @ [(k, v)])"

fun req_spec_step :: "req_statement \<Rightarrow> req_view \<Rightarrow> req_view" where
  "req_spec_step (RequirementDef t ty body _) d =
     d\<lparr>rv_requirements := define_first t (ty, body_fields body) (rv_requirements d)\<rparr>"
| "req_spec_step (ElementDef t body _) d = d\<lparr>rv_elements := define_first t (body_element body) (rv_elements d)\<rparr>"
| "req_spec_step (Relate ty src dst) d = d\<lparr>rv_relations := rv_relations d @ [(ty, src, dst)]\<rparr>"
| "req_spec_step _ d = d"

definition req_spec_start :: req_view where
  "req_spec_start = \<lparr>rv_requirements = [], rv_elements = [], rv_relations = []\<rparr>"

definition req_spec :: "req_statement list \<Rightarrow> req_view" where
  "req_spec ss = foldl (\<lambda>d st. req_spec_step st d) req_spec_start ss"

definition defined_requirement :: "ustr \<times> requirement \<Rightarrow> ustr \<times> ustr \<times> ustr \<times> req_fields" where
  "defined_requirement e = (fst e, rn_name (snd e), rn_type (snd e), rn_fields (snd e))"

definition defined_element :: "ustr \<times> req_element \<Rightarrow> ustr \<times> ustr \<times> el_fields" where
  "defined_element e = (fst e, el_name (snd e), el_fields (snd e))"

definition defined_relation :: "req_relation \<Rightarrow> ustr \<times> ustr \<times> ustr" where
  "defined_relation n = (rr_type n, rr_src n, rr_dst n)"

definition req_implements :: "req_state \<Rightarrow> req_view \<Rightarrow> bool" where
  "req_implements s d \<longleftrightarrow>
     map defined_requirement (rq_requirements s) = map (\<lambda>(k, v). (k, k, v)) (rv_requirements d) \<and>
     map defined_element (rq_elements s) = map (\<lambda>(k, v). (k, k, v)) (rv_elements d) \<and>
     map defined_relation (rq_relations s) = rv_relations d \<and>
     distinct (map fst (rv_requirements d)) \<and> distinct (map fst (rv_elements d)) \<and>
     rq_latest s = initial_requirement \<and> rq_latest_element s = initial_element"

lemma body_fields_run: "foldr set_new_req ls initial_requirement = body_fields ls"
proof (induction ls)
  case (Cons l ls)
  then show ?case by (cases l) (simp_all add: body_fields_def)
qed (simp add: body_fields_def initial_requirement_def)

lemma body_element_run: "foldr set_new_element ls initial_element = body_element ls"
proof (induction ls)
  case (Cons l ls)
  then show ?case by (cases l) (simp_all add: body_element_def)
qed (simp add: body_element_def initial_element_def)

text \<open>Styles and classes leave the definitions as they are.\<close>

definition same_definitions :: "req_state \<Rightarrow> req_state \<Rightarrow> bool" where
  "same_definitions s s' \<longleftrightarrow>
     map defined_requirement (rq_requirements s') = map defined_requirement (rq_requirements s) \<and>
     map defined_element (rq_elements s') = map defined_element (rq_elements s) \<and>
     rq_relations s' = rq_relations s \<and> rq_latest s' = rq_latest s \<and> rq_latest_element s' = rq_latest_element s"

lemma same_definitions_refl [simp]: "same_definitions s s"
  by (simp add: same_definitions_def)

lemma same_definitions_trans: "same_definitions s s' \<Longrightarrow> same_definitions s' s'' \<Longrightarrow> same_definitions s s''"
  by (simp add: same_definitions_def)

lemma same_definitions_fold:
  "(\<And>s i. same_definitions s (f s i)) \<Longrightarrow> same_definitions s (foldl f s t)"
  by (induction t arbitrary: s) (auto intro: same_definitions_trans)

lemma restyle_same: "restyle i f s = Some s' \<Longrightarrow> same_definitions s s'"
  by (auto simp: restyle_def same_definitions_def map_change_same defined_requirement_def defined_element_def
      restyle_requirement_def restyle_element_def split: if_splits)

lemma req_set_class_same: "same_definitions s (req_set_class t r s)"
  unfolding req_set_class_def by (rule same_definitions_fold) (auto intro: restyle_same split: option.split)

lemma req_define_class_same: "same_definitions s (define_class t r s)"
  unfolding define_class_def
  by (rule same_definitions_fold)
    (simp add: same_definitions_def defined_requirement_def defined_element_def restyle_requirement_def
      restyle_element_def comp_def split_def)

lemma req_css_style_same: "same_definitions s (set_css_style t r s)"
  by (induction t r s rule: set_css_style.induct)
    (auto intro: same_definitions_trans restyle_same split: option.split)

lemma use_classes_same: "same_definitions s (use_classes t c s)"
  by (cases c) (simp_all add: use_classes_def req_set_class_same)

lemma req_implements_same: "req_implements s d \<Longrightarrow> same_definitions s s' \<Longrightarrow> req_implements s' d"
  by (simp add: req_implements_def same_definitions_def)

lemma keys_of_view:
  assumes "map f m = map (\<lambda>(k, v). (k, k, v)) d" and "\<And>e. fst (f e) = fst e"
  shows "map fst m = map fst d"
  using arg_cong [OF assms(1), of "map fst"] by (simp add: assms(2) comp_def split_def)

lemma implements_keys:
  assumes "req_implements s d"
  shows "map fst (rq_requirements s) = map fst (rv_requirements d)"
    and "map fst (rq_elements s) = map fst (rv_elements d)"
  using assms keys_of_view [of defined_requirement] keys_of_view [of defined_element]
  by (simp_all add: req_implements_def defined_requirement_def defined_element_def)

lemma req_apply_implements:
  assumes "req_implements s d"
  shows "req_implements (req_apply st s) (req_spec_step st d)"
proof (cases st)
  case (RequirementDef t ty body c)
  have "t \<in> fst ` set (rq_requirements s) \<longleftrightarrow> t \<in> fst ` set (rv_requirements d)"
    using implements_keys(1) [OF assms] by (metis set_map)
  then have "req_implements (add_requirement t ty (s\<lparr>rq_latest := foldr set_new_req body (rq_latest s)\<rparr>)) (req_spec_step st d)"
    using assms RequirementDef
    by (auto simp: req_implements_def add_requirement_def Let_def define_first_def map_set_new defined_requirement_def
        body_fields_run)
  then show ?thesis using RequirementDef req_implements_same [OF _ use_classes_same] by simp
next
  case (ElementDef t body c)
  have "t \<in> fst ` set (rq_elements s) \<longleftrightarrow> t \<in> fst ` set (rv_elements d)"
    using implements_keys(2) [OF assms] by (metis set_map)
  then have "req_implements (add_element t (s\<lparr>rq_latest_element := foldr set_new_element body (rq_latest_element s)\<rparr>)) (req_spec_step st d)"
    using assms ElementDef
    by (auto simp: req_implements_def add_element_def Let_def define_first_def map_set_new defined_element_def
        body_element_run)
  then show ?thesis using ElementDef req_implements_same [OF _ use_classes_same] by simp
next
  case (Relate ty src dst)
  then show ?thesis using assms by (simp add: req_implements_def req_add_relationship_def defined_relation_def)
next
  case (ReqDirection x)
  then show ?thesis using assms by (simp add: req_implements_def req_set_direction_def)
next
  case (ClassDefinition t r)
  then show ?thesis using req_implements_same [OF assms req_define_class_same] by simp
next
  case (ClassUse t r)
  then show ?thesis using req_implements_same [OF assms req_set_class_same] by simp
next
  case (StyleUse t r)
  then show ?thesis using req_implements_same [OF assms req_css_style_same] by simp
qed

interpretation requirements: simulation req_new req_apply req_spec_start req_spec_step req_implements
  by unfold_locales (simp add: req_implements_def req_new_def req_spec_start_def, rule req_apply_implements)

lemma req_text_implements: "req_implements (req_text ss) (req_spec ss)"
  unfolding req_text_def req_spec_def by (rule requirements.run_simulated)


section \<open>Properties\<close>

text \<open>What a node shows of its definition.\<close>

definition node_definition :: "req_node \<Rightarrow> ustr \<times> (ustr \<times> req_fields + el_fields)" where
  "node_definition n =
     (nd_id n, case nd_content n of Inl r \<Rightarrow> Inl (rn_type r, rn_fields r) | Inr e \<Rightarrow> Inr (el_fields e))"

lemma requirement_nodes:
  "map node_definition (foldl (requirement_node look) r es) =
     map node_definition r @ map (\<lambda>e. case defined_requirement e of (_, k, v) \<Rightarrow> (k, Inl v)) es"
  "map nd_color (foldl (requirement_node look) r es) = map nd_color r @ [length r..<length r + length es]"
  "length (foldl (requirement_node look) r es) = length r + length es"
  by (induction es arbitrary: r)
    (simp_all add: requirement_node_def node_definition_def defined_requirement_def Let_def upt_conv_Cons del: upt_Suc)

lemma element_nodes:
  "map node_definition (foldl (element_node look) r es) =
     map node_definition r @ map (\<lambda>e. case defined_element e of (_, k, v) \<Rightarrow> (k, Inr v)) es"
  "map nd_color (foldl (element_node look) r es) = map nd_color r @ [length r..<length r + length es]"
  "length (foldl (element_node look) r es) = length r + length es"
  by (induction es arbitrary: r)
    (simp_all add: element_node_def node_definition_def defined_element_def Let_def upt_conv_Cons del: upt_Suc)

lemma through_view:
  assumes "map f m = map (\<lambda>(k, v). (k, k, v)) d"
  shows "map (\<lambda>e. case f e of (_, k, v) \<Rightarrow> (k, h v)) m = map (\<lambda>(k, v). (k, h v)) d"
proof -
  have "map (\<lambda>e. case f e of (_, k, v) \<Rightarrow> (k, h v)) m = map (\<lambda>(_, k, v). (k, h v)) (map f m)" by simp
  then show ?thesis unfolding assms by (simp add: comp_def split_def)
qed

lemma data_nodes:
  assumes "req_implements s d"
  shows "map node_definition (fst (req_get_data look s)) =
     map (\<lambda>(k, v). (k, Inl v)) (rv_requirements d) @ map (\<lambda>(k, v). (k, Inr v)) (rv_elements d)"
  using assms by (simp add: req_get_data_def requirement_nodes element_nodes req_implements_def through_view)

lemma name_of_key:
  assumes "map f m = map (\<lambda>(k, v). (k, k, v)) d" and "\<And>e. f e = (fst e, g (snd e), h (snd e))"
  shows "map_option g (map_of m k) = (if k \<in> fst ` set d then Some k else None)"
  using assms(1)
proof (induction m arbitrary: d)
  case (Cons e m)
  then obtain j v d' where d: "d = (j, v) # d'" "f e = (j, j, v)" "map f m = map (\<lambda>(k, v). (k, k, v)) d'"
    by (auto simp: Cons_eq_map_conv)
  then have "fst e = j" "g (snd e) = j" using assms(2) [of e] by simp_all
  then show ?case using Cons.IH [OF d(3)] d(1) by (cases e; cases "k = j") simp_all
qed simp

text \<open>The name that a relation is joined to.\<close>

definition known :: "req_view \<Rightarrow> ustr \<Rightarrow> ustr option" where
  "known d k = (if k \<in> fst ` set (rv_requirements d) \<or> k \<in> fst ` set (rv_elements d) then Some k else None)"

lemma node_name_known:
  assumes "req_implements s d"
  shows "node_name s k = known d k"
proof -
  have "map_option rn_name (map_of (rq_requirements s) k) = (if k \<in> fst ` set (rv_requirements d) then Some k else None)"
    using assms name_of_key [of defined_requirement _ _ rn_name "\<lambda>r. (rn_type r, rn_fields r)"]
    by (simp add: req_implements_def defined_requirement_def)
  moreover have "map_option el_name (map_of (rq_elements s) k) = (if k \<in> fst ` set (rv_elements d) then Some k else None)"
    using assms name_of_key [of defined_element _ _ el_name el_fields]
    by (simp add: req_implements_def defined_element_def)
  ultimately show ?thesis by (auto simp: node_name_def known_def split: option.split)
qed

text \<open>
  C0. The diagram of a text has a node for every requirement and then one for every element, each in the order of
  first definition and numbered so for the colours. It shows what the first definition of its name says, and of
  several lines of one kind in it the first. There is an edge for every relation, in their order, joined to the names that
  are defined somewhere in the text.
\<close>

theorem requirement_diagram_of_text:
  "(let d = req_spec ss; nodes = fst (req_get_data look (req_text ss)); edges = snd (req_get_data look (req_text ss)) in
      map node_definition nodes =
        map (\<lambda>(k, v). (k, Inl v)) (rv_requirements d) @ map (\<lambda>(k, v). (k, Inr v)) (rv_elements d) \<and>
      distinct (map fst (rv_requirements d)) \<and> distinct (map fst (rv_elements d)) \<and>
      map nd_color nodes = [0..<length nodes] \<and>
      map (\<lambda>e. (re_start e, re_label e, re_end e)) edges =
        map (\<lambda>(ty, a, b). (known d a, lit ''&lt;&lt;'' @ ty @ lit ''&gt;&gt;'', known d b)) (rv_relations d))"
proof -
  let ?d = "req_spec ss" and ?s = "req_text ss"
  have D: "req_implements ?s ?d" by (rule req_text_implements)
  have colors: "map nd_color (fst (req_get_data look ?s)) = [0..<length (fst (req_get_data look ?s))]"
    by (simp add: req_get_data_def requirement_nodes element_nodes
        upt_add_eq_append [of 0 "length (rq_requirements ?s)" "length (rq_elements ?s)"])
  have edges: "map (\<lambda>e. (re_start e, re_label e, re_end e)) (snd (req_get_data look ?s)) =
      map (\<lambda>(ty, a, b). (known ?d a, lit ''&lt;&lt;'' @ ty @ lit ''&gt;&gt;'', known ?d b)) (map defined_relation (rq_relations ?s))"
    by (simp add: req_get_data_def req_edge_of_def Let_def node_name_known [OF D] defined_relation_def)
  show ?thesis
    unfolding Let_def data_nodes [OF D] colors edges using D by (simp add: req_implements_def)
qed

text \<open>
  Ids are not always told apart: two relations between the same names have the same id, and so have a requirement and an
  element of one name.
\<close>

lemma repeated_relation_same_id:
  "rr_src n = rr_src m \<Longrightarrow> rr_dst n = rr_dst m \<Longrightarrow> re_id (req_edge_of look s n) = re_id (req_edge_of look s m)"
  by (simp add: req_edge_of_def Let_def)

lemma unknown_end_undefined:
  "re_start (req_edge_of look (req_text [Relate ty a b]) \<lparr>rr_type = ty, rr_src = a, rr_dst = b\<rparr>) = None"
  by (simp add: req_text_def req_new_def req_add_relationship_def req_edge_of_def node_name_def Let_def)

lemma shared_name_same_id:
  "map nd_id (fst (req_get_data look (req_text [RequirementDef t ty rs None, ElementDef t es None]))) = [t, t]"
  by (simp add: req_text_def req_new_def add_requirement_def add_element_def use_classes_def req_get_data_def
      requirement_node_def element_node_def Let_def)

end
