(* ===== verification/Flow_Chart.thy ===== *)
theory Flow_Chart
  imports Js_Library Mermaid_Config
begin

text \<open>
  The links and the subgraphs of flowcharts (\<open>FlowDB\<close> of \<open>docs/mermaid.tiny.js\<close>, lines 294 to 302): arrows read off
  their text, the edges with the limit on their number, styles of edges by number, the members of subgraphs, and
  the edges and parents given to the layout. The nodes themselves, that is \<open>addVertex\<close>, are not modelled.
\<close>

section \<open>Arrows\<close>

record link_kind =
  lk_type :: ustr
  lk_stroke :: ustr
  lk_length :: "int option"

text \<open>\<open>destructStartLink\<close>: the type and the stroke\<close>

definition destruct_start_link :: "ustr \<Rightarrow> ustr \<times> ustr" where
  "destruct_start_link t =
     (let r = js_trim t;
          (i, r') = (case r of [] \<Rightarrow> (lit ''arrow_open'', r)
            | c # cs \<Rightarrow>
                if c = ch (CHR ''<'') then (lit ''arrow_point'', cs)
                else if c = ch (CHR ''x'') then (lit ''arrow_cross'', cs)
                else if c = ch (CHR ''o'') then (lit ''arrow_circle'', cs)
                else (lit ''arrow_open'', r));
          n = (if js_includes r' (lit ''='') then lit ''thick'' else lit ''normal'') in
      (i, if js_includes r' (lit ''.'') then lit ''dotted'' else n))"

text \<open>\<open>countChar\<close>\<close>

definition count_char :: "uchar \<Rightarrow> ustr \<Rightarrow> nat" where
  "count_char c r = length (filter (\<lambda>d. d = c) r)"

text \<open>\<open>destructEndLink\<close>\<close>

definition double_of :: "ustr \<Rightarrow> ustr" where
  "double_of n = lit ''double_'' @ n"

definition arrow_head :: "ustr \<Rightarrow> ustr \<Rightarrow> string \<Rightarrow> ustr \<Rightarrow> ustr \<times> ustr" where
  "arrow_head r i opening n = (if starts_with r (lit opening) then (double_of n, drop 1 i) else (n, i))"

definition destruct_end_link :: "ustr \<Rightarrow> link_kind" where
  "destruct_end_link t =
     (let r = js_trim t; i = butlast r;
          (n, i') =
            (if r = [] then (lit ''arrow_open'', i)
             else if last r = ch (CHR ''x'') then arrow_head r i ''x'' (lit ''arrow_cross'')
             else if last r = ch (CHR ''>'') then arrow_head r i ''<'' (lit ''arrow_point'')
             else if last r = ch (CHR ''o'') then arrow_head r i ''o'' (lit ''arrow_circle'')
             else (lit ''arrow_open'', i));
          s = (if starts_with i' (lit ''='') then lit ''thick'' else lit ''normal'');
          s' = (if starts_with i' (lit ''~'') then lit ''invisible'' else s);
          l = count_char (ch (CHR ''.'')) i' in
      if l \<noteq> 0 then \<lparr>lk_type = n, lk_stroke = lit ''dotted'', lk_length = Some (int l)\<rparr>
      else \<lparr>lk_type = n, lk_stroke = s', lk_length = Some (int (length i') - 1)\<rparr>)"

text \<open>\<open>destructLink\<close> of the end of a link and, for one with a text in the middle, its start\<close>

definition INVALID :: link_kind where
  "INVALID = \<lparr>lk_type = lit ''INVALID'', lk_stroke = lit ''INVALID'', lk_length = None\<rparr>"

definition destruct_link :: "ustr \<Rightarrow> ustr \<Rightarrow> link_kind" where
  "destruct_link t r =
     (let i = destruct_end_link t in
      if r = [] then i
      else
        let (ty, s) = destruct_start_link r in
        if s \<noteq> lk_stroke i then INVALID
        else if ty = lit ''arrow_open'' then \<lparr>lk_type = lk_type i, lk_stroke = s, lk_length = lk_length i\<rparr>
        else if ty \<noteq> lk_type i then INVALID
        else
          let d = double_of ty in
          \<lparr>lk_type = (if d = lit ''double_arrow'' then lit ''double_arrow_point'' else d), lk_stroke = s,
            lk_length = lk_length i\<rparr>)"

text \<open>\<open>destructEdgeType\<close>: the arrows at both ends. \<open>replace\<close> takes the prefix of a double arrow away.\<close>

definition destruct_edge_type :: "ustr option \<Rightarrow> ustr \<times> ustr" where
  "destruct_edge_type t =
     (case t of
        None \<Rightarrow> (lit ''none'', lit ''arrow_point'')
      | Some k \<Rightarrow>
          if k \<in> {lit ''arrow_point'', lit ''arrow_circle'', lit ''arrow_cross''} then (lit ''none'', k)
          else if k \<in> {lit ''double_arrow_point'', lit ''double_arrow_circle'', lit ''double_arrow_cross''}
          then (let r = replace_first k (lit ''double_'') [] in (r, r))
          else (lit ''none'', lit ''arrow_point''))"


section \<open>Edges\<close>

record flow_text =
  ft_text :: ustr
  ft_type :: ustr

record flow_link =
  ld_type :: ustr
  ld_stroke :: ustr
  ld_length :: "int option"
  ld_text :: "flow_text option"
  ld_id :: "ustr option"

record flow_edge =
  fe_id :: ustr
  fe_start :: ustr
  fe_end :: ustr
  fe_type :: ustr
  fe_text :: ustr
  fe_label_type :: ustr
  fe_classes :: "ustr list"
  fe_user_id :: bool
  fe_interpolate :: "ustr option"
  fe_stroke :: ustr
  fe_length :: "int option"
  fe_style :: "ustr list option"

record subgraph =
  sg_id :: ustr
  sg_nodes :: "ustr list"
  sg_title :: ustr
  sg_classes :: "ustr list"
  sg_dir :: "ustr option"
  sg_label_type :: ustr

record flow_state =
  fl_edges :: "flow_edge list"
  fl_interpolate :: "ustr option"
  fl_style :: "ustr list option"
  fl_subgraphs :: "subgraph list"
  fl_lookup :: "(ustr \<times> subgraph) list"
  fl_count :: nat
  fl_direction :: "ustr option"

definition flow_clear :: flow_state where
  "flow_clear = \<lparr>fl_edges = [], fl_interpolate = None, fl_style = None, fl_subgraphs = [], fl_lookup = [], fl_count = 0,
     fl_direction = None\<rparr>"

text \<open>What the records depend on: the configuration, and the sanitiser of texts.\<close>

record flow_env =
  fv_config :: js
  fv_sanitize :: "ustr \<Rightarrow> ustr"

datatype flow_error = EdgeLimit | OutOfBounds nat | FlowTypeError

text \<open>
  \<open>n < (maxEdges ?? 500)\<close>. What is not a number is compared as one; of the strings only decimal numerals are converted
  here, and what is no number is not above anything.
\<close>

definition below_limit :: "nat \<Rightarrow> js \<Rightarrow> bool" where
  "below_limit n v =
     (case js_coalesce v (JNum 500) of
        JNum m \<Rightarrow> int n < m
      | JBool b \<Rightarrow> int n < of_bool b
      | JStr s \<Rightarrow> list_all is_digit s \<and> n < digits_val 0 s
      | _ \<Rightarrow> False)"

definition max_edges :: "flow_env \<Rightarrow> js" where
  "max_edges C = member (fv_config C) (lit ''maxEdges'')"

text \<open>A text in double quotes (34) loses them; \<open>substring (1, 0)\<close> of a lone one is that one again.\<close>

definition unquote :: "ustr \<Rightarrow> ustr" where
  "unquote s = (if s \<noteq> [] \<and> hd s = 34 \<and> last s = 34 \<and> length s \<noteq> 1 then butlast (tl s) else s)"

text \<open>\<open>sanitizeNodeLabelType\<close>\<close>

definition label_type :: "ustr option \<Rightarrow> ustr" where
  "label_type t =
     (case t of
        Some k \<Rightarrow> if k \<in> {lit ''markdown'', lit ''string'', lit ''text''} then k else lit ''markdown''
      | None \<Rightarrow> lit ''markdown'')"

text \<open>\<open>getEdgeId\<close> with the prefix \<open>L\<close>\<close>

definition flow_edge_id :: "ustr \<Rightarrow> ustr \<Rightarrow> nat \<Rightarrow> ustr" where
  "flow_edge_id e t counter = lit ''L_'' @ e @ lit ''_'' @ t @ lit ''_'' @ show_nat counter"

text \<open>\<open>addSingleLink\<close> from \<open>t\<close> to \<open>r\<close>, with the id \<open>n\<close> of the user if there is one\<close>

definition new_flow_edge :: "flow_env \<Rightarrow> ustr \<Rightarrow> ustr \<Rightarrow> flow_link \<Rightarrow> ustr option \<Rightarrow> flow_state \<Rightarrow> flow_edge" where
  "new_flow_edge C t r i n s =
     (let between = filter (\<lambda>d. fe_start d = t \<and> fe_end d = r) (fl_edges s);
          user = (case n of None \<Rightarrow> False | Some k \<Rightarrow> k \<noteq> [] \<and> k \<notin> fe_id ` set (fl_edges s)) in
      \<lparr>fe_id = (if user then the n
                else if between = [] then flow_edge_id t r 0 else flow_edge_id t r (length between + 1)),
        fe_start = t, fe_end = r, fe_type = ld_type i,
        fe_text = (case ld_text i of None \<Rightarrow> [] | Some u \<Rightarrow> unquote (fv_sanitize C (js_trim (ft_text u)))),
        fe_label_type = (case ld_text i of None \<Rightarrow> lit ''text'' | Some u \<Rightarrow> label_type (Some (ft_type u))),
        fe_classes = [], fe_user_id = user, fe_interpolate = fl_interpolate s, fe_stroke = ld_stroke i,
        fe_length = map_option (\<lambda>l. if l > 10 then 10 else l) (ld_length i), fe_style = None\<rparr>)"

definition add_single_link :: "flow_env \<Rightarrow> ustr \<Rightarrow> ustr \<Rightarrow> flow_link \<Rightarrow> ustr option \<Rightarrow> flow_state \<Rightarrow> flow_error + flow_state" where
  "add_single_link C t r i n s =
     (if below_limit (length (fl_edges s)) (max_edges C)
      then Inr (s\<lparr>fl_edges := fl_edges s @ [new_flow_edge C t r i n s]\<rparr>)
      else Inl EdgeLimit)"

text \<open>\<open>addLink\<close>: from every node of the one list to every node of the other. Only the edge between the last and the first gets the id.\<close>

fun add_links :: "flow_env \<Rightarrow> (ustr \<times> ustr \<times> ustr option) list \<Rightarrow> flow_link \<Rightarrow> flow_state \<Rightarrow> flow_error + flow_state" where
  "add_links C [] i s = Inr s"
| "add_links C ((t, r, n) # ps) i s = rbind (add_single_link C t r i n s) (add_links C ps i)"

definition link_pairs :: "ustr list \<Rightarrow> ustr list \<Rightarrow> ustr option \<Rightarrow> (ustr \<times> ustr \<times> ustr option) list" where
  "link_pairs t r n =
     concat (map (\<lambda>s. map (\<lambda>o'. (s, o', if s = last t \<and> o' = hd r then n else None)) r) t)"

definition add_link :: "flow_env \<Rightarrow> ustr list \<Rightarrow> ustr list \<Rightarrow> flow_link \<Rightarrow> flow_state \<Rightarrow> flow_error + flow_state" where
  "add_link C t r i s = add_links C (link_pairs t r (map_option (\<lambda>k. replace_first k (lit ''@'') []) (ld_id i))) i s"

text \<open>
  \<open>updateLink\<close> and \<open>updateLinkInterpolate\<close>. What says which link is \<open>default\<close>, a number, or the text of a number, which
  is what the grammar hands over; only a canonical numeral names an element of an array. All links named share the array
  of styles, to which \<open>fill:none\<close> may be pushed.
\<close>

datatype link_ref = DefaultLink | LinkNumber nat | LinkText ustr

definition link_index :: "link_ref \<Rightarrow> nat option" where
  "link_index i =
     (case i of
        DefaultLink \<Rightarrow> None
      | LinkNumber n \<Rightarrow> Some n
      | LinkText s \<Rightarrow> if show_nat (digits_val 0 s) = s then Some (digits_val 0 s) else None)"

definition without_fill :: "ustr list \<Rightarrow> ustr list" where
  "without_fill r = (if r \<noteq> [] \<and> \<not> list_ex (\<lambda>n. starts_with n (lit ''fill'')) r then r @ [lit ''fill:none''] else r)"

fun update_link :: "link_ref list \<Rightarrow> ustr list \<Rightarrow> flow_state \<Rightarrow> flow_error + flow_state" where
  "update_link [] r s = Inr s"
| "update_link (DefaultLink # t) r s = update_link t r (s\<lparr>fl_style := Some r\<rparr>)"
| "update_link (i # t) r s =
     (if (case i of LinkNumber n \<Rightarrow> length (fl_edges s) \<le> n | _ \<Rightarrow> False) then Inl (OutOfBounds (the (link_index i)))
      else case link_index i of
        None \<Rightarrow> Inl FlowTypeError
      | Some n \<Rightarrow>
          if n < length (fl_edges s)
          then update_link t (without_fill r)
            (s\<lparr>fl_edges := (fl_edges s)[n := (fl_edges s ! n)\<lparr>fe_style := Some (without_fill r)\<rparr>]\<rparr>)
          else Inl FlowTypeError)"

fun update_link_interpolate :: "link_ref list \<Rightarrow> ustr \<Rightarrow> flow_state \<Rightarrow> flow_error + flow_state" where
  "update_link_interpolate [] r s = Inr s"
| "update_link_interpolate (DefaultLink # t) r s = update_link_interpolate t r (s\<lparr>fl_interpolate := Some r\<rparr>)"
| "update_link_interpolate (i # t) r s =
     (case link_index i of
        None \<Rightarrow> Inl FlowTypeError
      | Some n \<Rightarrow>
          if n < length (fl_edges s)
          then update_link_interpolate t r
            (s\<lparr>fl_edges := (fl_edges s)[n := (fl_edges s ! n)\<lparr>fe_interpolate := Some r\<rparr>]\<rparr>)
          else Inl FlowTypeError)"


section \<open>Subgraphs\<close>

text \<open>What the statements in a subgraph yield: names of nodes, the name of a subgraph, or a direction.\<close>

datatype sub_item = Names "ustr list" | Name ustr | SubDirection ustr

text \<open>The head of a subgraph: an id and a title, one text for both, or nothing.\<close>

datatype sub_head = IdTitle flow_text flow_text | OneText flow_text | NoHead

fun flat_items :: "sub_item list \<Rightarrow> (ustr + ustr) list" where
  "flat_items [] = []"
| "flat_items (Names ns # p) = map Inr ns @ flat_items p"
| "flat_items (Name n # p) = Inr n # flat_items p"
| "flat_items (SubDirection d # p) = Inl d # flat_items p"

text \<open>
  \<open>uniq\<close>: the names met are properties of an object. The name \<open>__proto__\<close> never becomes one, and after the name
  \<open>hasOwnProperty\<close> the object cannot be asked any more.
\<close>

fun uniq :: "(ustr + ustr) list \<Rightarrow> ustr list \<Rightarrow> ustr list \<Rightarrow> ustr option \<Rightarrow> flow_error + ustr list \<times> ustr option" where
  "uniq [] met g x = Inr (g, x)"
| "uniq (Inl d # p) met g x = uniq p met g (Some d)"
| "uniq (Inr T # p) met g x =
     (if js_trim T = [] then uniq p met g x
      else if lit ''hasOwnProperty'' \<in> set met then Inl FlowTypeError
      else if T \<in> set met then uniq p met g x
      else uniq p (if T = lit ''__proto__'' then met else T # met) (g @ [T]) x)"

text \<open>\<open>exists\<close> and \<open>makeUniq\<close>\<close>

definition in_some :: "subgraph list \<Rightarrow> ustr \<Rightarrow> bool" where
  "in_some gs n \<longleftrightarrow> list_ex (\<lambda>i. List.member (sg_nodes i) n) gs"

definition make_uniq :: "ustr list \<Rightarrow> subgraph list \<Rightarrow> ustr list" where
  "make_uniq ns gs = filter (\<lambda>n. \<not> in_some gs n) ns"

text \<open>\<open>addSubGraph\<close>, which returns the id, and the members it was given\<close>

definition has_space :: "ustr \<Rightarrow> bool" where
  "has_space s = list_ex js_space s"

definition sub_dir :: "flow_env \<Rightarrow> flow_state \<Rightarrow> ustr option" where
  "sub_dir C s =
     (let d = js_coalesce (member (fv_config C) (lit ''flowchart'')) (JObj []) in
      if truthy (member d (lit ''inheritDir''))
      then (case fl_direction s of
          Some k \<Rightarrow> Some (js_trim k)
        | None \<Rightarrow> (case member (fv_config C) (lit ''direction'') of JStr k \<Rightarrow> Some k | _ \<Rightarrow> None))
      else None)"

definition add_sub_graph :: "flow_env \<Rightarrow> sub_head \<Rightarrow> sub_item list \<Rightarrow> flow_state \<Rightarrow> flow_error + ustr \<times> flow_state" where
  "add_sub_graph C t r s =
     (case (case t of
        IdTitle k i \<Rightarrow> Some (Some (js_trim (ft_text k)), i)
      | OneText i \<Rightarrow> Some (if has_space (ft_text i) then None else Some (js_trim (ft_text i)), i)
      | NoHead \<Rightarrow> None) of
        None \<Rightarrow> Inl FlowTypeError
      | Some (k', i) \<Rightarrow>
          rbind (uniq (flat_items r) [] [] None) (\<lambda>(u, h).
            let n = (case k' of Some k \<Rightarrow> k | None \<Rightarrow> lit ''subGraph'' @ show_nat (fl_count s));
                f = \<lparr>sg_id = n, sg_nodes = make_uniq u (fl_subgraphs s), sg_title = js_trim (fv_sanitize C (ft_text i)),
                     sg_classes = [], sg_dir = (case h of Some d \<Rightarrow> Some d | None \<Rightarrow> sub_dir C s),
                     sg_label_type = label_type (Some (ft_type i))\<rparr> in
            Inr (n, s\<lparr>fl_subgraphs := fl_subgraphs s @ [f], fl_lookup := map_set n f (fl_lookup s),
                      fl_count := fl_count s + 1\<rparr>)))"

text \<open>\<open>setDirection\<close>\<close>

definition flow_set_direction :: "ustr \<Rightarrow> flow_state \<Rightarrow> flow_state" where
  "flow_set_direction t s =
     (let d0 = js_trim t;
          d1 = (if js_includes d0 (lit ''<'') then lit ''RL'' else d0);
          d2 = (if js_includes d1 (lit ''^'') then lit ''BT'' else d1);
          d3 = (if js_includes d2 (lit ''>'') then lit ''LR'' else d2);
          d4 = (if js_includes d3 (lit ''v'') then lit ''TB'' else d3) in
      s\<lparr>fl_direction := Some (if d4 = lit ''TD'' then lit ''TB'' else d4)\<rparr>)"


section \<open>What the layout gets\<close>

text \<open>\<open>getData\<close>: the parents of the members of subgraphs, the last subgraph first\<close>

definition set_parent :: "ustr \<Rightarrow> (ustr \<times> ustr) list \<Rightarrow> ustr \<Rightarrow> (ustr \<times> ustr) list" where
  "set_parent d m f = map_set f d m"

definition parents :: "subgraph list \<Rightarrow> (ustr \<times> ustr) list" where
  "parents gs = foldl (\<lambda>m d. foldl (set_parent (sg_id d)) m (sg_nodes d)) [] (rev gs)"

record flow_out =
  fo_id :: ustr
  fo_start :: ustr
  fo_end :: ustr
  fo_label :: ustr
  fo_thickness :: ustr
  fo_minlen :: "int option"
  fo_arrow_start :: ustr
  fo_arrow_end :: ustr
  fo_style :: "ustr list"

definition flow_edge_out :: "flow_state \<Rightarrow> nat \<Rightarrow> flow_edge \<Rightarrow> flow_out" where
  "flow_edge_out s d h =
     (let (f, p) = destruct_edge_type (Some (fe_type h));
          bare = (fe_stroke h = lit ''invisible'' \<or> fe_type h = lit ''arrow_open'') in
      \<lparr>fo_id = (if fe_id h = [] then flow_edge_id (fe_start h) (fe_end h) d else fe_id h),
        fo_start = fe_start h, fo_end = fe_end h, fo_label = fe_text h, fo_thickness = fe_stroke h, fo_minlen = fe_length h,
        fo_arrow_start = (if bare then lit ''none'' else f), fo_arrow_end = (if bare then lit ''none'' else p),
        fo_style = (case fl_style s of None \<Rightarrow> [] | Some r \<Rightarrow> r) @ (case fe_style h of None \<Rightarrow> [] | Some r \<Rightarrow> r)\<rparr>)"

definition flow_edges_out :: "flow_state \<Rightarrow> flow_out list" where
  "flow_edges_out s = map2 (flow_edge_out s) [0..<length (fl_edges s)] (fl_edges s)"


section \<open>Statements\<close>

datatype flow_op =
    Links "ustr list" "ustr list" flow_link
  | LinkStyle "link_ref list" "ustr list"
  | LinkCurve "link_ref list" ustr
  | SubGraph sub_head "sub_item list"
  | FlowDirection ustr

fun flow_apply :: "flow_env \<Rightarrow> flow_op \<Rightarrow> flow_state \<Rightarrow> flow_error + flow_state" where
  "flow_apply C (Links t r i) s = add_link C t r i s"
| "flow_apply C (LinkStyle t r) s = update_link t r s"
| "flow_apply C (LinkCurve t r) s = update_link_interpolate t r s"
| "flow_apply C (SubGraph h r) s = rbind (add_sub_graph C h r s) (\<lambda>(_, s'). Inr s')"
| "flow_apply C (FlowDirection t) s = Inr (flow_set_direction t s)"

fun flow_run :: "flow_env \<Rightarrow> flow_op list \<Rightarrow> flow_state \<Rightarrow> flow_error + flow_state" where
  "flow_run C [] s = Inr s"
| "flow_run C (x # xs) s = rbind (flow_apply C x s) (flow_run C xs)"


section \<open>The number of edges\<close>

definition edges_ok :: "flow_env \<Rightarrow> flow_state \<Rightarrow> bool" where
  "edges_ok C s \<longleftrightarrow> fl_edges s = [] \<or> below_limit (length (fl_edges s) - 1) (max_edges C)"

lemma add_links_ok: "edges_ok C s \<Longrightarrow> add_links C ps i s = Inr s' \<Longrightarrow> edges_ok C s'"
proof (induction C ps i s rule: add_links.induct)
  case (2 C t r n ps i s)
  from "2.prems"(2) have below: "below_limit (length (fl_edges s)) (max_edges C)"
    and rest: "add_links C ps i (s\<lparr>fl_edges := fl_edges s @ [new_flow_edge C t r i n s]\<rparr>) = Inr s'"
    by (auto simp: add_single_link_def split: if_splits)
  from below have "edges_ok C (s\<lparr>fl_edges := fl_edges s @ [new_flow_edge C t r i n s]\<rparr>)"
    by (simp add: edges_ok_def)
  then show ?case using "2.IH" below rest by (simp add: add_single_link_def)
qed simp

lemma update_link_length: "update_link t r s = Inr s' \<Longrightarrow> length (fl_edges s') = length (fl_edges s)"
  by (induction t r s rule: update_link.induct) (auto split: if_splits option.splits)

lemma update_link_interpolate_length:
  "update_link_interpolate t r s = Inr s' \<Longrightarrow> length (fl_edges s') = length (fl_edges s)"
  by (induction t r s rule: update_link_interpolate.induct) (auto split: if_splits option.splits)

lemma edges_ok_length: "length (fl_edges s') = length (fl_edges s) \<Longrightarrow> edges_ok C s' = edges_ok C s"
  by (cases "fl_edges s"; cases "fl_edges s'") (simp_all add: edges_ok_def)

lemma flow_apply_ok: "edges_ok C s \<Longrightarrow> flow_apply C x s = Inr s' \<Longrightarrow> edges_ok C s'"
proof (cases x)
  case (Links t r i)
  assume "edges_ok C s" "flow_apply C x s = Inr s'"
  then show ?thesis using add_links_ok Links by (auto simp: add_link_def)
next
  case (LinkStyle t r)
  assume "edges_ok C s" "flow_apply C x s = Inr s'"
  then show ?thesis using LinkStyle edges_ok_length [OF update_link_length] by auto
next
  case (LinkCurve t r)
  assume "edges_ok C s" "flow_apply C x s = Inr s'"
  then show ?thesis using LinkCurve edges_ok_length [OF update_link_interpolate_length] by auto
next
  case (SubGraph h r)
  assume "edges_ok C s" "flow_apply C x s = Inr s'"
  then show ?thesis using SubGraph
    by (auto simp: add_sub_graph_def Let_def edges_ok_def split: option.splits)
next
  case (FlowDirection t)
  assume "edges_ok C s" "flow_apply C x s = Inr s'"
  then show ?thesis using FlowDirection by (auto simp: flow_set_direction_def edges_ok_def Let_def)
qed

lemma flow_run_ok: "edges_ok C s \<Longrightarrow> flow_run C xs s = Inr s' \<Longrightarrow> edges_ok C s'"
proof (induction xs arbitrary: s)
  case (Cons x xs)
  then obtain s1 where "flow_apply C x s = Inr s1" "flow_run C xs s1 = Inr s'" by auto
  then show ?case using Cons.IH flow_apply_ok [OF Cons.prems(1)] by blast
qed simp

lemma below_number: "below_limit n (JNum m) \<longleftrightarrow> int n < m"
  by (simp add: below_limit_def js_coalesce_def nullish_def)

text \<open>
  C0. Whatever directive the text of a flowchart starts with, a flowchart that is accepted has no more edges than the
  site allows.
\<close>

theorem flow_edges_bounded:
  assumes "add_directive_config C known e s = Inr s'" and "secure_names (site_config s) = Inr secure"
    and "get_site_config s = Inr base" and "lit ''maxEdges'' \<in> set secure" and "member base (lit ''maxEdges'') = JNum m"
    and "flow_run \<lparr>fv_config = current_config s', fv_sanitize = clean\<rparr> ops flow_clear = Inr fl"
  shows "int (length (fl_edges fl)) \<le> max 0 m"
proof -
  let ?C = "\<lparr>fv_config = current_config s', fv_sanitize = clean\<rparr>"
  have "lit ''maxEdges'' \<noteq> theme_variables" by code_simp
  then have "max_edges ?C = JNum m"
    using secure_member [OF assms(1-3), of "lit ''maxEdges''"] assms(4,5) by (simp add: max_edges_def denied_key_def)
  moreover have "edges_ok ?C fl" using flow_run_ok [OF _ assms(6)] by (simp add: edges_ok_def flow_clear_def)
  ultimately show ?thesis by (auto simp: edges_ok_def below_number)
qed


text \<open>\<open>addLink\<close> either finds room for all edges, or there are more than the limit.\<close>

lemma add_links_result:
  "(case add_links C ps i s of
      Inl e \<Rightarrow> e = EdgeLimit \<and> (\<exists>k<length ps. \<not> below_limit (length (fl_edges s) + k) (max_edges C))
    | Inr s' \<Rightarrow> map (\<lambda>e. (fe_start e, fe_end e)) (fl_edges s') =
        map (\<lambda>e. (fe_start e, fe_end e)) (fl_edges s) @ map (\<lambda>(t, r, n). (t, r)) ps)"
proof (induction C ps i s rule: add_links.induct)
  case (2 C t r n ps i s)
  let ?s = "s\<lparr>fl_edges := fl_edges s @ [new_flow_edge C t r i n s]\<rparr>"
  show ?case
  proof (cases "below_limit (length (fl_edges s)) (max_edges C)")
    case True
    then have "add_single_link C t r i n s = Inr ?s" by (simp add: add_single_link_def)
    then show ?thesis using "2.IH" [of ?s]
      by (fastforce simp: new_flow_edge_def Let_def split: sum.splits)
  next
    case False
    then show ?thesis by (auto simp: add_single_link_def)
  qed
qed simp

text \<open>A numeral is never found out of bounds: past the last edge the assignment itself fails.\<close>

lemma numeral_past_the_end:
  "length (fl_edges s) \<le> n \<Longrightarrow> update_link [LinkText (show_nat n)] r s = Inl FlowTypeError"
  by (simp add: link_index_def digits_val_show_nat)

text \<open>Different edges may get the same id.\<close>

lemma edge_ids_collide: "flow_edge_id (a @ lit ''_'' @ b) c n = flow_edge_id a (b @ lit ''_'' @ c) n"
  by (simp add: flow_edge_id_def)

text \<open>A subgraph without a head, for which the grammar has a rule, is an error.\<close>

lemma headless_subgraph: "add_sub_graph C NoHead r s = Inl FlowTypeError"
  by (simp add: add_sub_graph_def)


section \<open>The members of subgraphs\<close>

definition nonblank :: "ustr list \<Rightarrow> ustr set" where
  "nonblank ns = {n \<in> set ns. js_trim n \<noteq> []}"

fun item_names :: "sub_item \<Rightarrow> ustr list" where
  "item_names (Names ns) = ns"
| "item_names (Name n) = [n]"
| "item_names (SubDirection _) = []"

fun op_names :: "flow_op \<Rightarrow> ustr list" where
  "op_names (SubGraph h r) = concat (map item_names r)"
| "op_names _ = []"

definition named :: "(ustr + ustr) list \<Rightarrow> ustr list" where
  "named p = concat (map (\<lambda>i. case i of Inl _ \<Rightarrow> [] | Inr n \<Rightarrow> [n]) p)"

lemma named_flat: "named (flat_items r) = concat (map item_names r)"
  by (induction r rule: flat_items.induct) (simp_all add: named_def comp_def)

definition plain :: "ustr list \<Rightarrow> ustr list" where
  "plain ns = filter (\<lambda>n. n \<noteq> lit ''__proto__'') ns"

lemma uniq_members:
  assumes "uniq p met g x = Inr (g', x')" and "set met = set (plain g)" and "distinct (plain g)"
  shows "distinct (plain g') \<and> set g' = set g \<union> nonblank (named p)"
  using assms
proof (induction p met g x rule: uniq.induct)
  case (3 T p met g x)
  have n: "nonblank (named (Inr T # p)) = (if js_trim T = [] then {} else {T}) \<union> nonblank (named p)"
    by (auto simp: nonblank_def named_def)
  consider (blank) "js_trim T = []" | (again) "js_trim T \<noteq> []" "T \<in> set met" | (new) "js_trim T \<noteq> []" "T \<notin> set met" by blast
  then show ?case
  proof cases
    case blank
    then have "distinct (plain g') \<and> set g' = set g \<union> nonblank (named p)" using "3.IH"(1) "3.prems" by simp
    then show ?thesis using n blank by simp
  next
    case again
    then have "lit ''hasOwnProperty'' \<notin> set met" "uniq p met g x = Inr (g', x')"
      using "3.prems"(1) by (auto split: if_splits)
    then have "distinct (plain g') \<and> set g' = set g \<union> nonblank (named p)" using "3.IH"(2) again "3.prems"(2,3) by simp
    moreover have "T \<in> set g" using again(2) "3.prems"(2) by (auto simp: plain_def)
    ultimately show ?thesis using n again(1) by auto
  next
    case new
    let ?met = "if T = lit ''__proto__'' then met else T # met"
    have run: "uniq p ?met (g @ [T]) x = Inr (g', x')" "lit ''hasOwnProperty'' \<notin> set met"
      using new "3.prems"(1) by (auto split: if_splits)
    have "set ?met = set (plain (g @ [T]))" "distinct (plain (g @ [T]))"
      using "3.prems"(2,3) new by (auto simp: plain_def)
    then have "distinct (plain g') \<and> set g' = set (g @ [T]) \<union> nonblank (named p)"
      using "3.IH"(3) new run by simp
    then show ?thesis using n new(1) by simp
  qed
qed (simp_all add: nonblank_def named_def)

definition apart :: "subgraph list \<Rightarrow> bool" where
  "apart gs \<longleftrightarrow> sorted_wrt (\<lambda>a b. set (sg_nodes a) \<inter> set (sg_nodes b) = {}) gs \<and>
     list_all (\<lambda>g. distinct (plain (sg_nodes g))) gs"

definition all_members :: "subgraph list \<Rightarrow> ustr set" where
  "all_members gs = \<Union> (set ` sg_nodes ` set gs)"

lemma make_uniq_members: "set (make_uniq u gs) = set u - all_members gs"
  by (auto simp: make_uniq_def in_some_def all_members_def list_ex_iff)

lemma add_sub_graph_members:
  assumes "add_sub_graph C h r s = Inr (n, s')" and "apart (fl_subgraphs s)"
  shows "apart (fl_subgraphs s')"
    and "all_members (fl_subgraphs s') = all_members (fl_subgraphs s) \<union> nonblank (op_names (SubGraph h r))"
proof -
  obtain u x f where u: "uniq (flat_items r) [] [] None = Inr (u, x)"
    and s': "fl_subgraphs s' = fl_subgraphs s @ [f]" and f: "sg_nodes f = make_uniq u (fl_subgraphs s)"
    using assms(1) by (auto simp: add_sub_graph_def Let_def split: option.splits)
  have d: "distinct (plain u)" "set u = nonblank (concat (map item_names r))"
    using uniq_members [OF u] by (simp_all add: plain_def named_flat)
  have "plain (make_uniq u gs) = filter (\<lambda>n. \<not> in_some gs n) (plain u)" for gs
    by (induction u) (simp_all add: plain_def make_uniq_def)
  then have "distinct (plain (sg_nodes f))" using d(1) unfolding f by simp
  moreover have m: "set (sg_nodes f) = set u - all_members (fl_subgraphs s)"
    unfolding f by (rule make_uniq_members)
  ultimately show "apart (fl_subgraphs s')"
    using assms(2) s' by (auto simp: apart_def sorted_wrt_append all_members_def)
  show "all_members (fl_subgraphs s') = all_members (fl_subgraphs s) \<union> nonblank (op_names (SubGraph h r))"
    using m d(2) s' by (auto simp: all_members_def)
qed


lemma add_links_subgraphs: "add_links C ps i s = Inr s' \<Longrightarrow> fl_subgraphs s' = fl_subgraphs s"
proof (induction C ps i s rule: add_links.induct)
  case (2 C t r n ps i s)
  then obtain s1 where "add_single_link C t r i n s = Inr s1" "add_links C ps i s1 = Inr s'" by auto
  then show ?case using "2.IH" by (auto simp: add_single_link_def split: if_splits)
qed simp

lemma update_link_subgraphs: "update_link t r s = Inr s' \<Longrightarrow> fl_subgraphs s' = fl_subgraphs s"
  by (induction t r s rule: update_link.induct) (auto split: if_splits option.splits)

lemma update_link_interpolate_subgraphs:
  "update_link_interpolate t r s = Inr s' \<Longrightarrow> fl_subgraphs s' = fl_subgraphs s"
  by (induction t r s rule: update_link_interpolate.induct) (auto split: if_splits option.splits)

lemma flow_apply_members:
  assumes "flow_apply C x s = Inr s'" and "apart (fl_subgraphs s)"
  shows "apart (fl_subgraphs s') \<and> all_members (fl_subgraphs s') = all_members (fl_subgraphs s) \<union> nonblank (op_names x)"
proof (cases x)
  case (SubGraph h r)
  then obtain n where "add_sub_graph C h r s = Inr (n, s')" using assms(1) by auto
  then show ?thesis unfolding SubGraph using add_sub_graph_members assms(2) by blast
qed (use assms add_links_subgraphs update_link_subgraphs update_link_interpolate_subgraphs in
    \<open>auto simp: add_link_def flow_set_direction_def Let_def nonblank_def\<close>)

lemma flow_run_members:
  "flow_run C xs s = Inr s' \<Longrightarrow> apart (fl_subgraphs s) \<Longrightarrow>
     apart (fl_subgraphs s') \<and>
     all_members (fl_subgraphs s') = all_members (fl_subgraphs s) \<union> nonblank (concat (map op_names xs))"
proof (induction xs arbitrary: s)
  case (Cons x xs)
  then obtain s1 where s1: "flow_apply C x s = Inr s1" "flow_run C xs s1 = Inr s'" by auto
  have "nonblank (concat (map op_names (x # xs))) = nonblank (op_names x) \<union> nonblank (concat (map op_names xs))"
    by (auto simp: nonblank_def)
  then show ?case using Cons.IH [OF s1(2)] flow_apply_members [OF s1(1) Cons.prems(2)] by auto
qed (simp add: nonblank_def)

lemma set_parents: "map_of (foldl (set_parent d) m ns) f = (if f \<in> set ns then Some d else map_of m f)"
  by (induction ns arbitrary: m) (auto simp: set_parent_def map_of_map_set)

lemma parents_Cons: "parents (g # gs) = foldl (set_parent (sg_id g)) (parents gs) (sg_nodes g)"
  by (simp add: parents_def)

lemma parent_of_member:
  "apart gs \<Longrightarrow> g \<in> set gs \<Longrightarrow> f \<in> set (sg_nodes g) \<Longrightarrow> map_of (parents gs) f = Some (sg_id g)"
proof (induction gs)
  case (Cons h gs)
  then show ?case by (cases "g = h") (auto simp: parents_Cons set_parents apart_def)
qed simp

lemma parents_dom: "dom (map_of (parents gs)) = all_members gs"
proof (induction gs)
  case (Cons g gs)
  have "dom (map_of (parents (g # gs))) = set (sg_nodes g) \<union> dom (map_of (parents gs))"
    by (auto simp: parents_Cons set_parents dom_def)
  then show ?case unfolding Cons.IH by (simp add: all_members_def)
qed (simp add: parents_def all_members_def)

lemma apart_nth:
  assumes "apart gs" and "j < k" and "k < length gs" and "f \<in> set (sg_nodes (gs ! j))"
  shows "f \<notin> set (sg_nodes (gs ! k))"
proof -
  have "set (sg_nodes (gs ! j)) \<inter> set (sg_nodes (gs ! k)) = {}"
    using sorted_wrt_nth_less [of "\<lambda>a b. set (sg_nodes a) \<inter> set (sg_nodes b) = {}" gs j k] assms(1-3)
    by (simp add: apart_def)
  then show ?thesis using assms(4) by blast
qed

text \<open>
  C0. In a flowchart that is accepted every name that stands in some subgraph is a member of exactly one, and has
  that one as its parent in the layout; nothing else has a parent.
\<close>

theorem flow_members_once:
  assumes "flow_run C ops flow_clear = Inr fl"
  shows "dom (map_of (parents (fl_subgraphs fl))) = nonblank (concat (map op_names ops)) \<and>
    (\<forall>f. card {j. j < length (fl_subgraphs fl) \<and> f \<in> set (sg_nodes (fl_subgraphs fl ! j))} =
       of_bool (f \<in> nonblank (concat (map op_names ops)))) \<and>
    (\<forall>f j. j < length (fl_subgraphs fl) \<and> f \<in> set (sg_nodes (fl_subgraphs fl ! j)) \<longrightarrow>
       map_of (parents (fl_subgraphs fl)) f = Some (sg_id (fl_subgraphs fl ! j)))"
proof -
  let ?gs = "fl_subgraphs fl" and ?N = "nonblank (concat (map op_names ops))"
  have "apart (fl_subgraphs flow_clear)" by (simp add: apart_def flow_clear_def)
  from flow_run_members [OF assms this] have a: "apart ?gs" and m: "all_members ?gs = ?N"
    by (simp_all add: flow_clear_def all_members_def)
  have single: "j = k" if "j < length ?gs" "k < length ?gs" "f \<in> set (sg_nodes (?gs ! j))" "f \<in> set (sg_nodes (?gs ! k))" for f j k
    using apart_nth [OF a, of j k f] apart_nth [OF a, of k j f] that by (cases j k rule: linorder_cases) simp_all
  have "card {j. j < length ?gs \<and> f \<in> set (sg_nodes (?gs ! j))} = of_bool (f \<in> ?N)" for f
  proof (cases "f \<in> ?N")
    case True
    then obtain g where "g \<in> set ?gs" "f \<in> set (sg_nodes g)"
      unfolding m [symmetric] by (auto simp: all_members_def)
    then obtain j where "j < length ?gs" "f \<in> set (sg_nodes (?gs ! j))" by (auto simp: in_set_conv_nth [of g])
    then have "{j. j < length ?gs \<and> f \<in> set (sg_nodes (?gs ! j))} = {j}" using single by blast
    then show ?thesis using True by simp
  next
    case False
    then have "{j. j < length ?gs \<and> f \<in> set (sg_nodes (?gs ! j))} = {}"
      unfolding m [symmetric] all_members_def by fastforce
    then show ?thesis using False by simp
  qed
  moreover have "map_of (parents ?gs) f = Some (sg_id (?gs ! j))" if "j < length ?gs" "f \<in> set (sg_nodes (?gs ! j))" for f j
    using parent_of_member [OF a] that by simp
  ultimately show ?thesis by (simp add: parents_dom m)
qed

text \<open>Nothing keeps a subgraph from being a member of itself, and so its own parent.\<close>

lemma subgraph_in_itself:
  "(case flow_run C [SubGraph (OneText \<lparr>ft_text = lit ''A'', ft_type = lit ''text''\<rparr>) [Names [lit ''A'']]] flow_clear of
      Inl _ \<Rightarrow> False | Inr fl \<Rightarrow> map_of (parents (fl_subgraphs fl)) (lit ''A'') = Some (lit ''A''))"
  by (simp add: add_sub_graph_def flow_clear_def has_space_def js_space_def js_trim_def lit_def ch_def Let_def
      make_uniq_def in_some_def parents_def set_parent_def)


section \<open>Arrows read back\<close>

datatype head = Bare | Point | Cross | Circle

datatype stroke = Normal | Thick | Invisible | Dotted

fun opening_char :: "head \<Rightarrow> ustr" where
  "opening_char Bare = []"
| "opening_char Point = lit ''<''"
| "opening_char Cross = lit ''x''"
| "opening_char Circle = lit ''o''"

fun closing_char :: "stroke \<Rightarrow> head \<Rightarrow> ustr" where
  "closing_char Normal Bare = lit ''-''"
| "closing_char Thick Bare = lit ''=''"
| "closing_char Invisible Bare = lit ''~''"
| "closing_char Dotted Bare = []"
| "closing_char _ Point = lit ''>''"
| "closing_char _ Cross = lit ''x''"
| "closing_char _ Circle = lit ''o''"

fun line_of :: "stroke \<Rightarrow> nat \<Rightarrow> ustr" where
  "line_of Normal n = replicate (n + 1) (ch (CHR ''-''))"
| "line_of Thick n = replicate (n + 1) (ch (CHR ''=''))"
| "line_of Invisible n = replicate (n + 1) (ch (CHR ''~''))"
| "line_of Dotted n = ch (CHR ''-'') # replicate n (ch (CHR ''.'')) @ [ch (CHR ''-'')]"

definition print_link :: "bool \<Rightarrow> head \<Rightarrow> stroke \<Rightarrow> nat \<Rightarrow> ustr" where
  "print_link double h k n = (if double then opening_char h else []) @ line_of k n @ closing_char k h"

fun head_type :: "head \<Rightarrow> ustr" where
  "head_type Bare = lit ''arrow_open''"
| "head_type Point = lit ''arrow_point''"
| "head_type Cross = lit ''arrow_cross''"
| "head_type Circle = lit ''arrow_circle''"

fun stroke_name :: "stroke \<Rightarrow> ustr" where
  "stroke_name Normal = lit ''normal''"
| "stroke_name Thick = lit ''thick''"
| "stroke_name Invisible = lit ''invisible''"
| "stroke_name Dotted = lit ''dotted''"

lemma trim_id: "s \<noteq> [] \<Longrightarrow> \<not> js_space (hd s) \<Longrightarrow> \<not> js_space (last s) \<Longrightarrow> js_trim s = s"
  by (simp add: js_trim_def dropWhile_eq_self_iff [THEN iffD2] hd_rev)

lemma count_char_simps [simp]:
  "count_char c [] = 0"
  "count_char c (d # s) = (if d = c then Suc (count_char c s) else count_char c s)"
  "count_char c (s @ t) = count_char c s + count_char c t"
  "count_char c (replicate n d) = (if d = c then n else 0)"
  by (simp_all add: count_char_def)

lemma butlast_replicate: "butlast (replicate n c) = replicate (n - 1) c"
  by (cases n) (simp_all add: replicate_append_same [symmetric] del: replicate.simps(2) add: replicate_Suc)

lemma print_link_trim: "js_trim (print_link double h k n) = print_link double h k n"
  by (rule trim_id; cases h; cases k; cases double)
    (simp_all add: print_link_def lit_def ch_def js_space_def)

lemma link_read_back:
  "destruct_end_link (print_link double h k (Suc n)) =
     \<lparr>lk_type = (if double \<and> h \<noteq> Bare then double_of (head_type h) else head_type h), lk_stroke = stroke_name k,
       lk_length = Some (int (Suc n))\<rparr>"
  by (cases h; cases k; cases double)
    (simp_all add: destruct_end_link_def print_link_trim,
     simp_all add: print_link_def butlast_append butlast_replicate arrow_head_def lit_def ch_def Let_def)



text \<open>A link around a text: its start and its end must have the same stroke, which an invisible one has not.\<close>

fun start_line :: "stroke \<Rightarrow> ustr" where
  "start_line Normal = lit ''--''"
| "start_line Thick = lit ''==''"
| "start_line Invisible = lit ''~~''"
| "start_line Dotted = lit ''-.''"

fun end_line :: "stroke \<Rightarrow> nat \<Rightarrow> ustr" where
  "end_line Dotted n = replicate n (ch (CHR ''.'')) @ [ch (CHR ''-'')]"
| "end_line k n = line_of k n"

definition print_start :: "bool \<Rightarrow> head \<Rightarrow> stroke \<Rightarrow> ustr" where
  "print_start double h k = (if double then opening_char h else []) @ start_line k"

definition print_end :: "head \<Rightarrow> stroke \<Rightarrow> nat \<Rightarrow> ustr" where
  "print_end h k n = end_line k n @ closing_char k h"

lemma print_end_trim: "js_trim (print_end h k (Suc n)) = print_end h k (Suc n)"
  by (rule trim_id; cases h; cases k) (simp_all add: print_end_def lit_def ch_def js_space_def)

lemma end_read_back:
  "destruct_end_link (print_end h k (Suc n)) =
     \<lparr>lk_type = head_type h, lk_stroke = stroke_name k, lk_length = Some (int (Suc n))\<rparr>"
  by (cases h; cases k)
    (simp_all add: destruct_end_link_def print_end_trim,
     simp_all add: print_end_def butlast_append butlast_replicate arrow_head_def lit_def ch_def Let_def)

lemma start_read_back:
  "destruct_start_link (print_start double h k) =
     (if double then head_type h else lit ''arrow_open'', if k = Invisible then lit ''normal'' else stroke_name k)"
  by (cases h; cases k; cases double)
    (simp_all add: destruct_start_link_def print_start_def lit_def ch_def js_trim_def js_space_def js_includes_def Let_def)

lemma labelled_link_read_back:
  "destruct_link (print_end h k (Suc n)) (print_start double h k) =
     (if k = Invisible then INVALID
      else \<lparr>lk_type = (if double \<and> h \<noteq> Bare then double_of (head_type h) else head_type h),
             lk_stroke = stroke_name k, lk_length = Some (int (Suc n))\<rparr>)"
proof -
  have "print_start double h k \<noteq> []" "(head_type h = lit ''arrow_open'') = (h = Bare)"
    "double_of (head_type h) \<noteq> lit ''double_arrow''" "(stroke_name k = lit ''normal'') = (k = Normal)"
    by (cases h; cases k; cases double; simp only:; code_simp)+
  then show ?thesis
    by (cases k) (simp_all add: destruct_link_def end_read_back start_read_back Let_def INVALID_def lit_def ch_def)
qed


section \<open>Witnesses\<close>

definition flow_config :: js where
  "flow_config = JObj
     [(lit ''theme'', JStr (lit ''default'')), (lit ''secure'', JArr [JStr (lit ''maxEdges'')]), (lit ''maxEdges'', JNum 1)]"

definition flow_site :: config_state where
  "flow_site = \<lparr>default_config = flow_config, site_config = flow_config, directives = [], current_config = flow_config,
     initialize_config = JUndef\<rparr>"

definition flow_directive :: js where
  "flow_directive = JObj [(lit ''maxEdges'', JNum 100)]"

definition flow_demo_link :: flow_link where
  "flow_demo_link = \<lparr>ld_type = lit ''arrow_point'', ld_stroke = lit ''normal'', ld_length = Some 1, ld_text = None, ld_id = None\<rparr>"

definition flow_demo :: "flow_op list" where
  "flow_demo = [Links [lit ''A''] [lit ''B''] flow_demo_link,
     SubGraph (OneText \<lparr>ft_text = lit ''S'', ft_type = lit ''text''\<rparr>) [Names [lit ''A'', lit ''B'']],
     SubGraph (OneText \<lparr>ft_text = lit ''T'', ft_type = lit ''text''\<rparr>) [Names [lit ''B'', lit ''C''], Name (lit ''S'')]]"

lemma flow_site_facts:
  "secure_names (site_config flow_site) = Inr [lit ''maxEdges'']"
  "get_site_config flow_site = Inr flow_config"
  "lit ''maxEdges'' \<in> set [lit ''maxEdges'']"
  "member flow_config (lit ''maxEdges'') = JNum 1"
  by code_simp+

lemmas flow_eval = flow_demo_def flow_demo_link_def flow_clear_def add_link_def link_pairs_def add_single_link_def
  new_flow_edge_def max_edges_def below_limit_def js_coalesce_def nullish_def add_sub_graph_def has_space_def js_space_def
  js_trim_def make_uniq_def in_some_def lit_def ch_def Let_def

lemma flow_demo_run:
  assumes "max_edges C = JNum 1"
  shows "\<exists>fl. flow_run C flow_demo flow_clear = Inr fl \<and> length (fl_edges fl) = 1 \<and>
    map sg_nodes (fl_subgraphs fl) = [[lit ''A'', lit ''B''], [lit ''C'', lit ''S'']]"
  using assms by (simp add: flow_eval)

lemma flow_edges_bounded_witness:
  "\<exists>s' fl. add_directive_config demo_themes (\<lambda>_. True) flow_directive flow_site = Inr s' \<and>
     flow_run \<lparr>fv_config = current_config s', fv_sanitize = id\<rparr> flow_demo flow_clear = Inr fl \<and>
     length (fl_edges fl) = 1 \<and> int (length (fl_edges fl)) \<le> max 0 1"
proof -
  have "case add_directive_config demo_themes (\<lambda>_. True) flow_directive flow_site of Inl _ \<Rightarrow> False
      | Inr s' \<Rightarrow> member (current_config s') (lit ''maxEdges'') = JNum 1"
    by code_simp
  then obtain s' where s': "add_directive_config demo_themes (\<lambda>_. True) flow_directive flow_site = Inr s'"
    and m: "member (current_config s') (lit ''maxEdges'') = JNum 1"
    by (auto split: sum.splits)
  obtain fl where fl: "flow_run \<lparr>fv_config = current_config s', fv_sanitize = id\<rparr> flow_demo flow_clear = Inr fl"
      "length (fl_edges fl) = 1"
    using flow_demo_run [of "\<lparr>fv_config = current_config s', fv_sanitize = id\<rparr>"] m by (auto simp: max_edges_def)
  show ?thesis using flow_edges_bounded [OF s' flow_site_facts fl(1)] s' fl by blast
qed

lemma flow_members_once_witness:
  "\<exists>fl. flow_run \<lparr>fv_config = flow_config, fv_sanitize = id\<rparr> flow_demo flow_clear = Inr fl \<and>
     map sg_nodes (fl_subgraphs fl) = [[lit ''A'', lit ''B''], [lit ''C'', lit ''S'']] \<and>
     dom (map_of (parents (fl_subgraphs fl))) = nonblank (concat (map op_names flow_demo))"
proof -
  have "max_edges \<lparr>fv_config = flow_config, fv_sanitize = id\<rparr> = JNum 1"
    using flow_site_facts(4) by (simp add: max_edges_def)
  from flow_demo_run [OF this] show ?thesis
  proof (elim exE conjE)
    fix fl
    assume fl: "flow_run \<lparr>fv_config = flow_config, fv_sanitize = id\<rparr> flow_demo flow_clear = Inr fl"
      and m: "map sg_nodes (fl_subgraphs fl) = [[lit ''A'', lit ''B''], [lit ''C'', lit ''S'']]"
    show ?thesis by (intro exI [of _ fl] conjI fl m conjunct1 [OF flow_members_once [OF fl]])
  qed
qed

end
