(* ===== verification/Doc_Includes.thy ===== *)
theory Doc_Includes
  imports Rust_Num
begin

text \<open>
  The build script \<open>build.rs\<close>, which puts the documentation of the crate together: the lines
  \<open>{{#include path:spec}}\<close> of each page are replaced by a file or by a part of it, the rest of which
  rustdoc hides. Reading a file is the parameter \<open>read\<close>. Paths are as in \<open>main\<close> and the pages: without
  repeated or trailing slashes. A panic is an error value; the path its message names is left out.
\<close>

section \<open>Strings and paths of the standard library\<close>

definition strip_prefix :: "ustr \<Rightarrow> ustr \<Rightarrow> ustr option" where
  "strip_prefix p s = (if take (length p) s = p then Some (drop (length p) s) else None)"

definition strip_suffix :: "ustr \<Rightarrow> ustr \<Rightarrow> ustr option" where
  "strip_suffix p s = map_option rev (strip_prefix (rev p) (rev s))"

fun contains :: "ustr \<Rightarrow> ustr \<Rightarrow> bool" where
  "contains [] m \<longleftrightarrow> m = []"
| "contains (c # s) m \<longleftrightarrow> strip_prefix m (c # s) \<noteq> None \<or> contains s m"

fun position :: "('a \<Rightarrow> bool) \<Rightarrow> 'a list \<Rightarrow> nat option" where
  "position P [] = None"
| "position P (x # xs) = (if P x then Some 0 else map_option Suc (position P xs))"

fun split_once :: "uchar \<Rightarrow> ustr \<Rightarrow> (ustr \<times> ustr) option" where
  "split_once d [] = None"
| "split_once d (c # s) = (if c = d then Some ([], s) else map_option (apfst (Cons c)) (split_once d s))"

text \<open>\<open>char::is_whitespace\<close> and \<open>str::trim\<close>\<close>

definition is_whitespace :: "uchar \<Rightarrow> bool" where
  "is_whitespace c \<longleftrightarrow> 0x9 \<le> c \<and> c \<le> 0xD \<or> c = 0x20 \<or> c = 0x85 \<or> c = 0xA0 \<or> c = 0x1680 \<or>
     0x2000 \<le> c \<and> c \<le> 0x200A \<or> c = 0x2028 \<or> c = 0x2029 \<or> c = 0x202F \<or> c = 0x205F \<or> c = 0x3000"

definition trim :: "ustr \<Rightarrow> ustr" where
  "trim s = rev (dropWhile is_whitespace (rev (dropWhile is_whitespace s)))"

text \<open>\<open>str::lines\<close>: a line ends with a line feed, before which one carriage return is dropped too.\<close>

definition drop_cr :: "ustr \<Rightarrow> ustr" where
  "drop_cr l = (if l \<noteq> [] \<and> last l = 13 then butlast l else l)"

fun lines_from :: "ustr \<Rightarrow> ustr \<Rightarrow> ustr list" where
  "lines_from l [] = (if l = [] then [] else [l])"
| "lines_from l (c # s) = (if c = 10 then drop_cr l # lines_from [] s else lines_from (l @ [c]) s)"

definition str_lines :: "ustr \<Rightarrow> ustr list" where
  "str_lines s = lines_from [] s"

definition newline :: ustr where
  "newline = [10]"

definition path_parent :: "ustr \<Rightarrow> ustr" where
  "path_parent p = rev (tl (dropWhile (\<lambda>c. c \<noteq> ch (CHR ''/'')) (rev p)))"

definition path_join :: "ustr \<Rightarrow> ustr \<Rightarrow> ustr" where
  "path_join base p =
     (if base = [] \<or> strip_prefix (lit ''/'') p \<noteq> None then p
      else if last base = ch (CHR ''/'') then base @ p else base @ lit ''/'' @ p)"

text \<open>\<open>path.extension()\<close> is \<open>svg\<close>: what follows the last dot of the file name, if anything precedes that dot.\<close>

definition is_svg :: "ustr \<Rightarrow> bool" where
  "is_svg path =
     (let name = rev (takeWhile (\<lambda>c. c \<noteq> ch (CHR ''/'')) (rev path));
          ext = rev (takeWhile (\<lambda>c. c \<noteq> ch (CHR ''.'')) (rev name))
      in ext = lit ''svg'' \<and> length ext + 1 < length name)"


section \<open>Extraction\<close>

datatype doc_error =
    CouldNotRead ustr
  | CouldNotInclude ustr
  | InvalidLineNumber
  | StartOutOfRange nat
  | EndOutOfRange nat
  | StartMarkerNotFound ustr
  | EndMarkerNotFound ustr
  | AnchorNotFound ustr
  | AnchorEndNotFound ustr
  | QuoteExpected
  | ColonExpected
  | UnterminatedMarker

definition is_line_range :: "ustr \<Rightarrow> bool" where
  "is_line_range spec \<longleftrightarrow>
     ch (CHR ''-'') \<in> set spec \<and> list_all (\<lambda>c. is_digit c \<or> c = ch (CHR ''-'')) spec"

definition line_number :: "ustr \<Rightarrow> nat \<Rightarrow> doc_error + nat" where
  "line_number s omitted =
     (if s = [] then Inr omitted
      else case parse_usize s of None \<Rightarrow> Inl InvalidLineNumber | Some n \<Rightarrow> Inr n)"

text \<open>The last step of the three strategies: a line is shown, hidden or left out by its index.\<close>

definition show_line :: "ustr \<Rightarrow> ustr" where
  "show_line l = l @ newline"

definition hide_line :: "ustr \<Rightarrow> ustr" where
  "hide_line l = lit ''# '' @ l @ newline"

definition apply_line_range :: "ustr list \<Rightarrow> ustr \<Rightarrow> doc_error + ustr" where
  "apply_line_range ls spec =
     (case split_once (ch (CHR ''-'')) spec of
        None \<Rightarrow> Inl InvalidLineNumber
      | Some (start_str, end_str) \<Rightarrow>
          rbind (line_number start_str 1) (\<lambda>start.
          rbind (line_number end_str (length ls)) (\<lambda>stop.
            if \<not> (1 \<le> start \<and> start \<le> length ls) then Inl (StartOutOfRange start)
            else if \<not> (start \<le> stop \<and> stop \<le> length ls) then Inl (EndOutOfRange stop)
            else Inr (concat (map (\<lambda>(i, line).
                   if start \<le> i + 1 \<and> i + 1 \<le> stop then show_line line else hide_line line)
                 (enumerate 0 ls))))))"

fun quoted_loop :: "ustr \<Rightarrow> ustr \<Rightarrow> doc_error + ustr \<times> ustr" where
  "quoted_loop result [] = Inl UnterminatedMarker"
| "quoted_loop result (c # s) =
     (if c = ch (CHR 0x22) then Inr (result, s)
      else if c = ch (CHR 0x5C) then
        (case s of [] \<Rightarrow> Inl UnterminatedMarker | d # s' \<Rightarrow> quoted_loop (result @ [d]) s')
      else quoted_loop (result @ [c]) s)"

definition parse_quoted :: "ustr \<Rightarrow> doc_error + ustr \<times> ustr" where
  "parse_quoted chars =
     (case chars of [] \<Rightarrow> Inl QuoteExpected
      | c # s \<Rightarrow> if c = ch (CHR 0x22) then quoted_loop [] s else Inl QuoteExpected)"

definition parse_string_pair :: "ustr \<Rightarrow> doc_error + ustr \<times> ustr" where
  "parse_string_pair spec =
     rbind (parse_quoted spec) (\<lambda>(start, chars).
       case chars of [] \<Rightarrow> Inl ColonExpected
       | c # chars' \<Rightarrow>
           if c = ch (CHR '':'') then rbind (parse_quoted chars') (\<lambda>(stop, _). Inr (start, stop))
           else Inl ColonExpected)"

definition apply_string_markers :: "ustr list \<Rightarrow> ustr \<Rightarrow> doc_error + ustr" where
  "apply_string_markers ls spec =
     rbind (parse_string_pair spec) (\<lambda>(start_marker, end_marker).
       case position (\<lambda>l. contains l start_marker) ls of
         None \<Rightarrow> Inl (StartMarkerNotFound start_marker)
       | Some start_idx \<Rightarrow>
           (case position (\<lambda>l. contains l end_marker) (drop (start_idx + 1) ls) of
              None \<Rightarrow> Inl (EndMarkerNotFound end_marker)
            | Some i \<Rightarrow>
                let end_idx = i + start_idx + 1 in
                Inr (concat (map (\<lambda>(i, line).
                   if start_idx \<le> i \<and> i \<le> end_idx then show_line line else hide_line line)
                 (enumerate 0 ls)))))"

definition apply_named_anchor :: "ustr list \<Rightarrow> ustr \<Rightarrow> doc_error + ustr" where
  "apply_named_anchor ls anchor =
     (let start_marker = lit ''ANCHOR: '' @ anchor; end_marker = lit ''ANCHOR_END: '' @ anchor in
      case position (\<lambda>l. contains l start_marker) ls of
        None \<Rightarrow> Inl (AnchorNotFound anchor)
      | Some start_idx \<Rightarrow>
          (case position (\<lambda>l. contains l end_marker) (drop (start_idx + 1) ls) of
             None \<Rightarrow> Inl (AnchorEndNotFound anchor)
           | Some i \<Rightarrow>
               let end_idx = i + start_idx + 1 in
               Inr (concat (map (\<lambda>(i, line).
                  if i = start_idx \<or> i = end_idx then []
                  else if start_idx < i \<and> i < end_idx then show_line line else hide_line line)
                (enumerate 0 ls)))))"

definition apply_spec :: "ustr \<Rightarrow> ustr \<Rightarrow> doc_error + ustr" where
  "apply_spec content spec =
     (let ls = str_lines content in
      if is_line_range spec then apply_line_range ls spec
      else if strip_prefix [ch (CHR 0x22)] spec \<noteq> None then apply_string_markers ls spec
      else apply_named_anchor ls spec)"


section \<open>Pages\<close>

text \<open>\<open>join\<close> of the standard library, with a line feed between the lines\<close>

fun join_lines :: "ustr list \<Rightarrow> ustr" where
  "join_lines [] = []"
| "join_lines [l] = l"
| "join_lines (l # ls) = l @ newline @ join_lines ls"

definition process_include :: "(ustr \<Rightarrow> ustr option) \<Rightarrow> ustr \<Rightarrow> ustr \<Rightarrow> doc_error + ustr" where
  "process_include read inner base =
     (let (path_str, spec) = (case split_once (ch (CHR '':'')) inner of
            Some (p, s) \<Rightarrow> (trim p, Some (trim s)) | None \<Rightarrow> (inner, None));
          path = path_join base path_str
      in case read path of
        None \<Rightarrow> Inl (CouldNotInclude path)
      | Some content \<Rightarrow>
          (case spec of
             None \<Rightarrow>
               if is_svg path
               then Inr (join_lines (filter (\<lambda>l. trim l \<noteq> []) (str_lines content)) @ newline)
               else Inr content
           | Some s \<Rightarrow> apply_spec content s))"

definition resolve_line :: "(ustr \<Rightarrow> ustr option) \<Rightarrow> ustr \<Rightarrow> ustr \<Rightarrow> doc_error + ustr" where
  "resolve_line read base line =
     (case Option.bind (strip_prefix (lit ''{{#include '') (trim line)) (strip_suffix (lit ''}}'')) of
        None \<Rightarrow> Inr (line @ newline)
      | Some inner \<Rightarrow> process_include read (trim inner) base)"

definition resolve_includes :: "(ustr \<Rightarrow> ustr option) \<Rightarrow> ustr \<Rightarrow> doc_error + ustr" where
  "resolve_includes read path =
     (case read path of
        None \<Rightarrow> Inl (CouldNotRead path)
      | Some src \<Rightarrow> rconcat (map (resolve_line read (path_parent path)) (str_lines src)))"

definition mermaid_init :: ustr where
  "mermaid_init = join_lines
    [lit ''document.addEventListener(\"DOMContentLoaded\", function () {'',
     lit ''  document.querySelectorAll(\"pre.language-mermaid\").forEach(function (pre) {'',
     lit ''    var code = pre.querySelector(\"code\") || pre;'',
     lit ''    var div = document.createElement(\"div\");'',
     lit ''    div.className = \"mermaid\";'',
     lit ''    div.textContent = code.textContent;'',
     lit ''    (pre.closest(\".example-wrap\") || pre).replaceWith(div);'',
     lit ''  });'',
     lit ''  var rustdocTheme = localStorage.getItem(\"rustdoc-theme\");'',
     lit ''  var isDark = rustdocTheme === \"dark\" || rustdocTheme === \"ayu\";'',
     lit ''  mermaid.initialize({ startOnLoad: true, theme: isDark ? \"dark\" : \"default\" });'',
     lit ''});'']"

definition mermaid_script :: "(ustr \<Rightarrow> ustr option) \<Rightarrow> doc_error + ustr" where
  "mermaid_script read =
     (case read (lit ''docs/mermaid.tiny.js'') of
        None \<Rightarrow> Inl (CouldNotRead (lit ''docs/mermaid.tiny.js''))
      | Some js \<Rightarrow>
          Inr (newline @ lit ''<script>'' @ newline @ js @ newline @ lit ''</script>'' @ newline @ newline
            @ lit ''<script>'' @ newline @ mermaid_init @ newline @ lit ''</script>'' @ newline))"

definition generated_docs :: "(ustr \<Rightarrow> ustr option) \<Rightarrow> doc_error + ustr" where
  "generated_docs read =
     rbind (rconcat (map (resolve_includes read)
       [lit ''docs/about.md'', lit ''docs/quick_start.md'', lit ''docs/core_concepts.md'',
        lit ''docs/architecture.md'', lit ''docs/preallocating.md'', lit ''docs/sinks.md'',
        lit ''docs/formatter.md'']))
     (\<lambda>out. rbind (mermaid_script read) (\<lambda>s. Inr (out @ s)))"


section \<open>What a page shows\<close>

text \<open>
  The lines that rustdoc shows and the lines it compiles, for an output without lines that were marked
  already in the file.
\<close>

definition shown_lines :: "ustr \<Rightarrow> ustr list" where
  "shown_lines out = filter (\<lambda>l. strip_prefix (lit ''# '') l = None) (str_lines out)"

definition whole_lines :: "ustr \<Rightarrow> ustr list" where
  "whole_lines out = map (\<lambda>l. case strip_prefix (lit ''# '') l of None \<Rightarrow> l | Some r \<Rightarrow> r) (str_lines out)"

definition plain_line :: "ustr \<Rightarrow> bool" where
  "plain_line l \<longleftrightarrow> 10 \<notin> set l \<and> 13 \<notin> set l \<and> strip_prefix (lit ''# '') l = None"

lemma strip_prefix_append [simp]: "strip_prefix p (p @ s) = Some s"
  by (simp add: strip_prefix_def)

lemma lines_from_line: "10 \<notin> set l \<Longrightarrow> lines_from p (l @ 10 # s) = drop_cr (p @ l) # lines_from [] s"
  by (induction l arbitrary: p) auto

lemma drop_cr_id: "13 \<notin> set l \<Longrightarrow> drop_cr l = l"
  by (metis drop_cr_def last_in_set)

lemma str_lines_show:
  "\<forall>l\<in>set ls. 10 \<notin> set l \<and> 13 \<notin> set l \<Longrightarrow> str_lines (concat (map show_line ls)) = ls"
  by (induction ls) (simp_all add: str_lines_def show_line_def newline_def lines_from_line drop_cr_id)

lemma lines_from_clean:
  "13 \<notin> set s \<Longrightarrow> 10 \<notin> set p \<Longrightarrow> 13 \<notin> set p \<Longrightarrow> l \<in> set (lines_from p s) \<Longrightarrow> 10 \<notin> set l \<and> 13 \<notin> set l"
  by (induction p s rule: lines_from.induct) (auto simp: drop_cr_id split: if_splits)

lemma str_lines_plain:
  "13 \<notin> set content \<Longrightarrow> \<forall>l\<in>set (str_lines content). strip_prefix (lit ''# '') l = None \<Longrightarrow>
   \<forall>l\<in>set (str_lines content). plain_line l"
  using lines_from_clean [of content "[]"] by (auto simp: plain_line_def str_lines_def)

text \<open>The common last step: what is shown, and that the rest is hidden but kept.\<close>

definition mark_lines :: "(nat \<Rightarrow> bool) \<Rightarrow> (nat \<times> ustr) list \<Rightarrow> ustr" where
  "mark_lines P es = concat (map (\<lambda>(i, line). if P i then show_line line else hide_line line) es)"

lemma str_lines_mark:
  assumes "\<forall>(i, l)\<in>set es. plain_line l"
  shows "str_lines (mark_lines P es) = map (\<lambda>(i, l). if P i then l else lit ''# '' @ l) es"
proof -
  have "mark_lines P es = concat (map show_line (map (\<lambda>(i, l). if P i then l else lit ''# '' @ l) es))"
    by (auto simp: mark_lines_def show_line_def hide_line_def comp_def intro!: arg_cong [of _ _ concat])
  moreover have "10 \<notin> set (lit ''# '')" "13 \<notin> set (lit ''# '')" by (simp_all add: lit_def ch_def)
  ultimately show ?thesis
    using assms by (simp only:) (rule str_lines_show, auto simp: plain_line_def)
qed

lemma mark_lines_view:
  assumes "\<forall>(i, l)\<in>set es. plain_line l"
  shows "shown_lines (mark_lines P es) = map snd (filter (\<lambda>(i, _). P i) es)"
    and "whole_lines (mark_lines P es) = map snd es"
  using assms unfolding shown_lines_def whole_lines_def str_lines_mark [OF assms]
  by (induction es) (auto simp: plain_line_def)

lemma filter_enumerate:
  "map snd (filter (\<lambda>(i, _). a \<le> i \<and> i < b) (enumerate n xs)) = take (b - max a n) (drop (a - n) xs)"
proof (induction xs arbitrary: n)
  case (Cons x xs)
  show ?case
  proof (cases "n < a")
    case True
    then have "a - n = Suc (a - Suc n)" "max a n = max a (Suc n)" by auto
    then show ?thesis using True Cons [of "Suc n"] by simp
  next
    case False
    then show ?thesis using Cons [of "Suc n"]
      by (cases "n < b") (auto simp: max_def Suc_diff_le take_Cons' le_Suc_eq)
  qed
qed simp

lemma mark_range_view:
  assumes "\<forall>l\<in>set ls. plain_line l"
  shows "shown_lines (mark_lines (\<lambda>i. a \<le> i \<and> i < b) (enumerate 0 ls)) = take (b - a) (drop a ls)"
    and "whole_lines (mark_lines (\<lambda>i. a \<le> i \<and> i < b) (enumerate 0 ls)) = ls"
proof -
  have "\<forall>(i, l)\<in>set (enumerate 0 ls). plain_line l"
    using assms by (auto simp: in_set_enumerate_eq)
  then show "shown_lines (mark_lines (\<lambda>i. a \<le> i \<and> i < b) (enumerate 0 ls)) = take (b - a) (drop a ls)"
    "whole_lines (mark_lines (\<lambda>i. a \<le> i \<and> i < b) (enumerate 0 ls)) = ls"
    by (simp_all add: mark_lines_view filter_enumerate)
qed

lemma position_Some:
  "position P xs = Some i \<longleftrightarrow> i < length xs \<and> P (xs ! i) \<and> (\<forall>k<i. \<not> P (xs ! k))"
proof (induction xs arbitrary: i)
  case (Cons x xs)
  then show ?case by (cases i) (auto simp: less_Suc_eq_0_disj nth_Cons split: nat.splits)
qed simp

lemma position_None: "position P xs = None \<longleftrightarrow> (\<forall>x\<in>set xs. \<not> P x)"
  by (induction xs) auto


section \<open>Properties\<close>

lemma line_number_show: "n < 2 ^ 64 \<Longrightarrow> line_number (show_nat n) omitted = Inr n"
  by (simp add: line_number_def parse_show_nat)

lemma split_once_at: "d \<notin> set s \<Longrightarrow> split_once d (s @ d # r) = Some (s, r)"
  by (induction s) auto

lemma dash_not_digit: "ch (CHR ''-'') \<notin> set (show_nat n)"
  using show_nat_digits [of n] by (auto simp: list_all_iff is_digit_def ch_def)

lemma is_line_range_show: "is_line_range (show_nat a @ lit ''-'' @ show_nat b)"
  using show_nat_digits [of a] show_nat_digits [of b] by (auto simp: is_line_range_def lit_def list_all_iff)

lemma apply_range_eq:
  assumes "a < 2 ^ 64" and "b < 2 ^ 64"
  shows "apply_spec content (show_nat a @ lit ''-'' @ show_nat b) =
    (let ls = str_lines content in
     if \<not> (1 \<le> a \<and> a \<le> length ls) then Inl (StartOutOfRange a)
     else if \<not> (a \<le> b \<and> b \<le> length ls) then Inl (EndOutOfRange b)
     else Inr (mark_lines (\<lambda>i. a - 1 \<le> i \<and> i < b) (enumerate 0 ls)))"
proof -
  have "split_once (ch (CHR ''-'')) (show_nat a @ lit ''-'' @ show_nat b) = Some (show_nat a, show_nat b)"
    using split_once_at [OF dash_not_digit, of a "show_nat b"] by (simp add: lit_def)
  moreover have "(a \<le> i + 1 \<and> i + 1 \<le> b) = (a - 1 \<le> i \<and> i < b)" for i by auto
  ultimately show ?thesis
    using is_line_range_show [of a b] assms
    by (simp add: apply_spec_def apply_line_range_def line_number_show mark_lines_def Let_def)
qed

text \<open>C30. Including the lines a to b of a file succeeds exactly when these are lines of the file; the page then
  shows exactly those lines, and what is hidden and shown together is still the whole file.\<close>

theorem include_line_range:
  assumes "13 \<notin> set content" and "\<forall>l\<in>set (str_lines content). strip_prefix (lit ''# '') l = None"
    and "a < 2 ^ 64" and "b < 2 ^ 64"
  shows "case apply_spec content (show_nat a @ lit ''-'' @ show_nat b) of
      Inl _ \<Rightarrow> \<not> (1 \<le> a \<and> a \<le> b \<and> b \<le> length (str_lines content))
    | Inr out \<Rightarrow> 1 \<le> a \<and> a \<le> b \<and> b \<le> length (str_lines content) \<and>
        shown_lines out = take (b + 1 - a) (drop (a - 1) (str_lines content)) \<and>
        whole_lines out = str_lines content"
proof -
  have "1 \<le> a \<Longrightarrow> b - (a - 1) = b + 1 - a" by simp
  then show ?thesis
    using mark_range_view [OF str_lines_plain [OF assms(1,2)], of "a - 1" b]
    by (auto simp: apply_range_eq [OF assms(3,4)] Let_def)
qed

text \<open>A string marker as it is written in a page: quotes and backslashes are escaped.\<close>

definition quote :: "ustr \<Rightarrow> ustr" where
  "quote m = ch (CHR 0x22) #
     concat (map (\<lambda>c. if c = ch (CHR 0x22) \<or> c = ch (CHR 0x5C) then [ch (CHR 0x5C), c] else [c]) m) @ [ch (CHR 0x22)]"

lemma quoted_loop_quote:
  "quoted_loop r (concat (map (\<lambda>c. if c = ch (CHR 0x22) \<or> c = ch (CHR 0x5C) then [ch (CHR 0x5C), c] else [c]) m)
     @ ch (CHR 0x22) # s) = Inr (r @ m, s)"
  by (induction m arbitrary: r) (auto simp: ch_def)

lemma parse_string_pair_quote: "parse_string_pair (quote a @ lit '':'' @ quote b) = Inr (a, b)"
  by (simp add: parse_string_pair_def parse_quoted_def quote_def quoted_loop_quote lit_def)

lemma apply_markers_eq:
  "apply_spec content (quote a @ lit '':'' @ quote b) = apply_string_markers (str_lines content) (quote a @ lit '':'' @ quote b)"
proof -
  have "\<not> is_line_range (quote a @ lit '':'' @ quote b)"
    by (simp add: is_line_range_def quote_def is_digit_def ch_def)
  moreover have "strip_prefix [ch (CHR 0x22)] (quote a @ lit '':'' @ quote b) \<noteq> None"
    by (simp add: quote_def strip_prefix_def)
  ultimately show ?thesis by (simp add: apply_spec_def Let_def)
qed

text \<open>C31. Any two texts can be used as the markers of a part: quoted, they are read back, and the page shows
  the lines from the first one that contains the start up to the next one that contains the end, or the build
  stops if there is none.\<close>

theorem include_string_markers:
  fixes content :: ustr
  defines "ls \<equiv> str_lines content"
  assumes "13 \<notin> set content" and "\<forall>l\<in>set ls. strip_prefix (lit ''# '') l = None"
  shows "case apply_spec content (quote a @ lit '':'' @ quote b) of
      Inl e \<Rightarrow> e = StartMarkerNotFound a \<and> (\<forall>l\<in>set ls. \<not> contains l a) \<or>
        e = EndMarkerNotFound b \<and> (\<exists>i<length ls. contains (ls ! i) a \<and> (\<forall>k<i. \<not> contains (ls ! k) a) \<and>
          (\<forall>l\<in>set (drop (Suc i) ls). \<not> contains l b))
    | Inr out \<Rightarrow> \<exists>i j. i < j \<and> j < length ls \<and> contains (ls ! i) a \<and> (\<forall>k<i. \<not> contains (ls ! k) a) \<and>
        contains (ls ! j) b \<and> (\<forall>k. i < k \<and> k < j \<longrightarrow> \<not> contains (ls ! k) b) \<and>
        shown_lines out = take (j + 1 - i) (drop i ls) \<and> whole_lines out = ls"
proof (cases "position (\<lambda>l. contains l a) ls")
  case None
  then have "apply_spec content (quote a @ lit '':'' @ quote b) = Inl (StartMarkerNotFound a)"
    by (simp add: apply_markers_eq apply_string_markers_def parse_string_pair_quote ls_def)
  then show ?thesis using None by (simp add: position_None)
next
  case (Some i)
  note i = Some [unfolded position_Some]
  show ?thesis
  proof (cases "position (\<lambda>l. contains l b) (drop (i + 1) ls)")
    case None
    then have "apply_spec content (quote a @ lit '':'' @ quote b) = Inl (EndMarkerNotFound b)"
      using Some by (simp add: apply_markers_eq apply_string_markers_def parse_string_pair_quote ls_def)
    then show ?thesis using i None by (auto simp: position_None)
  next
    case (Some d)
    let ?j = "d + i + 1"
    have run: "apply_spec content (quote a @ lit '':'' @ quote b) =
        Inr (mark_lines (\<lambda>k. i \<le> k \<and> k < ?j + 1) (enumerate 0 ls))"
      using Some \<open>position (\<lambda>l. contains l a) ls = Some i\<close>
      by (simp add: apply_markers_eq apply_string_markers_def parse_string_pair_quote ls_def mark_lines_def
          Let_def less_Suc_eq_le)
    have d: "?j < length ls" "contains (ls ! ?j) b" "\<forall>k<d. \<not> contains (ls ! (k + i + 1)) b"
      using Some [unfolded position_Some] i by (auto simp: ac_simps)
    have "\<not> contains (ls ! k) b" if "i < k" "k < ?j" for k
      using d(3) [rule_format, of "k - i - 1"] that by simp
    moreover note mark_range_view [of ls i "?j + 1"] str_lines_plain [OF assms(2)] assms(3)
    ultimately have "i < ?j \<and> ?j < length ls \<and> contains (ls ! i) a \<and> (\<forall>k<i. \<not> contains (ls ! k) a) \<and>
        contains (ls ! ?j) b \<and> (\<forall>k. i < k \<and> k < ?j \<longrightarrow> \<not> contains (ls ! k) b) \<and>
        shown_lines (mark_lines (\<lambda>k. i \<le> k \<and> k < ?j + 1) (enumerate 0 ls)) = take (?j + 1 - i) (drop i ls) \<and>
        whole_lines (mark_lines (\<lambda>k. i \<le> k \<and> k < ?j + 1) (enumerate 0 ls)) = ls"
      using d(1,2) i by (auto simp: ls_def)
    then show ?thesis unfolding run sum.case by (intro exI)
  qed
qed

lemma contains_prefix: "contains (m @ s) m"
  by (cases "m @ s"; cases m) (auto simp: strip_prefix_def)

lemma contains_append: "contains s m \<Longrightarrow> contains (p @ s) m"
  by (induction p) auto

text \<open>A file with two anchors, the name of the first one extending the name of the second.\<close>

definition two_anchors :: "ustr \<Rightarrow> ustr \<Rightarrow> ustr \<Rightarrow> ustr \<Rightarrow> ustr list" where
  "two_anchors name suffix x y =
     [lit ''// ANCHOR: '' @ name @ suffix, x, lit ''// ANCHOR_END: '' @ name @ suffix,
      lit ''// ANCHOR: '' @ name, y, lit ''// ANCHOR_END: '' @ name]"

text \<open>The anchor comments are searched as parts of lines, so an anchor is shadowed by an earlier one whose
  name begins with its name: the page shows the other anchor's lines and hides the ones asked for.\<close>

lemma anchor_prefix_captured:
  assumes "\<not> is_line_range name" and "strip_prefix [ch (CHR 0x22)] name = None"
    and "\<forall>l\<in>set (two_anchors name suffix x y). plain_line l" and "\<not> contains x (lit ''ANCHOR_END: '' @ name)"
  shows "\<exists>out. apply_spec (concat (map show_line (two_anchors name suffix x y))) name = Inr out \<and>
     shown_lines out = [x] \<and>
     whole_lines out = [x, lit ''// ANCHOR: '' @ name, y, lit ''// ANCHOR_END: '' @ name]"
proof -
  let ?ls = "two_anchors name suffix x y"
  let ?es = "[(1, x), (3, lit ''// ANCHOR: '' @ name), (4, y), (5, lit ''// ANCHOR_END: '' @ name)]"
  have lit_parts: "lit ''// ANCHOR: '' = lit ''// '' @ lit ''ANCHOR: ''" "lit ''// ANCHOR_END: '' = lit ''// '' @ lit ''ANCHOR_END: ''"
    by (simp_all add: lit_def)
  have found: "contains (lit ''// ANCHOR: '' @ name @ suffix) (lit ''ANCHOR: '' @ name)"
    "contains (lit ''// ANCHOR_END: '' @ name @ suffix) (lit ''ANCHOR_END: '' @ name)"
    unfolding lit_parts
    using contains_append [OF contains_prefix [of "lit ''ANCHOR: '' @ name" suffix]]
      contains_append [OF contains_prefix [of "lit ''ANCHOR_END: '' @ name" suffix]] by simp_all
  have lines: "str_lines (concat (map show_line ?ls)) = ?ls"
    using assms(3) by (intro str_lines_show) (auto simp: plain_line_def)
  have "apply_named_anchor ?ls name = Inr (mark_lines (\<lambda>i. 0 < i \<and> i < 2) ?es)"
    using assms(4) found by (simp add: apply_named_anchor_def mark_lines_def two_anchors_def)
  then have run: "apply_spec (concat (map show_line ?ls)) name = Inr (mark_lines (\<lambda>i. 0 < i \<and> i < 2) ?es)"
    using assms(1,2) by (simp add: apply_spec_def Let_def lines)
  have "\<forall>(i, l)\<in>set ?es. plain_line l" using assms(3) by (simp add: two_anchors_def)
  then show ?thesis unfolding run by (simp add: mark_lines_view)
qed


section \<open>Witnesses\<close>

definition demo_file :: ustr where
  "demo_file = concat (map show_line [lit ''use x;'', lit ''fn main() {'', lit ''  say(\"hi\");'', lit ''}''])"

lemma include_line_range_witness:
  "case apply_spec demo_file (lit ''2-3'') of Inl _ \<Rightarrow> False
     | Inr out \<Rightarrow> shown_lines out = [lit ''fn main() {'', lit ''  say(\"hi\");'']"
proof -
  have "13 \<notin> set demo_file" "\<forall>l\<in>set (str_lines demo_file). strip_prefix (lit ''# '') l = None"
    "show_nat 2 @ lit ''-'' @ show_nat 3 = lit ''2-3''"
    "str_lines demo_file = [lit ''use x;'', lit ''fn main() {'', lit ''  say(\"hi\");'', lit ''}'']"
    by code_simp+
  then show ?thesis using include_line_range [of demo_file 2 3] by (auto split: sum.splits)
qed

lemma include_string_markers_witness:
  "case apply_spec demo_file (quote (lit ''fn'') @ lit '':'' @ quote (lit ''\"hi'')) of Inl _ \<Rightarrow> False
     | Inr out \<Rightarrow> whole_lines out = str_lines demo_file"
proof -
  have "13 \<notin> set demo_file" "\<forall>l\<in>set (str_lines demo_file). strip_prefix (lit ''# '') l = None"
    "case apply_spec demo_file (quote (lit ''fn'') @ lit '':'' @ quote (lit ''\"hi'')) of Inl _ \<Rightarrow> False | Inr _ \<Rightarrow> True"
    by code_simp+
  then show ?thesis
    using include_string_markers [of demo_file "lit ''fn''" "lit ''\"hi''"] by (auto split: sum.splits)
qed

end
