(* ===== verification/Spec2Isabelle.thy ===== *)
theory Spec2Isabelle
  imports Spsc Decode File_Sinks Formatter End_To_End Mermaid_Configured Git_Graph Sequence_Diagram
    Packet_Diagram Outline_Diagrams Er_Diagram Requirement_Diagram Flow_Chart Doc_Includes
begin

text \<open>
  Verification development of insomnilog, an asynchronous logger in Rust (\<open>src/insomnilog/src/\<close>), and of
  the parts of the diagram renderer bundled with its documentation (\<open>src/insomnilog/docs/mermaid.tiny.js\<close>)
  that clean a diagram's directives, merge them into the configuration, make its style sheets and keep the
  records of git graphs, sequence diagrams, packets, treemaps, fishbone, entity relationship and requirement
  diagrams and of the links and subgraphs of flowcharts.

  \<^bold>\<open>The logger.\<close> A log statement encodes its arguments into a record, writes it into the lock-free ring
  buffer of its thread and returns; one worker thread reads all ring buffers, decodes the records and
  hands them to the sinks of the logger. The theories follow the modules of the crate:

  \<^item> \<open>Insomni_Prelude\<close>, \<open>Rust_Str\<close>, \<open>Rust_Num\<close>, \<open>Wire_Bytes\<close>: faults (panics and undefined behaviour as values),
    the error and state-and-fault monads, strings as Unicode scalar values with UTF-8, decimal numbers,
    native-endian bytes of machine words. What is a panic only with overflow checks or debug assertions
    depends on a \<open>target\<close>.
  \<^item> \<open>Log_Level\<close> (\<open>level.rs\<close>), \<open>Record_Header\<close> (\<open>record.rs\<close>, \<open>metadata.rs\<close>), \<open>Encode\<close> (\<open>encode.rs\<close>), \<open>Decode\<close>
    (\<open>decode.rs\<close>): the wire format. Encoding fills exactly the reserved bytes, decoding inverts it, accepts
    nothing else (but for the bytes of booleans) and rejects every truncated record.
  \<^item> \<open>Byte_Queue\<close> (\<open>queue.rs\<close>, one thread at a time) with the interface \<open>Chunk_Fifo\<close>, and \<open>Spsc\<close> (the two
    threads interleaved, with stale loads of the positions): the ring buffer refines a list of chunks,
    the two unsafe slices never overlap, chunks arrive in order. Positions are 64-bit words that wrap.
  \<^item> \<open>Formatter\<close> (\<open>formatter.rs\<close>): parsing of patterns against a printer, padding, message substitution.
  \<^item> \<open>Sink_Core\<close> and \<open>File_Sinks\<close> (\<open>sink.rs\<close>): the stream engine over a buffered writer whose device may
    refuse or cut any write, and the rotation of session files over a file system given as a map.
  \<^item> \<open>Loggers\<close> (\<open>logger.rs\<close>), \<open>Per_Thread_Queue\<close> (\<open>per_thread_queue.rs\<close>), \<open>Backend_Runner\<close>
    (\<open>backend_runner.rs\<close>): the worker's loop. Between any two steps of the worker the other threads may do
    what the parameter \<open>others\<close> says; the theorems hold for all of it. The loop is run with fuel; that enough
    fuel exists, namely one pass more than the longest queue has batches of 32 records, is a theorem.
  \<^item> \<open>Backend\<close> (\<open>backend.rs\<close>), \<open>Lifecycle\<close> (\<open>lifecycle.rs\<close>): registries (a locale interpreted on both), start and
    shutdown; concurrent calls of \<open>start\<close> as an inductive step relation.
  \<^item> \<open>Hot_Path\<close> (\<open>frontend.rs\<close>, \<open>macros.rs\<close>): the log macros. An argument is an expression that may have
    effects, panic or log itself, evaluated as often as the macro's expansion does.
  \<^item> \<open>End_To_End\<close>: what was logged before a shutdown is dispatched, once, with the values logged.

  \<^bold>\<open>The build script.\<close> \<open>Doc_Includes\<close> (\<open>build.rs\<close>): the pages of the documentation with the parts of
  the examples they include, and the script of the renderer. A part given by lines or by markers shows exactly
  those lines and keeps the rest of the file.

  \<^bold>\<open>The diagram renderer.\<close> \<open>mermaid.tiny.js\<close> is a third-party minified bundle of 2,679 lines. Modelled are

  \<^item> \<open>Js_Values\<close>: the JavaScript values, operators and template literals those parts use, and the depth of
    braces of a text;
  \<^item> \<open>Js_Library\<close>: string and map functions several parts use, style classes, and what it means that a database
    implements an abstract one, as a locale;
  \<^item> \<open>Mermaid_Sanitize\<close>: \<open>sanitizeDirective\<close>, \<open>sanitizeCss\<close>, \<open>sanitize\<close> and \<open>addDirective\<close> (all on line 1),
    with the contract of a cleaned object;
  \<^item> \<open>Mermaid_Styles\<close>, \<open>Mermaid_Diagram_Styles\<close>, \<open>Mermaid_Theme_Styles\<close>, \<open>Mermaid_Section_Styles\<close>: the style
    sheets, each template literal line for line, and the loops over the colours of the theme; a sheet whose
    function throws is \<open>None\<close>;
  \<^item> \<open>Mermaid_Balance\<close>: no sheet opens or closes a block that its text does not, whatever the theme, as long
    as its values have no braces;
  \<^item> \<open>Mermaid_Sheets\<close>: \<open>getStyles\<close>, the contract of a sheet as a locale, interpreted on the sheets, and the way
    from a directive to a style sheet;
  \<^item> \<open>Mermaid_Merge\<close>, \<open>Mermaid_Config\<close>: \<open>assignWithDepth\<close> and the configuration of the site, of the directives and
    in force (line 1), with \<open>initialize\<close> and \<open>processAndSetConfigs\<close> (lines 2642 and 2638). A directive does not
    change what only the site may set, nor the next diagram; of a scalar option the directive's value wins;
  \<^item> \<open>Mermaid_Configured\<close>: from the text of a diagram through the configuration to its style sheet
    (\<open>createUserStyles\<close>, line 2640), for every theme without braces in its values; the look is the way around it;
  \<^item> \<open>Git_Graph\<close>: the records of git graphs and their statements (line 725); the history stays acyclic as long
    as no commit takes the id of an earlier one, which the code does not enforce;
  \<^item> \<open>Sequence_Diagram\<close>: the records of sequence diagrams (lines 1251 to 1255), with the invariants of a diagram as a
    locale: activations are closed only when open, what is created is greeted, the lists of the boxes are sound, and
    the participants a chain, unless one is described twice;
  \<^item> \<open>Packet_Diagram\<close> (line 2226): the layout of packets in rows is that of the bits themselves, and its rectangles
    are inside the drawing and apart;
  \<^item> \<open>Outline\<close>, \<open>Outline_Diagrams\<close> (lines 2535 and 2438): trees given by indentation. Both algorithms keep a stack of
    open sections; a locale of nested relations shows that the traversal meets the lines in the order of the text,
    with as much fuel as there are lines;
  \<^item> \<open>Er_Diagram\<close> (line 486, the actions of the grammar on line 481), \<open>Requirement_Diagram\<close> (lines 1168 and 1163): the
    databases, whose records the statements of the text change, implement an abstract diagram of names and relations;
    the nodes and edges given to the layout are those of the abstract diagram. Ids are distinct in the former, and
    not always in the latter;
  \<^item> \<open>Flow_Chart\<close> (lines 294 to 302, the actions of the grammar on line 314): the links and subgraphs of flowcharts. Arrows are
    read as they are written; the limit of the site on the number of edges holds against every directive; every name
    is a member of at most one subgraph.

  \<^bold>\<open>Parameters.\<close> What threads are spawned, what the operating system does with writes, files and the clock, the files read
  by the build script,
  the display of floating point numbers, user-defined encoders and decoders, the sanitiser of texts, and the renderer's default
  configuration, the options a diagram merges with its own defaults, the variables that a theme sets and derives
  and the colour library are arguments of the definitions that use them.

  \<^bold>\<open>Not modelled.\<close> Weak memory beyond stale loads, allocation failure, poisoned locks (the code ignores
  poisoning), the tests, and of the bundle everything else: the nodes of flowcharts, generated parsers, layout, drawing, DOMPurify,
  D3, the colour library and the post-processing of CSS. What an operation on the configuration that throws
  leaves behind is not modelled either. Loops over the colours
  of a theme are covered for a number, or a decimal numeral, of colours.
\<close>

end
